(* ===== verification/Softbus_Prelude.thy ===== *)
theory Softbus_Prelude
  imports "HOL-Library.Word" "HOL-Library.Multiset"
begin

text \<open>
  Shared vocabulary of the development: the machine integer types of the C sources, the
  status codes of \<^verbatim>\<open>interfaces/kits/common/softbus_error_code.h\<close>, the outcome type for
  code whose C meaning may be undefined, the environment (allocator, locks, the
  bounds-checked memory functions) every fallible operation consults, and the list and
  word lemmas the components share.
\<close>

unbundle bit_operations_syntax

subsection \<open>Machine integers\<close>

text \<open>
  Unsigned and signed C integers of one width share one word type; a signed reading is
  \<open>sint\<close>, and signed comparisons are written with it. Arithmetic wraps.
\<close>

type_synonym u8 = "8 word"
type_synonym u16 = "16 word"
type_synonym u32 = "32 word"
type_synonym u64 = "64 word"
type_synonym i32 = "32 word"
type_synonym i64 = "64 word"

type_synonym bytes = "u8 list"

subsection \<open>Outcomes of code that may be undefined\<close>

text \<open>
  \<open>Undef\<close> stands for an execution with no C meaning (a shift by at least the width of
  its operand, a write outside an object). \<open>Done x\<close> is a normal result.
\<close>

datatype 'a outcome = Undef | Done 'a

fun bind_outcome :: "'a outcome \<Rightarrow> ('a \<Rightarrow> 'b outcome) \<Rightarrow> 'b outcome" where
  "bind_outcome Undef f = Undef"
| "bind_outcome (Done x) f = f x"

definition shl32 :: "u32 \<Rightarrow> nat \<Rightarrow> u32 outcome" where
  "shl32 x n = (if n < 32 then Done (push_bit n x) else Undef)"

definition shl64 :: "u64 \<Rightarrow> nat \<Rightarrow> u64 outcome" where
  "shl64 x n = (if n < 64 then Done (push_bit n x) else Undef)"

lemma bind_outcome_eq_Done:
  "bind_outcome m f = Done y \<longleftrightarrow> (\<exists>x. m = Done x \<and> f x = Done y)"
  by (cases m) auto

lemma bind_outcome_eq_Undef:
  "bind_outcome m f = Undef \<longleftrightarrow> m = Undef \<or> (\<exists>x. m = Done x \<and> f x = Undef)"
  by (cases m) auto

text \<open>
  Calls that may not return: \<open>Done None\<close> is a call that has not returned. They are sequenced by
  \<open>seq_call\<close>; \<open>flip_call\<close> exchanges the two layers of a result.
\<close>

definition seq_call :: "'a option outcome \<Rightarrow> ('a \<Rightarrow> 'b option outcome) \<Rightarrow> 'b option outcome" where
  "seq_call m f = bind_outcome m (\<lambda>r. case r of None \<Rightarrow> Done None | Some x \<Rightarrow> f x)"

definition flip_call :: "'a outcome option \<Rightarrow> 'a option outcome" where
  "flip_call m = (case m of None \<Rightarrow> Done None | Some Undef \<Rightarrow> Undef | Some (Done x) \<Rightarrow> Done (Some x))"

definition ret_call :: "'a \<Rightarrow> 'a option outcome" where
  "ret_call x = Done (Some x)"

lemma seq_call_simps [simp]:
  "seq_call (Done (Some x)) f = f x" "seq_call (Done None) f = Done None" "seq_call Undef f = Undef"
  "seq_call (ret_call x) f = f x"
  by (simp_all add: seq_call_def ret_call_def)

lemma ret_call_inject [simp]: "ret_call x = ret_call y \<longleftrightarrow> x = y"
  by (simp add: ret_call_def)

lemma flip_call_simps [simp]:
  "flip_call (Some (Done x)) = ret_call x" "flip_call None = Done None" "flip_call (Some Undef) = Undef"
  by (simp_all add: flip_call_def ret_call_def)

subsection \<open>Words\<close>

lemma unat_drop_bit_1_less: "0 < (b :: 'a::len word) \<Longrightarrow> unat (drop_bit 1 b) < unat b"
  unfolding unat_drop_bit_eq by (simp add: drop_bit_Suc word_gt_0 unat_gt_0)

lemma unat_ucast_up:
  "LENGTH('a::len) \<le> LENGTH('b::len) \<Longrightarrow> unat (ucast (x :: 'a word) :: 'b word) = unat x"
  by (simp add: unsigned_ucast_eq take_bit_nat_eq_self_iff)
    (meson less_le_trans one_le_numeral power_increasing unsigned_less)

subsection \<open>Status codes\<close>

text \<open>
  The error bases are \<open>- ((203 << 21) | (module << 16) | 0xFFFF)\<close>; the enumerators count
  up from them.
\<close>

type_synonym status = int

abbreviation (input) SOFTBUS_OK :: status where "SOFTBUS_OK \<equiv> 0"
abbreviation (input) SOFTBUS_TIMOUT :: status where "SOFTBUS_TIMOUT \<equiv> - 426442750"
abbreviation (input) SOFTBUS_INVALID_PARAM :: status where "SOFTBUS_INVALID_PARAM \<equiv> - 426442749"
abbreviation (input) SOFTBUS_MEM_ERR :: status where "SOFTBUS_MEM_ERR \<equiv> - 426442748"
abbreviation (input) SOFTBUS_CREATE_JSON_ERR :: status where "SOFTBUS_CREATE_JSON_ERR \<equiv> - 426442745"
abbreviation (input) SOFTBUS_PARSE_JSON_ERR :: status where "SOFTBUS_PARSE_JSON_ERR \<equiv> - 426442744"
abbreviation (input) SOFTBUS_MALLOC_ERR :: status where "SOFTBUS_MALLOC_ERR \<equiv> - 426442741"
abbreviation (input) SOFTBUS_STRCPY_ERR :: status where "SOFTBUS_STRCPY_ERR \<equiv> - 426442740"
abbreviation (input) SOFTBUS_NETWORK_GET_NODE_INFO_ERR :: status where
  "SOFTBUS_NETWORK_GET_NODE_INFO_ERR \<equiv> - 426049516"
abbreviation (input) SOFTBUS_NETWORK_NODE_OFFLINE :: status where
  "SOFTBUS_NETWORK_NODE_OFFLINE \<equiv> - 426049520"
abbreviation (input) SOFTBUS_NETWORK_GET_DEVICE_INFO_ERR :: status where
  "SOFTBUS_NETWORK_GET_DEVICE_INFO_ERR \<equiv> - 426049513"
abbreviation (input) SOFTBUS_NETWORK_DELETE_INFO_ERR :: status where
  "SOFTBUS_NETWORK_DELETE_INFO_ERR \<equiv> - 426049512"
abbreviation (input) SOFTBUS_LOCK_ERR :: status where "SOFTBUS_LOCK_ERR \<equiv> - 426442734"
abbreviation (input) SOFTBUS_ALREADY_EXISTED :: status where "SOFTBUS_ALREADY_EXISTED \<equiv> - 426442726"
abbreviation (input) SOFTBUS_NOT_FIND :: status where "SOFTBUS_NOT_FIND \<equiv> - 426442723"
abbreviation (input) SOFTBUS_ALREADY_TRIGGERED :: status where
  "SOFTBUS_ALREADY_TRIGGERED \<equiv> - 426442722"
abbreviation (input) SOFTBUS_ERR :: status where "SOFTBUS_ERR \<equiv> - 426442708"
abbreviation (input) SOFTBUS_CONN_BR_INTERNAL_ERR :: status where
  "SOFTBUS_CONN_BR_INTERNAL_ERR \<equiv> - 425918449"
abbreviation (input) SOFTBUS_CONN_BR_CONNECTION_NOT_EXIST_ERR :: status where
  "SOFTBUS_CONN_BR_CONNECTION_NOT_EXIST_ERR \<equiv> - 425918446"
abbreviation (input) SOFTBUS_CONN_BR_CONNECTION_NOT_READY_ERR :: status where
  "SOFTBUS_CONN_BR_CONNECTION_NOT_READY_ERR \<equiv> - 425918445"
abbreviation (input) SOFTBUS_CONN_BR_CONNECTION_INVALID_SOCKET :: status where
  "SOFTBUS_CONN_BR_CONNECTION_INVALID_SOCKET \<equiv> - 425918444"
abbreviation (input) SOFTBUS_CONN_BR_UNDERLAY_WRITE_FAIL :: status where
  "SOFTBUS_CONN_BR_UNDERLAY_WRITE_FAIL \<equiv> - 425918442"
abbreviation (input) SOFTBUS_CONN_BR_UNDERLAY_SOCKET_CLOSED :: status where
  "SOFTBUS_CONN_BR_UNDERLAY_SOCKET_CLOSED \<equiv> - 425918441"
abbreviation (input) SOFTBUS_CONN_BR_UNDERLAY_READ_FAIL :: status where
  "SOFTBUS_CONN_BR_UNDERLAY_READ_FAIL \<equiv> - 425918440"
abbreviation (input) SOFTBUS_CONN_BLE_INTERNAL_ERR :: status where
  "SOFTBUS_CONN_BLE_INTERNAL_ERR \<equiv> - 425918439"
abbreviation (input) SOFTBUS_CONN_BLE_CONNECTION_NOT_EXIST_ERR :: status where
  "SOFTBUS_CONN_BLE_CONNECTION_NOT_EXIST_ERR \<equiv> - 425918433"
abbreviation (input) SOFTBUS_CONN_BLE_CONNECTION_NOT_READY_ERR :: status where
  "SOFTBUS_CONN_BLE_CONNECTION_NOT_READY_ERR \<equiv> - 425918432"

subsection \<open>The environment of an operation\<close>

text \<open>
  What an operation asks of code outside the repository: whether its \<open>k\<close>-th call of the
  C allocator returns memory, whether its \<open>k\<close>-th lock attempt succeeds, and whether the
  bounds-checked \<open>memcpy_s\<close> and \<open>memset_s\<close> accept a destination size and a count.
\<close>

record env =
  malloc_ok :: "nat \<Rightarrow> bool"
  lock_ok :: "nat \<Rightarrow> bool"
  memcpy_ok :: "nat \<Rightarrow> nat \<Rightarrow> bool"
  memset_ok :: "nat \<Rightarrow> nat \<Rightarrow> bool"

text \<open>
  The documented contract of the bounds-checked functions: a copy into a non-empty
  destination of at most \<open>0x7fffffff\<close> bytes that holds the count succeeds, and no copy
  longer than its destination ever does.
\<close>

definition securec :: "env \<Rightarrow> bool" where
  "securec e \<longleftrightarrow>
     (\<forall>d n. 0 < d \<and> d \<le> 0x7fffffff \<and> n \<le> d \<longrightarrow> memcpy_ok e d n \<and> memset_ok e d n) \<and>
     (\<forall>d n. d < n \<longrightarrow> \<not> memcpy_ok e d n)"

text \<open>A healthy environment never runs out of memory and never fails to lock.\<close>

definition healthy :: "env \<Rightarrow> bool" where
  "healthy e \<longleftrightarrow> securec e \<and> (\<forall>k. malloc_ok e k) \<and> (\<forall>k. lock_ok e k)"

text \<open>A concrete healthy environment, for evaluation.\<close>

definition ideal_env :: env where
  "ideal_env = \<lparr>malloc_ok = (\<lambda>_. True), lock_ok = (\<lambda>_. True),
     memcpy_ok = (\<lambda>d n. 0 < d \<and> n \<le> d), memset_ok = (\<lambda>d n. 0 < d \<and> n \<le> d)\<rparr>"

lemma ideal_env_simps [simp]:
  "malloc_ok ideal_env k" "lock_ok ideal_env k"
  "memcpy_ok ideal_env d n \<longleftrightarrow> 0 < d \<and> n \<le> d"
  "memset_ok ideal_env d n \<longleftrightarrow> 0 < d \<and> n \<le> d"
  by (simp_all add: ideal_env_def)

lemma healthy_ideal_env [simp]: "healthy ideal_env"
  by (simp add: healthy_def securec_def)

lemma healthy_securec: "healthy e \<Longrightarrow> securec e"
  by (simp add: healthy_def)

lemma healthy_malloc [simp]: "healthy e \<Longrightarrow> malloc_ok e k"
  by (simp add: healthy_def)

lemma healthy_lock [simp]: "healthy e \<Longrightarrow> lock_ok e k"
  by (simp add: healthy_def)

lemma securec_memcpy: "securec e \<Longrightarrow> 0 < d \<Longrightarrow> d \<le> 0x7fffffff \<Longrightarrow> n \<le> d \<Longrightarrow> memcpy_ok e d n"
  by (simp add: securec_def)

lemma securec_memset: "securec e \<Longrightarrow> 0 < d \<Longrightarrow> d \<le> 0x7fffffff \<Longrightarrow> n \<le> d \<Longrightarrow> memset_ok e d n"
  by (simp add: securec_def)

lemma securec_memcpy_le: "securec e \<Longrightarrow> memcpy_ok e d n \<Longrightarrow> n \<le> d"
  by (rule ccontr) (simp add: securec_def not_le)

subsection \<open>The allocator adapter\<close>

text \<open>
  \<^verbatim>\<open>adapter/common/kernel/posix/softbus_adapter_mem.c\<close>: the adapter refuses requests above
  512 MiB and \<open>SoftBusCalloc\<close> clears what it got with \<open>memset_s\<close>. The value says whether
  the returned pointer is non-null.
\<close>

abbreviation (input) MAX_MALLOC_SIZE :: nat where "MAX_MALLOC_SIZE \<equiv> 536870912"

definition SoftBusMalloc :: "env \<Rightarrow> nat \<Rightarrow> nat \<Rightarrow> bool" where
  "SoftBusMalloc e k sz = (if sz > MAX_MALLOC_SIZE then False else malloc_ok e k)"

definition SoftBusCalloc :: "env \<Rightarrow> nat \<Rightarrow> nat \<Rightarrow> bool" where
  "SoftBusCalloc e k sz =
     (if \<not> SoftBusMalloc e k sz then False
      else if \<not> memset_ok e sz sz then False
      else True)"

lemma healthy_SoftBusCalloc:
  assumes "healthy e" "0 < sz" "sz \<le> MAX_MALLOC_SIZE"
  shows "SoftBusCalloc e k sz"
proof -
  from assms(3) have "sz \<le> 0x7fffffff" by linarith
  with assms have "memset_ok e sz sz" by (intro securec_memset healthy_securec) auto
  with assms show ?thesis by (simp add: SoftBusCalloc_def SoftBusMalloc_def)
qed

lemma SoftBusCalloc_le: "SoftBusCalloc e k sz \<Longrightarrow> sz \<le> MAX_MALLOC_SIZE"
  by (simp add: SoftBusCalloc_def SoftBusMalloc_def split: if_splits)

subsection \<open>Signed 32-bit arithmetic\<close>

lemma sint32_bounds: "- 2147483648 \<le> sint (x :: i32)" "sint (x :: i32) < 2147483648"
  using sint_ge [of x] sint_lt [of x] by simp_all

lemma wrap32:
  fixes d r :: int
  assumes "r = (d + 2147483648) mod 4294967296 - 2147483648" "- 4294967296 < d" "d < 4294967296"
  shows "r = (if 2147483648 \<le> d then d - 4294967296
         else if d < - 2147483648 then d + 4294967296 else d)"
proof -
  consider "2147483648 \<le> d" | "d < - 2147483648" | "- 2147483648 \<le> d" "d < 2147483648" by linarith
  then show ?thesis
  proof cases
    case 1
    have "(d + 2147483648) mod 4294967296 = (d - 2147483648 + 1 * 4294967296) mod 4294967296" by (simp add: add.commute)
    also have "\<dots> = d - 2147483648" using 1 assms(2,3) by (simp only: mod_mult_self1) simp
    finally show ?thesis using assms 1 by simp
  next
    case 2
    have "(d + 2147483648) mod 4294967296 = (d + 6442450944 + (- 1) * 4294967296) mod 4294967296" by (simp add: add.commute)
    also have "\<dots> = d + 6442450944" using 2 assms(2,3) by (simp only: mod_mult_self1) simp
    finally show ?thesis using assms 2 by simp
  next
    case 3
    then show ?thesis using assms by simp
  qed
qed

lemma sint32_diff:
  "sint (x - y :: i32) =
     (let d = sint x - sint y
      in if 2147483648 \<le> d then d - 4294967296
         else if d < - 2147483648 then d + 4294967296 else d)"
proof -
  have "sint (x - y) = (sint x - sint y + 2147483648) mod 4294967296 - 2147483648"
    by (simp add: sint_word_ariths signed_take_bit_eq_take_bit_shift take_bit_eq_mod)
  moreover have "- 4294967296 < sint x - sint y" "sint x - sint y < 4294967296"
    using sint32_bounds [of x] sint32_bounds [of y] by linarith+
  ultimately show ?thesis unfolding Let_def by (rule wrap32) 
qed

lemma sint32_plus1:
  "sint (x + 1 :: i32) = (if sint x = 2147483647 then - 2147483648 else sint x + 1)"
proof -
  have "sint (x + 1) = (sint x + 1 + 2147483648) mod 4294967296 - 2147483648"
    by (simp add: sint_word_ariths signed_take_bit_eq_take_bit_shift take_bit_eq_mod)
  then show ?thesis
    using sint32_bounds [of x] wrap32 [of "sint (x + 1)" "sint x + 1"] by (auto split: if_splits)
qed

lemma i32_eq_iff: "x = y \<longleftrightarrow> sint (x :: i32) = sint y"
  by (simp add: word_eq_iff_signed)

lemma uint_eq_sint: "0 \<le> sint (x :: i32) \<Longrightarrow> uint x = sint x"
  using sint32_bounds [of x] by (simp add: uint_sint [of x] take_bit_int_eq_self)

lemma unat_less_sint: "\<lbrakk>0 \<le> sint (x :: i32); sint x < int n\<rbrakk> \<Longrightarrow> unat x < n"
  using uint_eq_sint [of x] by (metis of_nat_less_iff uint_nat)

end
