(* ===== verification/Softbus_Bitmap.thy ===== *)
theory Softbus_Bitmap
  imports Softbus_Prelude
begin

text \<open>
  The 32-bit bitmap helpers of \<^verbatim>\<open>core/common/bitmap/softbus_bitmap.c\<close>. A bitmap pointer is
  an option (\<open>None\<close> is the null pointer); an operation returns the bitmap it leaves
  behind.
\<close>

abbreviation (input) UINT32_BITNUM :: nat where "UINT32_BITNUM \<equiv> 32"

subsection \<open>Operations\<close>

definition SoftbusBitmapSet :: "u32 option \<Rightarrow> u8 \<Rightarrow> u32 option" where
  "SoftbusBitmapSet bitmap pos =
     (case bitmap of
        None \<Rightarrow> None
      | Some b \<Rightarrow> if unat pos \<ge> UINT32_BITNUM then Some b
                 else Some (b OR push_bit (unat pos) 1))"

definition SoftbusBitmapClr :: "u32 option \<Rightarrow> u8 \<Rightarrow> u32 option" where
  "SoftbusBitmapClr bitmap pos =
     (case bitmap of
        None \<Rightarrow> None
      | Some b \<Rightarrow> if unat pos \<ge> UINT32_BITNUM then Some b
                 else Some (b AND NOT (push_bit (unat pos) 1)))"

text \<open>
  The range mask both range operations build. The subtractions are unsigned: a \<open>start\<close>
  of 0 asks for a shift by \<open>0xFFFFFFFF\<close>, which C leaves undefined.
\<close>

definition range_mask :: "u8 \<Rightarrow> u8 \<Rightarrow> u32 outcome" where
  "range_mask start nums =
     bind_outcome (shl32 1 (unat (ucast start + ucast nums - 1 :: u32))) (\<lambda>hi.
     bind_outcome (shl32 1 (unat (ucast start - 1 :: u32))) (\<lambda>lo.
       Done ((hi - 1) AND NOT (lo - 1))))"

definition SoftbusBitmapSetBits :: "u32 option \<Rightarrow> u8 \<Rightarrow> u8 \<Rightarrow> u32 option outcome" where
  "SoftbusBitmapSetBits bitmap start nums =
     (case bitmap of
        None \<Rightarrow> Done None
      | Some b \<Rightarrow>
          if unat start > UINT32_BITNUM \<or> unat start + unat nums > UINT32_BITNUM \<or> nums = 0
          then Done (Some b)
          else bind_outcome (range_mask start nums) (\<lambda>m. Done (Some (b OR (- 1 - m)))))"

definition SoftbusBitmapClrBits :: "u32 option \<Rightarrow> u8 \<Rightarrow> u8 \<Rightarrow> u32 option outcome" where
  "SoftbusBitmapClrBits bitmap start nums =
     (case bitmap of
        None \<Rightarrow> Done None
      | Some b \<Rightarrow>
          if unat start > UINT32_BITNUM \<or> unat start + unat nums > UINT32_BITNUM \<or> nums = 0
          then Done (Some b)
          else bind_outcome (range_mask start nums) (\<lambda>m. Done (Some (b AND m))))"

function low_bit_loop :: "u32 \<Rightarrow> u8 \<Rightarrow> u8" where
  "low_bit_loop bitmap pos =
     (if bitmap > 0 then
        (let pos' = pos + 1
         in if bitmap AND 1 \<noteq> 0 then pos' else low_bit_loop (drop_bit 1 bitmap) pos')
      else 0)"
  by pat_completeness auto
termination
  by (relation "measure (\<lambda>(b, p). unat b)") (auto intro: unat_drop_bit_1_less [unfolded One_nat_def])

declare low_bit_loop.simps [simp del]

definition SoftbusLowBitGet :: "u32 \<Rightarrow> u8" where
  "SoftbusLowBitGet bitmap = low_bit_loop bitmap 0"

function high_bit_loop :: "u32 \<Rightarrow> u8 \<Rightarrow> u8" where
  "high_bit_loop bitmap pos =
     (if bitmap > 0 then high_bit_loop (drop_bit 1 bitmap) (pos + 1) else pos)"
  by pat_completeness auto
termination
  by (relation "measure (\<lambda>(b, p). unat b)") (auto intro: unat_drop_bit_1_less [unfolded One_nat_def])

declare high_bit_loop.simps [simp del]

definition SoftbusHighBitGet :: "u32 \<Rightarrow> u8" where
  "SoftbusHighBitGet bitmap = high_bit_loop bitmap 0"

definition SoftbusIsBitmapSet :: "u32 option \<Rightarrow> u8 \<Rightarrow> bool" where
  "SoftbusIsBitmapSet bitmap pos =
     (case bitmap of
        None \<Rightarrow> False
      | Some b \<Rightarrow> if unat pos \<ge> UINT32_BITNUM then False
                 else (push_bit (unat pos) 1 AND b) \<noteq> 0)"


subsection \<open>The interface of a set of flags\<close>

text \<open>
  What the capability code relies on when it keeps flags in an integer: after a flag is
  raised or cleared, exactly that flag reads differently.
\<close>

locale bit_flags =
  fixes set_flag :: "'w \<Rightarrow> 'p \<Rightarrow> 'w"
    and clear_flag :: "'w \<Rightarrow> 'p \<Rightarrow> 'w"
    and has_flag :: "'w \<Rightarrow> 'p \<Rightarrow> bool"
    and wf :: "'w \<Rightarrow> bool"
    and valid :: "'p \<Rightarrow> bool"
  assumes wf_set: "wf w \<Longrightarrow> wf (set_flag w i)"
    and wf_clear: "wf w \<Longrightarrow> wf (clear_flag w i)"
    and has_set: "wf w \<Longrightarrow> valid i \<Longrightarrow> valid j \<Longrightarrow>
      has_flag (set_flag w i) j \<longleftrightarrow> i = j \<or> has_flag w j"
    and has_clear: "wf w \<Longrightarrow> valid i \<Longrightarrow> valid j \<Longrightarrow>
      has_flag (clear_flag w i) j \<longleftrightarrow> i \<noteq> j \<and> has_flag w j"
begin

lemma wf_fold_set: "wf w \<Longrightarrow> wf (fold (\<lambda>i w. set_flag w i) is w)"
  by (induction "is" arbitrary: w) (auto intro: wf_set)

lemma has_fold_set:
  "wf w \<Longrightarrow> list_all valid is \<Longrightarrow> valid j \<Longrightarrow>
    has_flag (fold (\<lambda>i w. set_flag w i) is w) j \<longleftrightarrow> j \<in> set is \<or> has_flag w j"
  by (induction "is" arbitrary: w) (auto simp: wf_set has_set)

lemma has_fold_clear:
  "wf w \<Longrightarrow> list_all valid is \<Longrightarrow> valid j \<Longrightarrow>
    has_flag (fold (\<lambda>i w. clear_flag w i) is w) j \<longleftrightarrow> j \<notin> set is \<and> has_flag w j"
  by (induction "is" arbitrary: w) (auto simp: wf_clear has_clear)

lemma clear_after_set:
  "wf w \<Longrightarrow> valid i \<Longrightarrow> valid j \<Longrightarrow>
    has_flag (clear_flag (set_flag w i) i) j \<longleftrightarrow> i \<noteq> j \<and> has_flag w j"
  by (auto simp: wf_set has_set has_clear)

end

subsection \<open>Bits of the single-bit operations\<close>

lemma SoftbusIsBitmapSet_bit:
  "SoftbusIsBitmapSet (Some b) pos \<longleftrightarrow> bit b (unat pos)"
proof (cases "unat pos < 32")
  case True
  then show ?thesis
    by (simp only: SoftbusIsBitmapSet_def option.case not_le if_False if_True not_less)
      (simp add: bit_iff_and_push_bit_not_eq_0 and.commute)
next
  case False
  then show ?thesis by (auto simp: SoftbusIsBitmapSet_def dest: bit_imp_le_length)
qed

lemma SoftbusBitmapSet_Some:
  "SoftbusBitmapSet (Some b) pos =
     Some (if unat pos < 32 then b OR push_bit (unat pos) 1 else b)"
  by (simp add: SoftbusBitmapSet_def)

lemma SoftbusBitmapClr_Some:
  "SoftbusBitmapClr (Some b) pos =
     Some (if unat pos < 32 then b AND NOT (push_bit (unat pos) 1) else b)"
  by (simp add: SoftbusBitmapClr_def)

interpretation bitmap_flags: bit_flags SoftbusBitmapSet SoftbusBitmapClr SoftbusIsBitmapSet
  "\<lambda>b. b \<noteq> None" "\<lambda>pos. unat pos < 32"
proof (unfold_locales, goal_cases)
  case (1 w i) then show ?case by (auto simp: SoftbusBitmapSet_Some)
next
  case (2 w i) then show ?case by (auto simp: SoftbusBitmapClr_Some)
next
  case (3 w i j) then show ?case
    by (auto simp: SoftbusBitmapSet_Some SoftbusIsBitmapSet_bit bit_simps word_unat_eq_iff)
next
  case (4 w i j) then show ?case
    by (auto simp: SoftbusBitmapClr_Some SoftbusIsBitmapSet_bit bit_simps word_unat_eq_iff)
qed

subsection \<open>The range operations\<close>

lemma shl32_Done: "n < 32 \<Longrightarrow> shl32 x n = Done (push_bit n x)"
  by (simp add: shl32_def)

lemma range_mask_Done:
  assumes "1 \<le> unat start" "1 \<le> unat nums" "unat start + unat nums \<le> 32"
  shows "range_mask start nums =
    Done (mask (unat start + unat nums - 1) AND NOT (mask (unat start - 1)))"
proof -
  have a: "unat (ucast start + ucast nums - 1 :: u32) = unat start + unat nums - 1"
    using assms by (simp add: unat_word_ariths unat_sub_if' unat_ucast_up)
  have b: "unat (ucast start - 1 :: u32) = unat start - 1"
    using assms by (simp add: unat_sub_if' unat_ucast_up)
  have m: "push_bit n (1::u32) - 1 = mask n" for n
    by (simp add: mask_eq_exp_minus_1)
  show ?thesis
    unfolding range_mask_def a b using assms by (simp add: shl32_Done m del: push_bit_of_1)
qed

lemma bit_range_mask:
  assumes "1 \<le> unat start" "1 \<le> unat nums" "unat start + unat nums \<le> 32"
    and "range_mask start nums = Done m"
  shows "bit m i \<longleftrightarrow> unat start - 1 \<le> i \<and> i < unat start + unat nums - 1"
  using assms by (auto simp: range_mask_Done bit_simps)

lemma SoftbusBitmapSetBits_Done:
  assumes "1 \<le> unat start" "1 \<le> unat nums" "unat start + unat nums \<le> 32"
  shows "\<exists>m. range_mask start nums = Done m \<and>
    SoftbusBitmapSetBits (Some b) start nums = Done (Some (b OR NOT m))"
proof -
  have "nums \<noteq> 0" using assms(2) by auto
  moreover have "- 1 - m = NOT m" for m :: u32 by (simp add: not_eq_complement)
  ultimately show ?thesis using assms
    by (auto simp: SoftbusBitmapSetBits_def range_mask_Done simp del: de_Morgan_conj)
qed

lemma SoftbusBitmapClrBits_Done:
  assumes "1 \<le> unat start" "1 \<le> unat nums" "unat start + unat nums \<le> 32"
  shows "\<exists>m. range_mask start nums = Done m \<and>
    SoftbusBitmapClrBits (Some b) start nums = Done (Some (b AND m))"
proof -
  have "nums \<noteq> 0" using assms(2) by auto
  with assms show ?thesis
    by (auto simp: SoftbusBitmapClrBits_def range_mask_Done)
qed

subsection \<open>Lowest and highest set bit\<close>

lemma bit_drop_bit_1: "bit (drop_bit 1 (b :: u32)) i \<longleftrightarrow> bit b (Suc i)"
  by (simp only: bit_drop_bit_eq comp_def) simp

lemma word_pos_iff_bit: "0 < (b :: u32) \<longleftrightarrow> (\<exists>i. bit b i)"
  using bit_imp_le_length [of b] by (auto simp: word_gt_0 bit_eq_iff)

lemma and_1_bit: "(b :: u32) AND 1 \<noteq> 0 \<longleftrightarrow> bit b 0"
  using bit_iff_and_push_bit_not_eq_0 [of b 0] by simp

lemma low_bit_loop_bit:
  assumes "bit b i" "\<And>j. j < i \<Longrightarrow> \<not> bit b j"
  shows "low_bit_loop b pos = pos + of_nat (Suc i)"
  using assms
proof (induction i arbitrary: b pos)
  case 0
  then have "0 < b" "b AND 1 \<noteq> 0"
    by (auto simp only: word_pos_iff_bit and_1_bit)
  then show ?case by (subst low_bit_loop.simps) (simp add: Let_def)
next
  case (Suc i)
  have z: "0 < b" using Suc.prems(1) by (auto simp: word_pos_iff_bit)
  have e: "b AND 1 = 0" using Suc.prems(2)[of 0] and_1_bit[of b] by blast
  have "low_bit_loop (drop_bit 1 b) (pos + 1) = pos + 1 + of_nat (Suc i)"
    using Suc.prems by (intro Suc.IH) (auto simp only: bit_drop_bit_1)
  with z e show ?case by (subst low_bit_loop.simps) (simp add: Let_def algebra_simps)
qed

lemma high_bit_loop_bit:
  assumes "bit b i" "\<And>j. i < j \<Longrightarrow> \<not> bit b j"
  shows "high_bit_loop b pos = pos + of_nat (Suc i)"
  using assms
proof (induction i arbitrary: b pos)
  case 0
  then have z: "0 < b" by (auto simp: word_pos_iff_bit)
  have "drop_bit 1 b = 0" using 0(2) by (intro bit_eqI) (simp only: bit_drop_bit_1, simp)
  then have "high_bit_loop (drop_bit 1 b) (pos + 1) = pos + 1"
    by (simp add: high_bit_loop.simps)
  with z show ?case by (subst high_bit_loop.simps) simp
next
  case (Suc i)
  have z: "0 < b" using Suc.prems(1) by (auto simp: word_pos_iff_bit)
  have "high_bit_loop (drop_bit 1 b) (pos + 1) = pos + 1 + of_nat (Suc i)"
    using Suc.prems by (intro Suc.IH) (auto simp only: bit_drop_bit_1)
  with z show ?case by (subst high_bit_loop.simps) (simp add: algebra_simps)
qed

subsection \<open>Properties\<close>

text \<open>
  The single-bit operations form a set of flags: raising then clearing one position of a
  non-null bitmap changes exactly that position as read by \<open>SoftbusIsBitmapSet\<close>, and
  raising a list of positions makes exactly these read as set in addition to the old ones.
\<close>

theorem bitmap_flag_laws:
  assumes "list_all (\<lambda>p. unat p < 32) ps" "unat i < 32" "unat j < 32"
  shows "(SoftbusIsBitmapSet (fold (\<lambda>p b. SoftbusBitmapSet b p) ps (Some b)) j \<longleftrightarrow>
            j \<in> set ps \<or> SoftbusIsBitmapSet (Some b) j) \<and>
         (SoftbusIsBitmapSet (SoftbusBitmapClr (SoftbusBitmapSet (Some b) i) i) j \<longleftrightarrow>
            i \<noteq> j \<and> SoftbusIsBitmapSet (Some b) j)"
  using assms bitmap_flags.has_fold_set [of "Some b" ps j]
    bitmap_flags.clear_after_set [of "Some b" i j] by simp

theorem bitmap_flag_laws_witness:
  "SoftbusIsBitmapSet (fold (\<lambda>p b. SoftbusBitmapSet b p) [3, 31] (Some 0)) 31 \<and>
   \<not> SoftbusIsBitmapSet (SoftbusBitmapClr (SoftbusBitmapSet (Some 0) 5) 5) 5"
  using bitmap_flag_laws [of "[3, 31]" 5 31 0] bitmap_flag_laws [of "[]" 5 5 0] by simp

text \<open>
  What the range operations really do, for a range that starts at position 1 or later
  and fits the word: \<open>SoftbusBitmapSetBits\<close> raises every bit outside the range
  \<open>start - 1 \<le> i < start + nums - 1\<close> and leaves the range alone, and
  \<open>SoftbusBitmapClrBits\<close> clears every bit outside that range. With \<open>start = 0\<close> both are
  undefined (a shift by \<open>0xFFFFFFFF\<close>).
\<close>

theorem bitmap_range_ops_invert:
  assumes "1 \<le> unat start" "1 \<le> unat nums" "unat start + unat nums \<le> 32"
  shows "(\<exists>b'. SoftbusBitmapSetBits (Some b) start nums = Done (Some b') \<and>
            (\<forall>i < 32. bit b' i \<longleftrightarrow>
               bit b i \<or> \<not> (unat start - 1 \<le> i \<and> i < unat start + unat nums - 1))) \<and>
         (\<exists>b'. SoftbusBitmapClrBits (Some b) start nums = Done (Some b') \<and>
            (\<forall>i < 32. bit b' i \<longleftrightarrow>
               bit b i \<and> unat start - 1 \<le> i \<and> i < unat start + unat nums - 1)) \<and>
         SoftbusBitmapSetBits (Some b) 0 nums = Undef"
proof (intro conjI)
  note m = bit_range_mask [OF assms]
  obtain m where "range_mask start nums = Done m"
    "SoftbusBitmapSetBits (Some b) start nums = Done (Some (b OR NOT m))"
    using SoftbusBitmapSetBits_Done [OF assms] by blast
  with m show "\<exists>b'. SoftbusBitmapSetBits (Some b) start nums = Done (Some b') \<and>
    (\<forall>i < 32. bit b' i \<longleftrightarrow>
       bit b i \<or> \<not> (unat start - 1 \<le> i \<and> i < unat start + unat nums - 1))"
    by (auto simp: bit_or_iff bit_not_iff)
  obtain m where "range_mask start nums = Done m"
    "SoftbusBitmapClrBits (Some b) start nums = Done (Some (b AND m))"
    using SoftbusBitmapClrBits_Done [OF assms] by blast
  with m show "\<exists>b'. SoftbusBitmapClrBits (Some b) start nums = Done (Some b') \<and>
    (\<forall>i < 32. bit b' i \<longleftrightarrow>
       bit b i \<and> unat start - 1 \<le> i \<and> i < unat start + unat nums - 1)"
    by (auto simp: bit_and_iff)
  have "nums \<noteq> 0" using assms(2) by auto
  moreover have "range_mask 0 nums = Undef"
    by (simp add: range_mask_def bind_outcome_eq_Undef shl32_def unsigned_minus_1_eq_mask mask_eq_exp_minus_1)
  ultimately show "SoftbusBitmapSetBits (Some b) 0 nums = Undef"
    using assms by (simp add: SoftbusBitmapSetBits_def)
qed

theorem bitmap_range_ops_invert_witness:
  "\<exists>b'. SoftbusBitmapSetBits (Some 0) 1 3 = Done (Some b') \<and> \<not> bit b' 0 \<and> bit b' 31"
  using bitmap_range_ops_invert [of 1 3 0] by auto

text \<open>
  \<open>SoftbusLowBitGet\<close> and \<open>SoftbusHighBitGet\<close> return the one-based position of the
  lowest and of the highest set bit, and 0 for the empty bitmap.
\<close>

theorem bitmap_low_high_bit:
  "SoftbusLowBitGet 0 = 0 \<and> SoftbusHighBitGet 0 = 0 \<and>
   (b \<noteq> 0 \<longrightarrow>
      (\<exists>lo hi. bit b lo \<and> bit b hi \<and> (\<forall>i. bit b i \<longrightarrow> lo \<le> i \<and> i \<le> hi) \<and>
         unat (SoftbusLowBitGet b) = Suc lo \<and> unat (SoftbusHighBitGet b) = Suc hi))"
proof (intro conjI impI)
  show "SoftbusLowBitGet 0 = 0" by (simp add: SoftbusLowBitGet_def low_bit_loop.simps)
  show "SoftbusHighBitGet 0 = 0" by (simp add: SoftbusHighBitGet_def high_bit_loop.simps)
  assume "b \<noteq> 0"
  then obtain k where k: "bit b k" using word_pos_iff_bit [of b] by (auto simp: word_gt_0)
  have lt: "i < 32" if "bit b i" for i using that bit_imp_le_length [of b i] by simp
  define lo where "lo = (LEAST i. bit b i)"
  define hi where "hi = (GREATEST i. bit b i)"
  have lo: "bit b lo" "\<And>i. bit b i \<Longrightarrow> lo \<le> i"
    using k unfolding lo_def by (auto intro: LeastI Least_le)
  have hi: "bit b hi" "\<And>i. bit b i \<Longrightarrow> i \<le> hi"
    unfolding hi_def using k lt by (auto intro: GreatestI_nat Greatest_le_nat less_imp_le)
  have "low_bit_loop b 0 = 0 + of_nat (Suc lo)"
    using lo by (intro low_bit_loop_bit) (auto dest: leD)
  moreover have "high_bit_loop b 0 = 0 + of_nat (Suc hi)"
    using hi by (intro high_bit_loop_bit) (auto dest: leD)
  ultimately show "\<exists>lo hi. bit b lo \<and> bit b hi \<and> (\<forall>i. bit b i \<longrightarrow> lo \<le> i \<and> i \<le> hi) \<and>
      unat (SoftbusLowBitGet b) = Suc lo \<and> unat (SoftbusHighBitGet b) = Suc hi"
    using lo hi lt [OF lo(1)] lt [OF hi(1)]
    by (intro exI [of _ lo] exI [of _ hi])
      (simp add: SoftbusLowBitGet_def SoftbusHighBitGet_def unat_of_nat del: of_nat_Suc)
qed

theorem bitmap_low_high_bit_witness:
  "\<exists>lo hi. bit (20 :: u32) lo \<and> bit (20 :: u32) hi \<and>
     unat (SoftbusLowBitGet 20) = Suc lo \<and> unat (SoftbusHighBitGet 20) = Suc hi"
  using bitmap_low_high_bit [of 20] by auto

end
