(* ===== verification/Lnn_Capability.thy ===== *)
theory Lnn_Capability
  imports Softbus_Bitmap
begin

text \<open>
  The capability flags a node announces: \<^verbatim>\<open>lnn_net_capability.c\<close> (32-bit link
  capabilities) and \<^verbatim>\<open>lnn_feature_capability.c\<close> (64-bit features), both under
  \<^verbatim>\<open>core/bus_center/lnn/net_ledger/common/src\<close>. Enumerators are natural numbers, so
  that the range checks of the code can fail. The value the configuration store returns
  is an argument (\<open>None\<close> when the read fails).
\<close>

subsection \<open>Link capabilities\<close>

abbreviation (input) BIT_BLE :: nat where "BIT_BLE \<equiv> 0"
abbreviation (input) BIT_BR :: nat where "BIT_BR \<equiv> 1"
abbreviation (input) BIT_WIFI :: nat where "BIT_WIFI \<equiv> 2"
abbreviation (input) BIT_WIFI_P2P :: nat where "BIT_WIFI_P2P \<equiv> 3"
abbreviation (input) BIT_WIFI_24G :: nat where "BIT_WIFI_24G \<equiv> 4"
abbreviation (input) BIT_WIFI_5G :: nat where "BIT_WIFI_5G \<equiv> 5"
abbreviation (input) BIT_ETH :: nat where "BIT_ETH \<equiv> 6"
abbreviation (input) BIT_COUNT :: nat where "BIT_COUNT \<equiv> 7"

definition LnnSetNetCapability :: "u32 option \<Rightarrow> nat \<Rightarrow> status \<times> u32 option" where
  "LnnSetNetCapability capability type =
     (case capability of
        None \<Rightarrow> (SOFTBUS_INVALID_PARAM, None)
      | Some c \<Rightarrow> if type \<ge> BIT_COUNT then (SOFTBUS_INVALID_PARAM, Some c)
                 else (SOFTBUS_OK, Some (c OR push_bit type 1)))"

definition LnnClearNetCapability :: "u32 option \<Rightarrow> nat \<Rightarrow> status \<times> u32 option" where
  "LnnClearNetCapability capability type =
     (case capability of
        None \<Rightarrow> (SOFTBUS_INVALID_PARAM, None)
      | Some c \<Rightarrow> if type \<ge> BIT_COUNT then (SOFTBUS_INVALID_PARAM, Some c)
                 else (SOFTBUS_OK, Some (c AND NOT (push_bit type 1))))"

definition LnnHasCapability :: "u32 \<Rightarrow> nat \<Rightarrow> bool" where
  "LnnHasCapability capability type =
     (if type \<ge> BIT_COUNT then False
      else (case snd (LnnSetNetCapability (Some 0) type) of
              None \<Rightarrow> False
            | Some cap \<Rightarrow> capability AND cap \<noteq> 0))"

text \<open>
  The seven tests of \<open>LnnGetNetCapabilty\<close> are one after the other in the code; the list
  gives them in that order.
\<close>

definition net_cap_step :: "u32 \<Rightarrow> nat \<Rightarrow> u32 option \<Rightarrow> u32 option" where
  "net_cap_step configValue type capability =
     (if configValue AND push_bit type 1 \<noteq> 0
      then snd (LnnSetNetCapability capability type) else capability)"

definition LnnGetNetCapabilty :: "u32 option \<Rightarrow> u32 option" where
  "LnnGetNetCapabilty config =
     (let configValue = (case config of None \<Rightarrow> 0x16 | Some v \<Rightarrow> v)
      in fold (net_cap_step configValue)
           [BIT_BLE, BIT_BR, BIT_WIFI, BIT_WIFI_P2P, BIT_WIFI_24G, BIT_WIFI_5G, BIT_ETH]
           (Some 0))"

subsection \<open>Features\<close>

abbreviation (input) BIT_FEATURE_COUNT :: nat where "BIT_FEATURE_COUNT \<equiv> 16"

definition LnnSetFeatureCapability :: "u64 option \<Rightarrow> nat \<Rightarrow> status \<times> u64 option" where
  "LnnSetFeatureCapability feature capaBit =
     (case feature of
        None \<Rightarrow> (SOFTBUS_INVALID_PARAM, None)
      | Some f \<Rightarrow> if capaBit \<ge> BIT_FEATURE_COUNT then (SOFTBUS_INVALID_PARAM, Some f)
                 else (SOFTBUS_OK, Some (f OR push_bit capaBit 1)))"

definition LnnClearFeatureCapability :: "u64 option \<Rightarrow> nat \<Rightarrow> status \<times> u64 option" where
  "LnnClearFeatureCapability feature capaBit =
     (case feature of
        None \<Rightarrow> (SOFTBUS_INVALID_PARAM, None)
      | Some f \<Rightarrow> if capaBit \<ge> BIT_FEATURE_COUNT then (SOFTBUS_INVALID_PARAM, Some f)
                 else (SOFTBUS_OK, Some (f AND NOT (push_bit capaBit 1))))"

text \<open>
  The shifted 1 has type \<open>int\<close>, so a shift of 32 or more is undefined; shifting it into
  the sign bit gives a value that the conversion to 64 bits extends.
\<close>

definition IsFeatureSupport :: "u64 \<Rightarrow> nat \<Rightarrow> bool outcome" where
  "IsFeatureSupport feature capaBit =
     bind_outcome (shl32 1 capaBit) (\<lambda>m. Done (feature AND scast m \<noteq> 0))"

definition LnnGetFeatureCapabilty :: "u64 option \<Rightarrow> u64" where
  "LnnGetFeatureCapabilty config = (case config of None \<Rightarrow> 0x3E2 | Some v \<Rightarrow> v)"

subsection \<open>Both are sets of flags\<close>

lemma LnnHasCapability_bit: "LnnHasCapability c t \<longleftrightarrow> t < BIT_COUNT \<and> bit c t"
  by (auto simp: LnnHasCapability_def LnnSetNetCapability_def bit_iff_and_push_bit_not_eq_0
      simp del: push_bit_of_1)

interpretation net_flags: bit_flags "\<lambda>c t. snd (LnnSetNetCapability c t)"
  "\<lambda>c t. snd (LnnClearNetCapability c t)" "\<lambda>c t. c \<noteq> None \<and> LnnHasCapability (the c) t"
  "\<lambda>c. c \<noteq> None" "\<lambda>t. t < BIT_COUNT"
  by unfold_locales
    (auto simp: LnnSetNetCapability_def LnnClearNetCapability_def LnnHasCapability_bit
      bit_simps split: option.splits)

lemma IsFeatureSupport_bit:
  assumes "t < 16"
  shows "IsFeatureSupport f t = Done (bit f t)"
proof -
  have "(scast (push_bit t 1 :: u32) :: u64) = push_bit t 1"
    using assms by (auto intro!: bit_eqI simp: bit_simps simp del: push_bit_of_1)
  with assms show ?thesis
    by (simp add: IsFeatureSupport_def shl32_def bit_iff_and_push_bit_not_eq_0
        del: push_bit_of_1)
qed

interpretation feature_flags: bit_flags "\<lambda>c t. snd (LnnSetFeatureCapability c t)"
  "\<lambda>c t. snd (LnnClearFeatureCapability c t)"
  "\<lambda>c t. c \<noteq> None \<and> IsFeatureSupport (the c) t = Done True"
  "\<lambda>c. c \<noteq> None" "\<lambda>t. t < BIT_FEATURE_COUNT"
  by unfold_locales
    (auto simp: LnnSetFeatureCapability_def LnnClearFeatureCapability_def
      IsFeatureSupport_bit bit_simps split: option.splits)

lemma net_cap_step_Some:
  assumes "t < BIT_COUNT"
  shows "net_cap_step v t (Some c) = Some (c OR (v AND push_bit t 1))"
proof (cases "bit v t")
  case True
  then have "v AND push_bit t 1 = push_bit t 1"
    by (auto intro!: bit_eqI simp: bit_simps simp del: push_bit_of_1)
  with True assms show ?thesis
    by (simp add: net_cap_step_def LnnSetNetCapability_def bit_iff_and_push_bit_not_eq_0
        del: push_bit_of_1)
next
  case False
  then have "v AND push_bit t 1 = 0"
    by (simp add: bit_iff_and_push_bit_not_eq_0 del: push_bit_of_1)
  then show ?thesis by (simp add: net_cap_step_def del: push_bit_of_1)
qed

subsection \<open>Properties\<close>

text \<open>
  The link capabilities a node announces are exactly the seven defined bits of the
  configured value, and of \<open>0x16\<close> (BR, WLAN, 2.4G) when the configuration cannot be read;
  no configured value sets an undefined capability bit.
\<close>

theorem net_capability_config:
  "LnnGetNetCapabilty config = Some ((case config of None \<Rightarrow> 0x16 | Some v \<Rightarrow> v) AND 0x7F)"
proof -
  have "(0x7F :: u32) = mask 7" by (simp add: mask_eq_exp_minus_1)
  moreover have "(0 OR (v AND push_bit 0 1) OR (v AND push_bit 1 1) OR (v AND push_bit 2 1) OR
      (v AND push_bit 3 1) OR (v AND push_bit 4 1) OR (v AND push_bit 5 1) OR
      (v AND push_bit 6 1)) = v AND mask 7" for v :: u32
    by (rule bit_eqI) (auto simp: bit_simps simp del: push_bit_of_1)
  ultimately show ?thesis
    by (simp add: LnnGetNetCapabilty_def Let_def net_cap_step_Some or.assoc
        del: push_bit_of_1 push_bit_0_id split: option.split)
qed

text \<open>
  Raising and clearing a capability or a feature is exact: after
  \<open>LnnSetNetCapability\<close> (\<open>LnnSetFeatureCapability\<close>) a defined flag reads as present iff it
  was raised or was present before, after the clearing operation iff it was present and
  is not the cleared one, and an enumerator out of range is refused with
  \<open>SOFTBUS_INVALID_PARAM\<close> and changes nothing.
\<close>

theorem capability_flags_exact:
  assumes "t < BIT_COUNT" "u < BIT_COUNT" "s < BIT_FEATURE_COUNT" "r < BIT_FEATURE_COUNT"
    and "LnnSetNetCapability (Some c) t = (st1, Some c1)"
    and "LnnClearNetCapability (Some c) t = (st2, Some c2)"
    and "LnnSetFeatureCapability (Some f) s = (st3, Some f1)"
    and "LnnClearFeatureCapability (Some f) s = (st4, Some f2)"
    and "BIT_COUNT \<le> x" "BIT_FEATURE_COUNT \<le> y"
  shows "(LnnHasCapability c1 u \<longleftrightarrow> t = u \<or> LnnHasCapability c u) \<and>
    (LnnHasCapability c2 u \<longleftrightarrow> t \<noteq> u \<and> LnnHasCapability c u) \<and>
    (IsFeatureSupport f1 r = Done True \<longleftrightarrow> s = r \<or> IsFeatureSupport f r = Done True) \<and>
    (IsFeatureSupport f2 r = Done True \<longleftrightarrow> s \<noteq> r \<and> IsFeatureSupport f r = Done True) \<and>
    LnnSetNetCapability (Some c) x = (SOFTBUS_INVALID_PARAM, Some c) \<and>
    LnnSetFeatureCapability (Some f) y = (SOFTBUS_INVALID_PARAM, Some f)"
  using assms net_flags.has_set [of "Some c" t u] net_flags.has_clear [of "Some c" t u]
    feature_flags.has_set [of "Some f" s r] feature_flags.has_clear [of "Some f" s r]
  by (simp add: LnnSetNetCapability_def LnnSetFeatureCapability_def)

theorem capability_flags_exact_witness:
  "LnnHasCapability 3 1 \<and> \<not> LnnHasCapability 3 2 \<and>
   LnnSetNetCapability (Some 1) 9 = (SOFTBUS_INVALID_PARAM, Some 1)"
proof -
  have "LnnSetNetCapability (Some 1) 1 = (SOFTBUS_OK, Some 3)"
    "LnnClearNetCapability (Some 1) 1 = (SOFTBUS_OK, Some 1)"
    "LnnSetFeatureCapability (Some 0) 5 = (SOFTBUS_OK, Some 32)"
    "LnnClearFeatureCapability (Some 0) 5 = (SOFTBUS_OK, Some 0)"
    by (simp_all add: LnnSetNetCapability_def LnnClearNetCapability_def
        LnnSetFeatureCapability_def LnnClearFeatureCapability_def)
  note defs = this
  have "\<not> LnnHasCapability 1 2" by (simp add: LnnHasCapability_bit bit_iff_odd)
  then show ?thesis
    using capability_flags_exact [OF _ _ _ _ defs, of 1 5 9 20]
      capability_flags_exact [OF _ _ _ _ defs, of 2 5 9 20] by simp
qed

end
