(* ===== verification/Seq_Verify.thy ===== *)
theory Seq_Verify
  imports Softbus_Prelude
begin

text \<open>
  The receive-sequence check of
  \<^verbatim>\<open>core/common/security/sequence_verification/softbus_sequence_verification.c\<close>. The window
  \<open>[minSeq, maxSeq)\<close> and a 64-bit history of what was received in it; bit \<open>k\<close> of the
  history stands for sequence number \<open>maxSeq - k\<close>. Sequence numbers are signed 32-bit
  values that wrap around; differences are taken modulo \<open>2 ^ 32\<close> (the code subtracts
  \<open>int32_t\<close> values and relies on that) and compared as signed numbers. A shift of the
  history by 64 or more has no C meaning and is \<open>Undef\<close>.
\<close>

abbreviation (input) MAX_SEQ_BIAS :: int where "MAX_SEQ_BIAS \<equiv> 60"

record SeqVerifyInfo =
  maxSeq :: i32
  minSeq :: i32
  recvBitmap :: u64

type_synonym seq_result = "(bool \<times> SeqVerifyInfo) outcome"

subsection \<open>The checks\<close>

definition IsDifferentSign :: "i32 \<Rightarrow> i32 \<Rightarrow> bool" where
  "IsDifferentSign seqA seqB =
     (if (sint seqA \<ge> 0 \<and> sint seqB \<ge> 0) \<or> (sint seqA < 0 \<and> sint seqB < 0)
      then False else True)"

definition IsPassDuplicateCheck :: "SeqVerifyInfo \<Rightarrow> i32 \<Rightarrow> seq_result" where
  "IsPassDuplicateCheck s recvSeq =
     (let offset = unat (maxSeq s - recvSeq)
      in bind_outcome (shl64 1 offset) (\<lambda>m.
           if recvBitmap s AND m \<noteq> 0 then Done (False, s)
           else Done (True, s\<lparr>recvBitmap := recvBitmap s OR m\<rparr>)))"

definition IsPassOverMaxCheck :: "SeqVerifyInfo \<Rightarrow> i32 \<Rightarrow> seq_result" where
  "IsPassOverMaxCheck s recvSeq =
     (if sint (recvSeq - maxSeq s) < 0 then Done (False, s)
      else if sint (recvSeq - minSeq s) \<ge> MAX_SEQ_BIAS then Done (False, s)
      else
        let seqOffset = unat (recvSeq - maxSeq s + 1)
        in bind_outcome (shl64 (recvBitmap s) seqOffset) (\<lambda>b.
             Done (True, s\<lparr>maxSeq := recvSeq + 1, recvBitmap := b OR 2\<rparr>)))"

definition IsPassAllRangeCheck :: "SeqVerifyInfo \<Rightarrow> i32 \<Rightarrow> seq_result" where
  "IsPassAllRangeCheck s recvSeq =
     (if recvSeq = minSeq s then Done (True, s\<lparr>minSeq := recvSeq + 1\<rparr>)
      else if sint recvSeq > sint (minSeq s) then
        (if sint recvSeq < sint (maxSeq s) then IsPassDuplicateCheck s recvSeq
         else IsPassOverMaxCheck s recvSeq)
      else Done (False, s))"

definition IsPassNormalCheck :: "SeqVerifyInfo \<Rightarrow> i32 \<Rightarrow> seq_result" where
  "IsPassNormalCheck s recvSeq =
     (if recvSeq = minSeq s
      then Done (True, s\<lparr>minSeq := recvSeq + 1, maxSeq := recvSeq + 1\<rparr>)
      else if \<not> IsDifferentSign recvSeq (minSeq s) then
        (if sint recvSeq > sint (maxSeq s) then IsPassOverMaxCheck s recvSeq
         else Done (False, s))
      else IsPassOverMaxCheck s recvSeq)"

definition IsPassNoflipDisorderCheck :: "SeqVerifyInfo \<Rightarrow> i32 \<Rightarrow> seq_result" where
  "IsPassNoflipDisorderCheck s recvSeq =
     (if sint (minSeq s) \<ge> 0 then
        (if sint recvSeq \<ge> 0 then IsPassAllRangeCheck s recvSeq
         else IsPassOverMaxCheck s recvSeq)
      else if sint (maxSeq s) < 0 then
        (if sint recvSeq < 0 then IsPassAllRangeCheck s recvSeq
         else IsPassOverMaxCheck s recvSeq)
      else Done (False, s))"

definition IsPassFlipPositiveCheck :: "SeqVerifyInfo \<Rightarrow> i32 \<Rightarrow> seq_result" where
  "IsPassFlipPositiveCheck s recvSeq =
     (if sint recvSeq \<ge> 0 then
        (if sint recvSeq < sint (maxSeq s) then IsPassDuplicateCheck s recvSeq
         else IsPassOverMaxCheck s recvSeq)
      else if recvSeq = minSeq s then Done (True, s\<lparr>minSeq := recvSeq + 1\<rparr>)
      else if sint recvSeq > sint (minSeq s) then IsPassDuplicateCheck s recvSeq
      else Done (False, s))"

definition IsPassFlipNegativeCheck :: "SeqVerifyInfo \<Rightarrow> i32 \<Rightarrow> seq_result" where
  "IsPassFlipNegativeCheck s recvSeq =
     (if sint recvSeq \<ge> 0 then
        (if recvSeq = minSeq s then Done (True, s\<lparr>minSeq := recvSeq + 1\<rparr>)
         else if sint recvSeq > sint (minSeq s) then IsPassDuplicateCheck s recvSeq
         else Done (False, s))
      else if sint recvSeq < sint (maxSeq s) then IsPassDuplicateCheck s recvSeq
      else IsPassOverMaxCheck s recvSeq)"

text \<open>The null-pointer guard of the code is the \<open>None\<close> case.\<close>

definition IsPassSeqCheck :: "SeqVerifyInfo option \<Rightarrow> i32 \<Rightarrow> (bool \<times> SeqVerifyInfo option) outcome" where
  "IsPassSeqCheck info recvSeq =
     (case info of
        None \<Rightarrow> Done (False, None)
      | Some s \<Rightarrow>
          let isDifferentSign = IsDifferentSign (minSeq s) (maxSeq s);
              r = (if minSeq s = maxSeq s then IsPassNormalCheck s recvSeq
                   else if sint (minSeq s) < sint (maxSeq s) \<and> \<not> isDifferentSign
                     then IsPassNoflipDisorderCheck s recvSeq
                   else if sint (minSeq s) > sint (maxSeq s) \<and> isDifferentSign
                     then IsPassFlipNegativeCheck s recvSeq
                   else if sint (minSeq s) < sint (maxSeq s) \<and> isDifferentSign
                     then IsPassFlipPositiveCheck s recvSeq
                   else Done (False, s))
          in bind_outcome r (\<lambda>(ok, s'). Done (ok, Some s')))"

text \<open>A run of the check over a list of received numbers, with the verdict on each.\<close>

fun seq_run :: "SeqVerifyInfo option \<Rightarrow> i32 list \<Rightarrow> (bool list \<times> SeqVerifyInfo option) outcome" where
  "seq_run s [] = Done ([], s)"
| "seq_run s (x # xs) =
     bind_outcome (IsPassSeqCheck s x) (\<lambda>(ok, s').
     bind_outcome (seq_run s' xs) (\<lambda>(oks, s''). Done (ok # oks, s'')))"

subsection \<open>Invariant and modular specification\<close>

definition seq_window :: "SeqVerifyInfo \<Rightarrow> bool" where
  "seq_window s \<longleftrightarrow> 0 \<le> sint (maxSeq s - minSeq s) \<and> sint (maxSeq s - minSeq s) \<le> MAX_SEQ_BIAS"

definition seq_check_spec :: "SeqVerifyInfo \<Rightarrow> i32 \<Rightarrow> seq_result" where
  "seq_check_spec s x =
     (let w = sint (maxSeq s - minSeq s); d = sint (x - minSeq s)
      in if d = 0 then
           Done (True, s\<lparr>minSeq := x + 1, maxSeq := (if w = 0 then x + 1 else maxSeq s)\<rparr>)
         else if d < 0 then Done (False, s)
         else if d < w then IsPassDuplicateCheck s x
         else if d < MAX_SEQ_BIAS then IsPassOverMaxCheck s x
         else Done (False, s))"

lemmas seq_checks =
  IsPassNormalCheck_def IsPassNoflipDisorderCheck_def IsPassAllRangeCheck_def
  IsPassFlipPositiveCheck_def IsPassFlipNegativeCheck_def IsDifferentSign_def

lemmas sint32_arith = sint32_diff sint32_plus1 i32_eq_iff Let_def

lemma OverMax_reject:
  "sint (x - maxSeq s) < 0 \<or> 60 \<le> sint (x - minSeq s) \<Longrightarrow> IsPassOverMaxCheck s x = Done (False, s)"
  by (auto simp: IsPassOverMaxCheck_def)

lemma seq_check_refines:
  assumes "seq_window s" and "- 2147483588 \<le> sint (x - minSeq s)"
  shows "IsPassSeqCheck (Some s) x = bind_outcome (seq_check_spec s x) (\<lambda>(ok, s'). Done (ok, Some s'))"
proof -
  note bnd = sint32_bounds [of x] sint32_bounds [of "minSeq s"] sint32_bounds [of "maxSeq s"]
  show ?thesis
  proof (cases "minSeq s = maxSeq s")
    case True
    then show ?thesis using assms bnd OverMax_reject [of x s]
      by (auto simp: IsPassSeqCheck_def seq_checks seq_check_spec_def sint32_arith seq_window_def split: if_splits)
  next
    case False
    show ?thesis using assms bnd OverMax_reject [of x s] False
      by (auto simp: IsPassSeqCheck_def seq_checks seq_check_spec_def sint32_arith seq_window_def split: if_splits)
  qed
qed

lemma dup_check_cases:
  assumes "seq_window s" "0 < sint (x - minSeq s)" "sint (x - minSeq s) < sint (maxSeq s - minSeq s)"
  shows "\<exists>m. shl64 1 (unat (maxSeq s - x)) = Done m \<and> m = push_bit (unat (maxSeq s - x)) 1 \<and> m \<noteq> 0"
proof -
  have "sint (maxSeq s - x) < 60" "0 \<le> sint (maxSeq s - x)"
    using assms sint32_bounds [of x] sint32_bounds [of "minSeq s"] sint32_bounds [of "maxSeq s"]
    by (auto simp: sint32_diff Let_def seq_window_def split: if_splits)
  then have "unat (maxSeq s - x) < 60"
    using unat_less_sint [of "maxSeq s - x" 60] by simp
  then show ?thesis by (simp add: shl64_def push_bit_eq_0_iff) 
qed

lemma overmax_check_cases:
  assumes "seq_window s" "sint (maxSeq s - minSeq s) \<le> sint (x - minSeq s)" "sint (x - minSeq s) < 60"
  shows "\<exists>b. IsPassOverMaxCheck s x = Done (True, s\<lparr>maxSeq := x + 1, recvBitmap := b OR 2\<rparr>)"
proof -
  have *: "sint (x - maxSeq s + 1) \<le> 60" "0 \<le> sint (x - maxSeq s + 1)" "0 \<le> sint (x - maxSeq s)"
    using assms sint32_bounds [of x] sint32_bounds [of "minSeq s"] sint32_bounds [of "maxSeq s"]
    by (auto simp: sint32_diff sint32_plus1 Let_def seq_window_def split: if_splits)
  then have "unat (x - maxSeq s + 1) < 64"
    using unat_less_sint [of "x - maxSeq s + 1" 64] by simp
  with * assms(3) show ?thesis by (simp add: IsPassOverMaxCheck_def shl64_def Let_def) blast
qed

lemma shl64_overmax:
  "IsPassOverMaxCheck s x = Done (True, s') \<Longrightarrow>
   unat (x - maxSeq s + 1) < 64 \<and>
   s' = s\<lparr>maxSeq := x + 1, recvBitmap := push_bit (unat (x - maxSeq s + 1)) (recvBitmap s) OR 2\<rparr>"
  by (auto simp: IsPassOverMaxCheck_def shl64_def Let_def bind_outcome_eq_Done split: if_splits)

lemma seq_step_cases:
  assumes w: "seq_window s" and x: "- 2147483588 \<le> sint (x - minSeq s)"
    and step: "IsPassSeqCheck (Some s) x = Done (ok, s')"
  obtains
    (older) "sint (x - minSeq s) < 0 \<or> 60 \<le> sint (x - minSeq s)" "\<not> ok" "s' = Some s"
  | (first) "x = minSeq s" "ok"
      "s' = Some (s\<lparr>minSeq := x + 1, maxSeq := (if maxSeq s = minSeq s then x + 1 else maxSeq s)\<rparr>)"
  | (dup) "0 < sint (x - minSeq s)" "sint (x - minSeq s) < sint (maxSeq s - minSeq s)"
      "bit (recvBitmap s) (unat (maxSeq s - x))" "\<not> ok" "s' = Some s"
  | (fresh) "0 < sint (x - minSeq s)" "sint (x - minSeq s) < sint (maxSeq s - minSeq s)"
      "\<not> bit (recvBitmap s) (unat (maxSeq s - x))" "ok"
      "s' = Some (s\<lparr>recvBitmap := recvBitmap s OR push_bit (unat (maxSeq s - x)) 1\<rparr>)"
  | (ahead) "0 < sint (x - minSeq s)" "sint (maxSeq s - minSeq s) \<le> sint (x - minSeq s)"
      "sint (x - minSeq s) < 60" "ok" "unat (x - maxSeq s + 1) < 64"
      "s' = Some (s\<lparr>maxSeq := x + 1,
         recvBitmap := push_bit (unat (x - maxSeq s + 1)) (recvBitmap s) OR 2\<rparr>)"
proof -
  have spec: "bind_outcome (seq_check_spec s x) (\<lambda>(ok, s'). Done (ok, Some s')) = Done (ok, s')"
    using seq_check_refines [OF w x] step by simp
  have eq0: "sint (a - b) = 0 \<longleftrightarrow> a = b" for a b :: i32
    by (metis cancel_comm_monoid_add_class.diff_cancel right_minus_eq signed_0 i32_eq_iff)
  consider "sint (x - minSeq s) = 0" | "sint (x - minSeq s) < 0 \<or> 60 \<le> sint (x - minSeq s)"
    | "0 < sint (x - minSeq s)" "sint (x - minSeq s) < sint (maxSeq s - minSeq s)"
    | "0 < sint (x - minSeq s)" "sint (maxSeq s - minSeq s) \<le> sint (x - minSeq s)"
      "sint (x - minSeq s) < 60" by linarith
  then show thesis
  proof cases
    case 1
    then show ?thesis using spec first by (auto simp: seq_check_spec_def Let_def eq0)
  next
    case 2
    then show ?thesis using spec w older
      by (auto simp: seq_check_spec_def Let_def seq_window_def split: if_splits)
  next
    case 3
    then show ?thesis using spec dup_check_cases [OF w 3] dup fresh
      by (auto simp: seq_check_spec_def Let_def IsPassDuplicateCheck_def bit_iff_and_push_bit_not_eq_0 
          split: if_splits)
  next
    case 4
    then show ?thesis using spec overmax_check_cases [OF w 4(2,3)] shl64_overmax [of s x] ahead
      by (auto simp: seq_check_spec_def Let_def split: if_splits)
  qed
qed

lemma seq_step_defined:
  assumes w: "seq_window s" and x: "- 2147483588 \<le> sint (x - minSeq s)"
  shows "\<exists>ok s'. IsPassSeqCheck (Some s) x = Done (ok, Some s')"
proof -
  have "seq_check_spec s x \<noteq> Undef"
    using dup_check_cases [OF w, of x] overmax_check_cases [OF w, of x]
    by (auto simp: seq_check_spec_def Let_def IsPassDuplicateCheck_def)
  then show ?thesis using seq_check_refines [OF w x] by (cases "seq_check_spec s x") auto
qed

lemma seq_step_window:
  assumes w: "seq_window s" and x: "- 2147483588 \<le> sint (x - minSeq s)"
    and step: "IsPassSeqCheck (Some s) x = Done (ok, Some s')"
  shows "seq_window s'"
proof (rule seq_step_cases [OF w x step])
  assume "x = minSeq s" 
    "Some s' = Some (s\<lparr>minSeq := x + 1, maxSeq := (if maxSeq s = minSeq s then x + 1 else maxSeq s)\<rparr>)"
  then show ?thesis
    using w sint32_bounds [of "minSeq s"] sint32_bounds [of "maxSeq s"]
    by (auto simp: seq_window_def sint32_arith split: if_splits)
next
  assume "0 < sint (x - minSeq s)" "sint (maxSeq s - minSeq s) \<le> sint (x - minSeq s)"
    "sint (x - minSeq s) < 60" 
    "Some s' = Some (s\<lparr>maxSeq := x + 1,
         recvBitmap := push_bit (unat (x - maxSeq s + 1)) (recvBitmap s) OR 2\<rparr>)"
  then show ?thesis
    using w sint32_bounds [of "minSeq s"] sint32_bounds [of "maxSeq s"] sint32_bounds [of x]
    by (auto simp: seq_window_def sint32_arith split: if_splits)
qed (use w in \<open>auto simp: seq_window_def\<close>)

definition seq_seen :: "nat \<Rightarrow> i32 \<Rightarrow> SeqVerifyInfo \<Rightarrow> bool" where
  "seq_seen k x s \<longleftrightarrow>
     (- int k \<le> sint (x - minSeq s) \<and> sint (x - minSeq s) < 0) \<or>
     (0 \<le> sint (x - minSeq s) \<and> sint (x - minSeq s) < sint (maxSeq s - minSeq s) \<and>
      bit (recvBitmap s) (unat (maxSeq s - x)))"

inductive seq_steps :: "nat \<Rightarrow> SeqVerifyInfo \<Rightarrow> SeqVerifyInfo \<Rightarrow> bool" where
  seq_steps_refl: "seq_steps 0 s s"
| seq_steps_step: "seq_steps k s s' \<Longrightarrow> - 2147483588 \<le> sint (y - minSeq s')
    \<Longrightarrow> IsPassSeqCheck (Some s') y = Done (ok, Some s'') \<Longrightarrow> seq_steps (Suc k) s s''"

lemma seq_steps_window: "seq_steps k s s' \<Longrightarrow> seq_window s \<Longrightarrow> seq_window s'"
  by (induction rule: seq_steps.induct) (auto intro: seq_step_window)

lemma seq_accept_seen:
  assumes w: "seq_window s" and x: "- 2147483588 \<le> sint (x - minSeq s)"
    and step: "IsPassSeqCheck (Some s) x = Done (True, Some s')"
  shows "seq_seen 1 x s'"
proof (rule seq_step_cases [OF w x step])
  assume "x = minSeq s" 
    "Some s' = Some (s\<lparr>minSeq := x + 1, maxSeq := (if maxSeq s = minSeq s then x + 1 else maxSeq s)\<rparr>)"
  then show ?thesis using sint32_bounds [of "minSeq s"]
    by (auto simp: seq_seen_def sint32_arith split: if_splits)
next
  assume *: "0 < sint (x - minSeq s)" "sint (x - minSeq s) < sint (maxSeq s - minSeq s)"
    "Some s' = Some (s\<lparr>recvBitmap := recvBitmap s OR push_bit (unat (maxSeq s - x)) 1\<rparr>)"
  have "bit (push_bit (unat (maxSeq s - x)) (1 :: u64)) (unat (maxSeq s - x))"
    using dup_check_cases [OF w *(1,2)]
    by (auto simp: shl64_def bit_push_bit_iff simp del: push_bit_of_1 split: if_splits)
  with * show ?thesis
    by (auto simp: seq_seen_def bit_or_iff simp del: push_bit_of_1)
next
  assume *: "0 < sint (x - minSeq s)" "sint (maxSeq s - minSeq s) \<le> sint (x - minSeq s)"
    "sint (x - minSeq s) < 60" 
    "Some s' = Some (s\<lparr>maxSeq := x + 1,
         recvBitmap := push_bit (unat (x - maxSeq s + 1)) (recvBitmap s) OR 2\<rparr>)"
  have "sint (x - minSeq s) < sint (x + 1 - minSeq s)"
    using * w sint32_bounds [of "minSeq s"] sint32_bounds [of "maxSeq s"] sint32_bounds [of x]
    by (auto simp: seq_window_def sint32_arith split: if_splits)
  moreover have "bit (2 :: u64) 1" by simp
  ultimately show ?thesis using *
    by (auto simp: seq_seen_def bit_or_iff)
qed auto

lemma seq_seen_step:
  assumes w: "seq_window s" and x: "- 2147483588 \<le> sint (y - minSeq s)"
    and step: "IsPassSeqCheck (Some s) y = Done (ok, Some s')"
    and seen: "seq_seen k x s" and k: "k < 2147483588"
  shows "seq_seen (Suc k) x s'"
proof (rule seq_step_cases [OF w x step])
  assume *: "y = minSeq s" 
    "Some s' = Some (s\<lparr>minSeq := y + 1, maxSeq := (if maxSeq s = minSeq s then y + 1 else maxSeq s)\<rparr>)"
  show ?thesis
    using * seen w k sint32_bounds [of "minSeq s"] sint32_bounds [of "maxSeq s"] sint32_bounds [of x]
    by (auto simp: seq_seen_def seq_window_def sint32_arith split: if_splits)
next
  assume *: "0 < sint (y - minSeq s)" "sint (maxSeq s - minSeq s) \<le> sint (y - minSeq s)"
    "sint (y - minSeq s) < 60" "unat (y - maxSeq s + 1) < 64"
    "Some s' = Some (s\<lparr>maxSeq := y + 1,
         recvBitmap := push_bit (unat (y - maxSeq s + 1)) (recvBitmap s) OR 2\<rparr>)"
  show ?thesis
  proof (cases "sint (x - minSeq s) < 0")
    case True
    then show ?thesis using seen * by (auto simp: seq_seen_def)
  next
    case False
    have lt: "sint (maxSeq s - minSeq s) < sint (y + 1 - minSeq s)"
      and r: "0 \<le> sint (y + 1 - x)" "sint (y + 1 - x) < 64"
      and q: "0 \<le> sint (maxSeq s - x)" "0 \<le> sint (y - maxSeq s + 1)"
      and e: "sint (y + 1 - x) = sint (maxSeq s - x) + sint (y - maxSeq s + 1)"
      using * False seen w sint32_bounds [of "minSeq s"] sint32_bounds [of "maxSeq s"]
        sint32_bounds [of x] sint32_bounds [of y]
      by (auto simp: seq_seen_def seq_window_def sint32_arith split: if_splits)
    have u: "unat (y + 1 - x) = unat (maxSeq s - x) + unat (y - maxSeq s + 1)" "unat (y + 1 - x) < 64"
      using uint_eq_sint [OF r(1)] uint_eq_sint [OF q(1)] uint_eq_sint [OF q(2)] e unat_less_sint [of _ 64] r q
      by (auto simp: unat_eq_nat_uint nat_add_distrib simp del: nat_uint_eq)
    show ?thesis using seen * False lt u
      by (auto simp: seq_seen_def bit_or_iff bit_push_bit_iff)
  qed
qed (use seen in \<open>auto simp: seq_seen_def bit_or_iff\<close>)

lemma seq_seen_steps:
  "seq_steps k s s' \<Longrightarrow> seq_window s \<Longrightarrow> seq_seen j x s \<Longrightarrow> j + k \<le> 2147483588 \<Longrightarrow> seq_seen (j + k) x s'"
proof (induction rule: seq_steps.induct)
  case (seq_steps_step k s s' y ok s'')
  then show ?case
    using seq_seen_step [of s' y ok s'' "j + k" x] seq_steps_window by simp
qed simp

lemma seq_seen_reject:
  assumes w: "seq_window s" and seen: "seq_seen k x s" and k: "k \<le> 2147483588" and ne: "x \<noteq> minSeq s"
  shows "IsPassSeqCheck (Some s) x = Done (False, Some s)"
proof -
  have x: "- 2147483588 \<le> sint (x - minSeq s)" using seen k by (auto simp: seq_seen_def)
  obtain ok s' where step: "IsPassSeqCheck (Some s) x = Done (ok, Some s')"
    using seq_step_defined [OF w x] by blast
  show ?thesis
    by (rule seq_step_cases [OF w x step]) (use step seen ne w in \<open>auto simp: seq_seen_def seq_window_def\<close>)
qed

subsection \<open>Properties\<close>



text \<open>
  C24. No replay behind the window: once a number has been accepted, then after any run of at
  most 2147483587 further checks it is rejected, unless it is at that moment the lower edge
  \<open>minSeq\<close> of the window.
\<close>
theorem seq_replay_rejected:
  assumes "seq_window s" and "- 2147483588 \<le> sint (x - minSeq s)"
    and "IsPassSeqCheck (Some s) x = Done (True, Some s1)"
    and "seq_steps k s1 s2" and "k < 2147483588" and "x \<noteq> minSeq s2"
  shows "IsPassSeqCheck (Some s2) x = Done (False, Some s2)"
  using seq_seen_reject [OF _ seq_seen_steps [OF assms(4) _ seq_accept_seen [OF assms(1-3)]]]
    seq_steps_window [OF assms(4)] seq_step_window [OF assms(1-3)] assms(5,6) by simp

theorem seq_replay_rejected_witness:
  "IsPassSeqCheck (Some \<lparr>maxSeq = 6, minSeq = 0, recvBitmap = 2\<rparr>) 5
     = Done (False, Some \<lparr>maxSeq = 6, minSeq = 0, recvBitmap = 2\<rparr>)"
proof (rule seq_replay_rejected [where k = 0 and s = "\<lparr>maxSeq = 0, minSeq = 0, recvBitmap = 0\<rparr>"])
  show "IsPassSeqCheck (Some \<lparr>maxSeq = 0, minSeq = 0, recvBitmap = 0\<rparr>) 5 =
    Done (True, Some \<lparr>maxSeq = 6, minSeq = 0, recvBitmap = 2\<rparr>)"
    by (simp add: IsPassSeqCheck_def seq_checks IsPassOverMaxCheck_def shl64_def Let_def)
qed (auto simp: seq_window_def intro: seq_steps.intros)

text \<open>
  C25. In-order traffic is always accepted: from a closed window \<open>minSeq = maxSeq = n\<close>, the
  numbers \<open>n, n + 1, \<dots>\<close> are all accepted, through the wrap-around from
  \<^verbatim>\<open>INT32_MAX\<close> to \<^verbatim>\<open>INT32_MIN\<close> and for any length, and the window stays closed.
\<close>
theorem seq_in_order_accepted:
  assumes "maxSeq s = minSeq s"
  shows "seq_run (Some s) (map (\<lambda>i. minSeq s + of_nat i) [0..<k]) =
           Done (replicate k True,
             Some (s\<lparr>minSeq := minSeq s + of_nat k, maxSeq := minSeq s + of_nat k\<rparr>))"
  using assms
proof (induction k arbitrary: s)
  case (Suc k)
  let ?s = "s\<lparr>minSeq := minSeq s + 1, maxSeq := minSeq s + 1\<rparr>"
  have "map (\<lambda>i. minSeq s + of_nat i) [0..<Suc k] =
      minSeq s # map (\<lambda>i. minSeq ?s + of_nat i) [0..<k]"
    by (simp add: map_upt_Suc add.assoc del: upt_Suc)
  moreover have "IsPassSeqCheck (Some s) (minSeq s) = Done (True, Some ?s)"
    using Suc.prems by (simp add: IsPassSeqCheck_def IsPassNormalCheck_def)
  ultimately show ?case using Suc.IH [of ?s] by (simp add: add.assoc)
qed simp

theorem seq_in_order_accepted_witness:
  "seq_run (Some \<lparr>maxSeq = 2147483646, minSeq = 2147483646, recvBitmap = 0\<rparr>)
     [2147483646, 2147483647, 2147483648, 2147483649] =
   Done ([True, True, True, True],
     Some \<lparr>maxSeq = 2147483650, minSeq = 2147483650, recvBitmap = 0\<rparr>)"
  using seq_in_order_accepted [of "\<lparr>maxSeq = 2147483646, minSeq = 2147483646, recvBitmap = 0\<rparr>" 4]
  by (simp add: eval_nat_numeral upt_rec)

text \<open>
  The exception in the replay guarantee is real: from a fresh verifier the numbers
  2, 0, 1 are received out of order, and a second copy of 2 is accepted, because the lower
  edge of the window is accepted without a look at the history.
\<close>
theorem seq_duplicate_accepted:
  "\<exists>s'. seq_run (Some \<lparr>maxSeq = 0, minSeq = 0, recvBitmap = 0\<rparr>) [2, 0, 1, 2] =
     Done ([True, True, True, True], s')"
  by (simp add: IsPassSeqCheck_def seq_checks IsPassOverMaxCheck_def IsPassDuplicateCheck_def
      shl64_def Let_def)

lemma seq_lockout_step:
  assumes w: "seq_window s" and m: "minSeq s = 2" and x: "0 \<le> sint x" "x \<noteq> 2"
  shows "\<exists>ok s'. IsPassSeqCheck (Some s) x = Done (ok, Some s') \<and> seq_window s' \<and> minSeq s' = 2 \<and>
           (62 \<le> sint x \<longrightarrow> \<not> ok)"
proof -
  have d: "sint (x - minSeq s) = sint x - 2" using m x sint32_bounds [of x] by (simp add: sint32_arith)
  then have s: "- 2147483588 \<le> sint (x - minSeq s)" using x by simp
  obtain ok s' where step: "IsPassSeqCheck (Some s) x = Done (ok, Some s')"
    using seq_step_defined [OF w s] by blast
  have "minSeq s' = 2 \<and> (62 \<le> sint x \<longrightarrow> \<not> ok)"
    by (rule seq_step_cases [OF w s step]) (use m d x w in \<open>auto simp: seq_window_def\<close>)
  then show ?thesis using step seq_step_window [OF w s step] by blast
qed

lemma seq_lockout_run:
  "\<lbrakk>seq_window s; minSeq s = 2; \<forall>x \<in> set xs. 0 \<le> sint x \<and> x \<noteq> 2\<rbrakk> \<Longrightarrow>
   \<exists>oks s'. seq_run (Some s) xs = Done (oks, s') \<and>
     list_all2 (\<lambda>x ok. 62 \<le> sint x \<longrightarrow> \<not> ok) xs oks"
proof (induction xs arbitrary: s)
  case (Cons x xs)
  obtain ok s1 where s1: "IsPassSeqCheck (Some s) x = Done (ok, Some s1)" "seq_window s1"
    "minSeq s1 = 2" "62 \<le> sint x \<longrightarrow> \<not> ok"
    using seq_lockout_step [of s x] Cons.prems by auto
  obtain oks s' where "seq_run (Some s1) xs = Done (oks, s')"
     "list_all2 (\<lambda>x ok. 62 \<le> sint x \<longrightarrow> \<not> ok) xs oks"
    using Cons.IH [of s1] s1 Cons.prems by auto
  then show ?case using s1 by simp
qed simp

text \<open>
  Lock-out after a reordering: from a fresh verifier, once 2, 0, 1 have been received in
  that order, \<open>minSeq\<close> stays at 2 for as long as 2 is not sent again, and every later
  number from 62 up to \<^verbatim>\<open>INT32_MAX\<close> is rejected.
\<close>
theorem seq_lockout:
  assumes "\<forall>x \<in> set xs. 0 \<le> sint x \<and> x \<noteq> 2"
  shows "\<exists>oks s'. seq_run (Some \<lparr>maxSeq = 0, minSeq = 0, recvBitmap = 0\<rparr>) ([2, 0, 1] @ xs) =
           Done ([True, True, True] @ oks, s') \<and>
         list_all2 (\<lambda>x ok. 62 \<le> sint x \<longrightarrow> \<not> ok) xs oks"
proof -
  let ?s = "\<lparr>maxSeq = 3, minSeq = 2, recvBitmap = 2\<rparr> :: SeqVerifyInfo"
  obtain oks s' where "seq_run (Some ?s) xs = Done (oks, s')"
     "list_all2 (\<lambda>x ok. 62 \<le> sint x \<longrightarrow> \<not> ok) xs oks"
    using seq_lockout_run [of ?s xs] assms by (auto simp: seq_window_def)
  then show ?thesis
    by (simp add: IsPassSeqCheck_def seq_checks IsPassOverMaxCheck_def IsPassDuplicateCheck_def
        shl64_def Let_def)
qed

theorem seq_lockout_witness:
  "\<exists>oks s'. seq_run (Some \<lparr>maxSeq = 0, minSeq = 0, recvBitmap = 0\<rparr>) ([2, 0, 1] @ [3, 62]) =
     Done ([True, True, True] @ oks, s') \<and> \<not> oks ! 1"
  using seq_lockout [of "[3, 62]"] by (auto simp: list_all2_Cons1)

text \<open>
  A number half the circle ahead passes the window test (the difference to \<open>minSeq\<close>
  wraps to a negative value) and the history is then shifted by more than its width, which C
  does not define.
\<close>
theorem seq_shift_undefined:
  "seq_run (Some \<lparr>maxSeq = 0, minSeq = 0, recvBitmap = 0\<rparr>) [2, 2147483648] = Undef"
  by (simp add: IsPassSeqCheck_def seq_checks IsPassOverMaxCheck_def shl64_def Let_def)

end
