(* ===== verification/Lock_Free_Queue.thy ===== *)
theory Lock_Free_Queue
  imports Softbus_Prelude
begin

text \<open>
  The ring queue of \<^verbatim>\<open>core/common/include/softbus_queue.h\<close> and
  \<^verbatim>\<open>core/common/queue/softbus_queue.c\<close>: creation, the counters (32-bit, wrapping), and the
  single-producer, single-consumer operations. A queue pointer and the pointers a caller passes
  are options (\<open>None\<close> is \<^verbatim>\<open>NULL\<close>); the flexible array \<^verbatim>\<open>nodes\<close> is a list as long as
  the allocation has room for, and an access beyond it is \<open>Undef\<close>.
\<close>

abbreviation (input) QUEUE_INVAL :: status where "QUEUE_INVAL \<equiv> - 10"
abbreviation (input) QUEUE_FULL :: status where "QUEUE_FULL \<equiv> - 9"
abbreviation (input) QUEUE_EMPTY :: status where "QUEUE_EMPTY \<equiv> - 8"
abbreviation (input) QUEUE_HEADER_MAGIC :: u32 where "QUEUE_HEADER_MAGIC \<equiv> 0xccddddcc"
abbreviation (input) QUEUE_SIZE_MAX :: u32 where "QUEUE_SIZE_MAX \<equiv> 8192"
abbreviation (input) SIZEOF_QUEUE :: u32 where "SIZEOF_QUEUE \<equiv> 192"
abbreviation (input) SIZEOF_NODE :: u32 where "SIZEOF_NODE \<equiv> 8"
abbreviation (input) CACHE_LINE_SIZE :: u32 where "CACHE_LINE_SIZE \<equiv> 64"

record queue_end =
  qsize :: u32
  qmask :: u32
  qhead :: u32
  qtail :: u32

record 'a LockFreeQueue =
  magic :: u32
  unitNum :: u32
  producer :: queue_end
  consumer :: queue_end
  nodes :: "'a option list"

subsection \<open>Creation\<close>

definition IS_POWER_OF_2 :: "u32 \<Rightarrow> bool" where
  "IS_POWER_OF_2 x \<longleftrightarrow> (x - 1) AND x = 0"

definition QueueInit :: "'a LockFreeQueue option \<Rightarrow> u32 \<Rightarrow> status \<times> 'a LockFreeQueue option" where
  "QueueInit queue n =
     (case queue of
        None \<Rightarrow> (QUEUE_INVAL, None)
      | Some q \<Rightarrow>
          if \<not> IS_POWER_OF_2 n then (QUEUE_INVAL, Some q)
          else
            let e = \<lparr>qsize = n, qmask = n - 1, qhead = 0, qtail = 0\<rparr>
            in (SOFTBUS_OK, Some (q\<lparr>magic := QUEUE_HEADER_MAGIC, unitNum := n,
                  producer := e, consumer := e\<rparr>)))"

definition QueueSizeCalc :: "u32 \<Rightarrow> u32 option \<Rightarrow> status \<times> u32 option" where
  "QueueSizeCalc n queueSize =
     (case queueSize of
        None \<Rightarrow> (QUEUE_INVAL, None)
      | Some old \<Rightarrow>
          if n > QUEUE_SIZE_MAX then (QUEUE_INVAL, Some old)
          else
            let sz = SIZEOF_NODE * n + SIZEOF_QUEUE
            in (SOFTBUS_OK, Some ((sz + CACHE_LINE_SIZE - 1) AND NOT (CACHE_LINE_SIZE - 1))))"

text \<open>
  A zeroed block of \<open>queueSize\<close> bytes: an empty header and the node slots that fit behind it.
\<close>

definition blank_queue :: "u32 \<Rightarrow> 'a LockFreeQueue" where
  "blank_queue queueSize =
     (let e = \<lparr>qsize = 0, qmask = 0, qhead = 0, qtail = 0\<rparr>
      in \<lparr>magic = 0, unitNum = 0, producer = e, consumer = e,
          nodes = replicate ((unat queueSize - unat SIZEOF_QUEUE) div unat SIZEOF_NODE) None\<rparr>)"

definition CreateQueue :: "env \<Rightarrow> nat \<Rightarrow> u32 \<Rightarrow> 'a LockFreeQueue option" where
  "CreateQueue env k n =
     (if \<not> IS_POWER_OF_2 n then None
      else
        let (ret, queueSize) = QueueSizeCalc n (Some 0)
        in if ret \<noteq> 0 then None
           else
             let sz = the queueSize
             in if \<not> SoftBusCalloc env k (unat sz) then None
                else
                  let (ret, queue) = QueueInit (Some (blank_queue sz)) n
                  in if ret \<noteq> 0 then None else queue)"

subsection \<open>Counters\<close>

definition QueueCountGet :: "'a LockFreeQueue option \<Rightarrow> u32 option \<Rightarrow> status \<times> u32 option" where
  "QueueCountGet queue cnt =
     (case (queue, cnt) of
        (Some q, Some _) \<Rightarrow>
          (SOFTBUS_OK, Some ((qtail (producer q) - qtail (consumer q)) AND qmask (producer q)))
      | _ \<Rightarrow> (QUEUE_INVAL, cnt))"

definition QueueIsEmpty :: "'a LockFreeQueue option \<Rightarrow> status" where
  "QueueIsEmpty queue =
     (case queue of
        None \<Rightarrow> QUEUE_INVAL
      | Some q \<Rightarrow>
          if (qtail (producer q) - qtail (consumer q)) AND qmask (producer q) = 0 then 0 else - 1)"

subsection \<open>Enqueue and dequeue\<close>

definition node_write :: "'a LockFreeQueue \<Rightarrow> u32 \<Rightarrow> 'a \<Rightarrow> 'a LockFreeQueue outcome" where
  "node_write q i x =
     (if unat i < length (nodes q) then Done (q\<lparr>nodes := (nodes q)[unat i := Some x]\<rparr>) else Undef)"

definition node_read :: "'a LockFreeQueue \<Rightarrow> u32 \<Rightarrow> 'a option outcome" where
  "node_read q i = (if unat i < length (nodes q) then Done (nodes q ! unat i) else Undef)"

definition QueueSingleProducerEnqueue ::
  "'a LockFreeQueue option \<Rightarrow> 'a option \<Rightarrow> (status \<times> 'a LockFreeQueue option) outcome" where
  "QueueSingleProducerEnqueue queue node =
     (case (queue, node) of
        (Some q, Some x) \<Rightarrow>
          let m = qmask (producer q);
              producerHead = qhead (producer q);
              consumerTail = qtail (consumer q);
              availableCount = (m + consumerTail) - producerHead
          in if availableCount < 1 then Done (QUEUE_FULL, Some q)
             else
               let producerNext = producerHead + 1;
                   q = q\<lparr>producer := (producer q)\<lparr>qhead := producerNext\<rparr>\<rparr>
               in bind_outcome (node_write q (producerHead AND m) x) (\<lambda>q.
                    Done (SOFTBUS_OK, Some (q\<lparr>producer := (producer q)\<lparr>qtail := producerNext\<rparr>\<rparr>)))
      | _ \<Rightarrow> Done (QUEUE_INVAL, queue))"

text \<open>The out-parameter \<^verbatim>\<open>node\<close> is \<open>None\<close> for a null pointer, else the value it points to.\<close>

definition QueueSingleConsumerDequeue ::
  "'a LockFreeQueue option \<Rightarrow> 'a option option \<Rightarrow>
   (status \<times> 'a option option \<times> 'a LockFreeQueue option) outcome" where
  "QueueSingleConsumerDequeue queue node =
     (case (queue, node) of
        (Some q, Some _) \<Rightarrow>
          let m = qmask (producer q);
              consumerHead = qhead (consumer q);
              producerTail = qtail (producer q);
              availableCount = producerTail - consumerHead
          in if availableCount < 1 then Done (QUEUE_EMPTY, node, Some q)
             else
               let consumerNext = consumerHead + 1;
                   q = q\<lparr>consumer := (consumer q)\<lparr>qhead := consumerNext\<rparr>\<rparr>
               in bind_outcome (node_read q (consumerHead AND m)) (\<lambda>v.
                    Done (SOFTBUS_OK, Some v,
                      Some (q\<lparr>consumer := (consumer q)\<lparr>qtail := consumerNext\<rparr>\<rparr>)))
      | _ \<Rightarrow> Done (QUEUE_INVAL, node, queue))"


subsection \<open>Ring indices\<close>

definition ring_slot :: "'a LockFreeQueue \<Rightarrow> nat \<Rightarrow> nat" where
  "ring_slot q i = unat ((qtail (consumer q) + of_nat i) AND qmask (producer q))"

definition ring_count :: "'a LockFreeQueue \<Rightarrow> nat" where
  "ring_count q = unat (qtail (producer q) - qtail (consumer q))"

lemma unat_and_mask: "k \<le> 32 \<Longrightarrow> unat (w AND (2 ^ k - 1) :: u32) = unat w mod 2 ^ k"
  by (metis mask_eq_exp_minus_1 take_bit_eq_mask take_bit_eq_mod unsigned_take_bit_eq)

lemma unat_add_mod:
  assumes "k \<le> 32" shows "unat (h + of_nat i :: u32) mod 2 ^ k = (unat h + i) mod 2 ^ k"
proof -
  have dv: "(2 :: nat) ^ k dvd 2 ^ 32" using assms by (rule le_imp_power_dvd)
  have "unat (h + of_nat i :: u32) mod 2 ^ k = ((unat h + i) mod 2 ^ 32) mod 2 ^ k"
    by (simp add: unat_word_ariths unat_of_nat mod_simps)
  also have "\<dots> = (unat h + i) mod 2 ^ k" using dv by (rule mod_mod_cancel)
  finally show ?thesis .
qed

lemma mod_offset_less:
  assumes "(a + i) mod n = (a + j) mod n" "i \<le> j" "j < (n :: nat)" shows "i = j"
proof -
  have "n dvd (a + j) - (a + i)"
    using assms mod_eq_dvd_iff_nat [of "a + i" "a + j" n] by simp
  then show ?thesis using assms nat_dvd_not_less [of "j - i" n] by (cases "i = j") auto
qed

lemma mod_offset_inj:
  "\<lbrakk>(a + i) mod n = (a + j) mod n; i < n; j < (n :: nat)\<rbrakk> \<Longrightarrow> i = j"
  using mod_offset_less [of a i n j] mod_offset_less [of a j n i] by (cases "i \<le> j") auto

definition ring_inv :: "'a LockFreeQueue \<Rightarrow> bool" where
  "ring_inv q \<longleftrightarrow>
     (\<exists>k \<le> 13. qmask (producer q) = 2 ^ k - 1 \<and> 2 ^ k \<le> length (nodes q)) \<and>
     qhead (producer q) = qtail (producer q) \<and> qhead (consumer q) = qtail (consumer q) \<and>
     ring_count q \<le> unat (qmask (producer q)) \<and>
     (\<forall>i < ring_count q. nodes q ! ring_slot q i \<noteq> None)"

definition ring_abs :: "'a LockFreeQueue \<Rightarrow> 'a list" where
  "ring_abs q = map (\<lambda>i. the (nodes q ! ring_slot q i)) [0..<ring_count q]"

definition ring_cap :: "'a LockFreeQueue \<Rightarrow> nat" where
  "ring_cap q = unat (qmask (producer q))"

lemma length_ring_abs [simp]: "length (ring_abs q) = ring_count q"
  by (simp add: ring_abs_def)

lemma unat_mask32: "k < 32 \<Longrightarrow> unat (2 ^ k - 1 :: u32) = 2 ^ k - 1"
  using unat_and_mask [of k "- 1"] mask_mod_exp [where ?'a = nat, of 32 k]
  by (simp add: unsigned_minus_1_eq_mask mask_eq_exp_minus_1 min_def)

lemma ring_slot_mod:
  "\<lbrakk>qmask (producer q) = 2 ^ k - 1; k \<le> 32\<rbrakk> \<Longrightarrow>
   ring_slot q i = (unat (qtail (consumer q)) + i) mod 2 ^ k"
  by (simp add: ring_slot_def unat_and_mask unat_add_mod)

lemma tail_eq_count: "qtail (producer q) = qtail (consumer q) + of_nat (ring_count q)"
  by (simp add: ring_count_def)

lemma ring_inv_slots:
  assumes "ring_inv q"
  obtains k where "k \<le> 13" "qmask (producer q) = 2 ^ k - 1" "ring_cap q = 2 ^ k - 1"
    "\<And>i. ring_slot q i < length (nodes q)"
    "\<And>i j. \<lbrakk>ring_slot q i = ring_slot q j; i < 2 ^ k; j < 2 ^ k\<rbrakk> \<Longrightarrow> i = j"
proof -
  obtain k where k: "k \<le> 13" "qmask (producer q) = 2 ^ k - 1" "2 ^ k \<le> length (nodes q)"
    using assms by (auto simp: ring_inv_def)
  note slot = ring_slot_mod [OF k(2)]
  show thesis
  proof (rule that [OF k(1,2)])
    show "ring_cap q = 2 ^ k - 1" using k by (simp add: ring_cap_def unat_mask32)
    show "ring_slot q i < length (nodes q)" for i
    proof -
      have "(unat (qtail (consumer q)) + i) mod 2 ^ k < 2 ^ k" by simp
      then show ?thesis using k(1,3) slot [of i] by linarith
    qed
    show "\<lbrakk>ring_slot q i = ring_slot q j; i < 2 ^ k; j < 2 ^ k\<rbrakk> \<Longrightarrow> i = j" for i j
      using k(1) slot [of i] slot [of j] mod_offset_inj [of "unat (qtail (consumer q))" i "2 ^ k" j] by linarith
  qed
qed

lemma ring_inv_cap: "ring_inv q \<Longrightarrow> \<exists>k \<le> 13. qmask (producer q) = 2 ^ k - 1 \<and> ring_cap q = 2 ^ k - 1"
  by (rule ring_inv_slots) auto

lemma ring_slot_in_bounds: "ring_inv q \<Longrightarrow> ring_slot q i < length (nodes q)"
  by (rule ring_inv_slots)

lemma unat_space:
  fixes h :: u32
  assumes "n < 2 ^ 32" "c < 2 ^ 32" "n \<le> c"
  shows "unat ((of_nat c + h) - (h + of_nat n)) = c - n"
proof -
  have "(of_nat c + h) - (h + of_nat n) = (of_nat (c - n) :: u32)" using assms by simp
  then show ?thesis using assms by (simp only: unat_of_nat) simp
qed

lemma unat_suc32: "unat (w :: u32) < 4294967295 \<Longrightarrow> unat (w + 1) = Suc (unat w)"
  by (simp add: unat_word_ariths)

lemma available_eq:
  assumes "ring_inv q"
  shows "unat ((qmask (producer q) + qtail (consumer q)) - qhead (producer q)) = ring_cap q - ring_count q"
proof -
  have "qmask (producer q) = of_nat (ring_cap q)" by (simp add: ring_cap_def)
  moreover have "qhead (producer q) = qtail (consumer q) + of_nat (ring_count q)"
    using assms tail_eq_count by (simp add: ring_inv_def)
  moreover have "ring_count q \<le> ring_cap q" using assms by (simp add: ring_inv_def ring_cap_def)
  moreover have "ring_cap q < 2 ^ 32" using unsigned_less [of "qmask (producer q)"] by (simp add: ring_cap_def)
  ultimately show ?thesis using unat_space by simp
qed

subsection \<open>The operations on a well-formed ring\<close>

lemma enqueue_full:
  assumes "ring_inv q" "ring_count q = ring_cap q"
  shows "QueueSingleProducerEnqueue (Some q) (Some x) = Done (QUEUE_FULL, Some q)"
  using available_eq [OF assms(1)] assms(2)
  by (simp add: QueueSingleProducerEnqueue_def word_less_nat_alt)

lemma enqueue_ok:
  assumes inv: "ring_inv q" and room: "ring_count q < ring_cap q"
  shows "\<exists>q'. QueueSingleProducerEnqueue (Some q) (Some x) = Done (SOFTBUS_OK, Some q') \<and>
           ring_inv q' \<and> ring_abs q' = ring_abs q @ [x] \<and> ring_cap q' = ring_cap q"
proof -
  obtain k where k: "k \<le> 13" "qmask (producer q) = 2 ^ k - 1" "ring_cap q = 2 ^ k - 1"
    and lt: "\<And>i. ring_slot q i < length (nodes q)"
    and inj: "\<And>i j. \<lbrakk>ring_slot q i = ring_slot q j; i < 2 ^ k; j < 2 ^ k\<rbrakk> \<Longrightarrow> i = j"
    using ring_inv_slots [OF inv] by blast
  let ?n = "ring_count q"
  let ?p = "\<lparr>qsize = qsize (producer q), qmask = qmask (producer q),
    qhead = qhead (producer q) + 1, qtail = qhead (producer q) + 1\<rparr>"
  define q' where "q' = q\<lparr>producer := ?p, nodes := (nodes q)[ring_slot q ?n := Some x]\<rparr>"
  have head: "qhead (producer q) = qtail (consumer q) + of_nat ?n"
    using inv tail_eq_count by (simp add: ring_inv_def)
  have slot: "unat (qhead (producer q) AND qmask (producer q)) = ring_slot q ?n"
    using head by (simp add: ring_slot_def)
  have "\<not> (qmask (producer q) + qtail (consumer q)) - qhead (producer q) < 1"
    using available_eq [OF inv] room by (simp add: word_less_nat_alt)
  then have step: "QueueSingleProducerEnqueue (Some q) (Some x) = Done (SOFTBUS_OK, Some q')"
    using lt slot by (simp add: QueueSingleProducerEnqueue_def node_write_def q'_def Let_def)
  have slot': "ring_slot q' i = ring_slot q i" for i by (simp add: ring_slot_def q'_def)
  have "?n < 2 ^ 13" using room k power_increasing [of k 13 "2 :: nat"] by simp
  then have cnt: "ring_count q' = Suc ?n"
    using inv unat_suc32 [of "qtail (producer q) - qtail (consumer q)"]
    by (simp add: ring_count_def q'_def ring_inv_def algebra_simps)
  have old: "nodes q' ! ring_slot q i = nodes q ! ring_slot q i" if "i < ?n" for i
  proof -
    have "?n < 2 ^ k" using room k(3) by linarith
    then have "ring_slot q ?n \<noteq> ring_slot q i" using inj [of ?n i] that by auto
    then show ?thesis by (simp add: q'_def)
  qed
  have new: "nodes q' ! ring_slot q ?n = Some x" using lt by (simp add: q'_def)
  have "ring_inv q'"
    using inv cnt old new room slot'
    by (auto simp: ring_inv_def ring_cap_def less_Suc_eq) (auto simp: q'_def)
  moreover have "ring_abs q' = ring_abs q @ [x]"
    using old new by (simp add: ring_abs_def cnt slot')
  moreover have "ring_cap q' = ring_cap q" by (simp add: ring_cap_def q'_def)
  ultimately show ?thesis using step by blast
qed

lemma dequeue_empty:
  assumes "ring_inv q" "ring_count q = 0"
  shows "QueueSingleConsumerDequeue (Some q) (Some v) = Done (QUEUE_EMPTY, Some v, Some q)"
proof -
  have "qhead (consumer q) = qtail (consumer q)" using assms(1) by (simp add: ring_inv_def)
  moreover have "qtail (producer q) = qtail (consumer q)" using assms(2) tail_eq_count [of q] by simp
  ultimately show ?thesis by (simp add: QueueSingleConsumerDequeue_def Let_def)
qed

lemma dequeue_ok:
  assumes inv: "ring_inv q" and ne: "0 < ring_count q"
  shows "\<exists>q'. QueueSingleConsumerDequeue (Some q) (Some v) =
             Done (SOFTBUS_OK, Some (Some (hd (ring_abs q))), Some q') \<and>
           ring_inv q' \<and> ring_abs q' = tl (ring_abs q) \<and> ring_cap q' = ring_cap q"
proof -
  note lt = ring_slot_in_bounds [OF inv]
  let ?c = "\<lparr>qsize = qsize (consumer q), qmask = qmask (consumer q),
    qhead = qhead (consumer q) + 1, qtail = qhead (consumer q) + 1\<rparr>"
  define q' where "q' = q\<lparr>consumer := ?c\<rparr>"
  have head: "qhead (consumer q) = qtail (consumer q)" using inv by (simp add: ring_inv_def)
  have slot: "unat (qhead (consumer q) AND qmask (producer q)) = ring_slot q 0"
    using head by (simp add: ring_slot_def)
  have first: "nodes q ! ring_slot q 0 = Some (hd (ring_abs q))"
  proof -
    have "nodes q ! ring_slot q 0 \<noteq> None" using inv ne by (simp add: ring_inv_def)
    then show ?thesis using ne by (auto simp: ring_abs_def hd_map)
  qed
  have "\<not> qtail (producer q) - qhead (consumer q) < 1"
    using ne head by (simp add: ring_count_def word_less_nat_alt)
  then have step: "QueueSingleConsumerDequeue (Some q) (Some v) =
      Done (SOFTBUS_OK, Some (Some (hd (ring_abs q))), Some q')"
    using lt slot first by (simp add: QueueSingleConsumerDequeue_def node_read_def q'_def Let_def)
  have slot': "ring_slot q' i = ring_slot q (Suc i)" for i
    using head by (simp add: ring_slot_def q'_def ac_simps)
  have cnt: "ring_count q = Suc (ring_count q')"
  proof -
    have "ring_count q' = unat ((qtail (producer q) - qtail (consumer q)) - 1)"
      using head by (simp add: ring_count_def q'_def diff_diff_eq)
    also have "\<dots> = ring_count q - 1"
      using ne unat_minus_one [of "qtail (producer q) - qtail (consumer q)"]
      by (cases "qtail (producer q) = qtail (consumer q)") (auto simp: ring_count_def)
    finally show ?thesis using ne by simp
  qed
  have "ring_inv q'"
    using inv cnt slot' by (auto simp: ring_inv_def ring_cap_def) (auto simp: q'_def)
  moreover have "ring_abs q' = tl (ring_abs q)"
  proof -
    have n: "nodes q' = nodes q" by (simp add: q'_def)
    show ?thesis by (simp only: ring_abs_def cnt slot' n map_upt_Suc list.sel)
  qed
  moreover have "ring_cap q' = ring_cap q" by (simp add: ring_cap_def q'_def)
  ultimately show ?thesis using step by blast
qed

subsection \<open>The bounded queue contract\<close>

text \<open>
  What a client of a bounded queue relies on. \<open>enq\<close> and \<open>deq\<close> return the code's status, the
  new queue, and for \<open>deq\<close> the node taken. A list of client operations then behaves as on a
  bounded abstract list.
\<close>

datatype 'a queue_op = Enq 'a | Deq

datatype 'a queue_reply = EnqReply status | DeqReply status "'a option"

fun fifo_run :: "nat \<Rightarrow> 'a list \<Rightarrow> 'a queue_op list \<Rightarrow> 'a queue_reply list \<times> 'a list" where
  "fifo_run c xs [] = ([], xs)"
| "fifo_run c xs (Enq x # ops) =
     (if length xs < c
      then let (rs, ys) = fifo_run c (xs @ [x]) ops in (EnqReply SOFTBUS_OK # rs, ys)
      else let (rs, ys) = fifo_run c xs ops in (EnqReply QUEUE_FULL # rs, ys))"
| "fifo_run c xs (Deq # ops) =
     (case xs of
        [] \<Rightarrow> let (rs, ys) = fifo_run c [] ops in (DeqReply QUEUE_EMPTY None # rs, ys)
      | x # xs' \<Rightarrow> let (rs, ys) = fifo_run c xs' ops in (DeqReply SOFTBUS_OK (Some x) # rs, ys))"

fun queue_run ::
  "('q \<Rightarrow> 'a \<Rightarrow> (status \<times> 'q) outcome) \<Rightarrow> ('q \<Rightarrow> (status \<times> 'a option \<times> 'q) outcome) \<Rightarrow>
   'q \<Rightarrow> 'a queue_op list \<Rightarrow> ('a queue_reply list \<times> 'q) outcome" where
  "queue_run enq deq q [] = Done ([], q)"
| "queue_run enq deq q (Enq x # ops) =
     bind_outcome (enq q x) (\<lambda>(r, q).
     bind_outcome (queue_run enq deq q ops) (\<lambda>(rs, q). Done (EnqReply r # rs, q)))"
| "queue_run enq deq q (Deq # ops) =
     bind_outcome (deq q) (\<lambda>(r, v, q).
     bind_outcome (queue_run enq deq q ops) (\<lambda>(rs, q). Done (DeqReply r v # rs, q)))"

locale bounded_fifo =
  fixes inv :: "'q \<Rightarrow> bool"
    and content :: "'q \<Rightarrow> 'a list"
    and cap :: "'q \<Rightarrow> nat"
    and enq :: "'q \<Rightarrow> 'a \<Rightarrow> (status \<times> 'q) outcome"
    and deq :: "'q \<Rightarrow> (status \<times> 'a option \<times> 'q) outcome"
  assumes bounded: "inv q \<Longrightarrow> length (content q) \<le> cap q"
    and enq_room: "inv q \<Longrightarrow> length (content q) < cap q \<Longrightarrow>
      \<exists>q'. enq q x = Done (SOFTBUS_OK, q') \<and> inv q' \<and> content q' = content q @ [x] \<and> cap q' = cap q"
    and enq_full: "inv q \<Longrightarrow> length (content q) = cap q \<Longrightarrow> enq q x = Done (QUEUE_FULL, q)"
    and deq_some: "inv q \<Longrightarrow> content q = x # xs \<Longrightarrow>
      \<exists>q'. deq q = Done (SOFTBUS_OK, Some x, q') \<and> inv q' \<and> content q' = xs \<and> cap q' = cap q"
    and deq_none: "inv q \<Longrightarrow> content q = [] \<Longrightarrow> deq q = Done (QUEUE_EMPTY, None, q)"
begin

lemma run_refines:
  "inv q \<Longrightarrow> \<exists>q'. queue_run enq deq q ops = Done (fst (fifo_run (cap q) (content q) ops), q') \<and>
     inv q' \<and> content q' = snd (fifo_run (cap q) (content q) ops) \<and> cap q' = cap q"
proof (induction ops arbitrary: q)
  case (Cons opn ops)
  show ?case
  proof (cases opn)
    case (Enq x)
    show ?thesis
    proof (cases "length (content q) < cap q")
      case True
      then obtain q1 where "enq q x = Done (SOFTBUS_OK, q1)" "inv q1" "content q1 = content q @ [x]"
        "cap q1 = cap q" using enq_room Cons.prems by blast
      then show ?thesis using Cons.IH [of q1] True Enq by (auto split: prod.splits)
    next
      case False
      then have "enq q x = Done (QUEUE_FULL, q)"
        using enq_full Cons.prems bounded by (metis le_neq_implies_less)
      then show ?thesis using Cons.IH [of q] Cons.prems False Enq by (auto split: prod.splits)
    qed
  next
    case Deq
    show ?thesis
    proof (cases "content q")
      case Nil
      then show ?thesis using Cons.IH [of q] Cons.prems deq_none Deq by (auto split: prod.splits)
    next
      case (Cons x xs)
      then obtain q1 where "deq q = Done (SOFTBUS_OK, Some x, q1)" "inv q1" "content q1 = xs"
        "cap q1 = cap q" using deq_some Cons.prems by blast
      then show ?thesis using Cons.IH [of q1] Cons Deq by (auto split: prod.splits)
    qed
  qed
qed simp

end

text \<open>The calls as a client makes them: a live queue, a live node and a cleared out-parameter.\<close>

definition ring_enq :: "'a LockFreeQueue \<Rightarrow> 'a \<Rightarrow> (status \<times> 'a LockFreeQueue) outcome" where
  "ring_enq q x =
     bind_outcome (QueueSingleProducerEnqueue (Some q) (Some x)) (\<lambda>(r, q'). Done (r, the q'))"

definition ring_deq :: "'a LockFreeQueue \<Rightarrow> (status \<times> 'a option \<times> 'a LockFreeQueue) outcome" where
  "ring_deq q =
     bind_outcome (QueueSingleConsumerDequeue (Some q) (Some None)) (\<lambda>(r, v, q'). Done (r, the v, the q'))"

interpretation ring: bounded_fifo ring_inv ring_abs ring_cap ring_enq ring_deq
proof
  fix q :: "'a LockFreeQueue" and x :: 'a and xs
  show "ring_inv q \<Longrightarrow> length (ring_abs q) \<le> ring_cap q" by (simp add: ring_inv_def ring_cap_def)
  show "ring_inv q \<Longrightarrow> length (ring_abs q) < ring_cap q \<Longrightarrow>
    \<exists>q'. ring_enq q x = Done (0, q') \<and> ring_inv q' \<and> ring_abs q' = ring_abs q @ [x] \<and> ring_cap q' = ring_cap q"
    using enqueue_ok [of q x] by (auto simp: ring_enq_def)
  show "ring_inv q \<Longrightarrow> length (ring_abs q) = ring_cap q \<Longrightarrow> ring_enq q x = Done (- 9, q)"
    using enqueue_full [of q x] by (simp add: ring_enq_def)
  show "ring_inv q \<Longrightarrow> ring_abs q = x # xs \<Longrightarrow>
    \<exists>q'. ring_deq q = Done (0, Some x, q') \<and> ring_inv q' \<and> ring_abs q' = xs \<and> ring_cap q' = ring_cap q"
    using dequeue_ok [of q None] length_ring_abs [of q] by (auto simp: ring_deq_def)
  show "ring_inv q \<Longrightarrow> ring_abs q = [] \<Longrightarrow> ring_deq q = Done (- 8, None, q)"
    using dequeue_empty [of q None] length_ring_abs [of q] by (simp add: ring_deq_def)
qed

subsection \<open>Creation gives a well-formed ring\<close>

lemma small_exponent:
  assumes "k \<le> (13 :: nat)"
  shows "k \<in> {0, 1, 2, 3, 4, 5, 6, 7, 8, 9, 10, 11, 12, 13}"
  using assms unfolding insert_iff empty_iff by presburger

lemma power_of_2_accepted: "k \<le> 13 \<Longrightarrow> IS_POWER_OF_2 (2 ^ k)"
  using small_exponent [of k] by (auto simp: IS_POWER_OF_2_def)

lemma queue_size_power:
  assumes "k \<le> 13"
  shows "\<exists>sz. QueueSizeCalc (2 ^ k) (Some 0) = (SOFTBUS_OK, Some sz) \<and>
           192 + 8 * 2 ^ k \<le> unat sz \<and> unat sz \<le> 65792"
  using small_exponent [OF assms] by (auto simp: QueueSizeCalc_def Let_def)

lemma create_queue_ring:
  assumes e: "healthy e" and k: "k \<le> 13"
  shows "\<exists>q :: 'a LockFreeQueue. CreateQueue e j (2 ^ k) = Some q \<and>
           ring_inv q \<and> ring_abs q = [] \<and> ring_cap q = 2 ^ k - 1"
proof -
  obtain sz where sz: "QueueSizeCalc (2 ^ k) (Some 0) = (SOFTBUS_OK, Some sz)"
    "192 + 8 * 2 ^ k \<le> unat sz" "unat sz \<le> 65792" using queue_size_power [OF k] by blast
  let ?e = "\<lparr>qsize = 2 ^ k, qmask = 2 ^ k - 1, qhead = 0, qtail = 0\<rparr>"
  define q :: "'a LockFreeQueue" where "q = \<lparr>magic = QUEUE_HEADER_MAGIC, unitNum = 2 ^ k, producer = ?e, consumer = ?e,
    nodes = replicate ((unat sz - 192) div 8) None\<rparr>"
  have "CreateQueue e j (2 ^ k) = Some q"
    using sz healthy_SoftBusCalloc [OF e, of "unat sz" j] power_of_2_accepted [OF k]
    by (simp add: CreateQueue_def QueueInit_def blank_queue_def q_def Let_def)
  moreover have "ring_count q = 0" by (simp add: ring_count_def q_def)
  moreover have "2 ^ k \<le> length (nodes q)" using sz by (simp add: q_def)
  moreover have "ring_cap q = 2 ^ k - 1" using k by (simp add: ring_cap_def q_def unat_mask32)
  ultimately show ?thesis
    using k by (intro exI [of _ q]) (auto simp: ring_inv_def ring_abs_def q_def intro!: exI [of _ k])
qed

subsection \<open>Properties\<close>

text \<open>
  C10. The ring is a bounded first-in-first-out queue: from any well-formed ring, whatever its
  32-bit counters (their wrap-around included), every sequence of enqueues and dequeues is
  defined, answers exactly as a list of bounded length does (same status codes, same nodes in
  the same order), and leaves a well-formed ring with that list as content.
\<close>
theorem queue_is_fifo:
  assumes "ring_inv q"
  shows "\<exists>q'. queue_run ring_enq ring_deq q ops =
             Done (fst (fifo_run (ring_cap q) (ring_abs q) ops), q') \<and>
           ring_inv q' \<and> ring_abs q' = snd (fifo_run (ring_cap q) (ring_abs q) ops)"
  using ring.run_refines [OF assms] by blast

text \<open>A ring of two slots whose counters are about to wrap.\<close>

definition wrapping_ring :: "nat LockFreeQueue" where
  "wrapping_ring =
     (let e = \<lparr>qsize = 2, qmask = 1, qhead = 0xffffffff, qtail = 0xffffffff\<rparr>
      in \<lparr>magic = 0xccddddcc, unitNum = 2, producer = e, consumer = e, nodes = [None, None]\<rparr>)"

theorem queue_is_fifo_witness:
  "\<exists>q'. queue_run ring_enq ring_deq wrapping_ring [Enq 5, Enq 6, Deq, Enq 7, Deq, Deq] =
     Done ([EnqReply 0, EnqReply (- 9), DeqReply 0 (Some 5), EnqReply 0, DeqReply 0 (Some 7),
            DeqReply (- 8) None], q')"
proof -
  have "ring_inv wrapping_ring"
    by (auto simp: ring_inv_def wrapping_ring_def ring_count_def Let_def intro!: exI [of _ 1])
  moreover have "ring_cap wrapping_ring = 1" "ring_abs wrapping_ring = []"
    by (simp_all add: wrapping_ring_def ring_cap_def ring_abs_def ring_count_def Let_def)
  ultimately show ?thesis
    using queue_is_fifo [of wrapping_ring "[Enq 5, Enq 6, Deq, Enq 7, Deq, Deq]"] by auto
qed

text \<open>
  Creation: for every power of two up to 8192 and a working allocator
  \<^verbatim>\<open>CreateQueue\<close> returns an empty well-formed ring that holds one node less than it
  has slots, and every node index the ring computes is inside the allocation.
\<close>
theorem create_queue_correct:
  assumes "healthy e" and "k \<le> 13"
  shows "\<exists>q. CreateQueue e j (2 ^ k) = Some q \<and> ring_inv q \<and> ring_abs q = [] \<and>
           ring_cap q = 2 ^ k - 1 \<and> (\<forall>i. ring_slot q i < length (nodes q))"
proof -
  obtain q :: "'a LockFreeQueue" where q: "CreateQueue e j (2 ^ k) = Some q" "ring_inv q"
    "ring_abs q = []" "ring_cap q = 2 ^ k - 1" using create_queue_ring [OF assms] by blast
  then show ?thesis using ring_slot_in_bounds [OF q(2)] by blast
qed

theorem create_queue_correct_witness:
  "\<exists>q :: nat LockFreeQueue. CreateQueue ideal_env 0 8 = Some q \<and> ring_abs q = [] \<and> ring_cap q = 7"
  using create_queue_correct [of ideal_env 3 0] healthy_ideal_env by auto

lemma count_masked:
  assumes "ring_inv q"
  shows "(qtail (producer q) - qtail (consumer q)) AND qmask (producer q) = of_nat (ring_count q)"
proof -
  obtain k where k: "k \<le> 13" "qmask (producer q) = 2 ^ k - 1" "ring_cap q = 2 ^ k - 1"
    using ring_inv_cap [OF assms] by blast
  let ?d = "qtail (producer q) - qtail (consumer q)"
  have "unat ?d \<le> 2 ^ k - 1" using assms k by (simp add: ring_inv_def ring_count_def ring_cap_def)
  then have "unat ?d < 2 ^ k" by (simp add: Suc_le_eq le_diff_conv2)
  then have "unat (?d AND qmask (producer q)) = unat ?d"
    using k(1) by (simp add: k(2) unat_and_mask)
  then show ?thesis by (simp add: word_unat_eq_iff ring_count_def)
qed

lemma QueueCountGet_ring:
  "ring_inv q \<Longrightarrow> QueueCountGet (Some q) (Some c) = (SOFTBUS_OK, Some (of_nat (ring_count q)))"
  by (simp add: QueueCountGet_def count_masked)

lemma ring_count_small: "ring_inv q \<Longrightarrow> ring_count q < 8192"
proof -
  assume inv: "ring_inv q"
  obtain k where k: "k \<le> 13" "ring_cap q = 2 ^ k - 1" using ring_inv_cap [OF inv] by blast
  have "(2 :: nat) ^ k \<le> 2 ^ 13" by (rule power_increasing [OF k(1)]) simp
  moreover have "(0 :: nat) < 2 ^ k" by simp
  moreover have "ring_count q \<le> ring_cap q" using inv by (simp add: ring_inv_def ring_cap_def)
  ultimately show ?thesis using k(2) by simp
qed

text \<open>
  \<^verbatim>\<open>QueueCountGet\<close> returns the number of queued nodes and \<^verbatim>\<open>QueueIsEmpty\<close>
  returns 0 exactly on an empty ring.
\<close>
theorem queue_count_exact:
  assumes "ring_inv q"
  shows "QueueCountGet (Some q) (Some c) = (SOFTBUS_OK, Some (of_nat (length (ring_abs q)))) \<and>
         (QueueIsEmpty (Some q) = 0 \<longleftrightarrow> ring_abs q = [])"
proof -
  have "(of_nat (ring_count q) :: u32) = 0 \<longleftrightarrow> ring_abs q = []"
    using ring_count_small [OF assms] length_ring_abs [of q]
    by (auto simp: ring_abs_def word_unat_eq_iff unat_of_nat)
  then show ?thesis
    using QueueCountGet_ring [OF assms] count_masked [OF assms] by (simp add: QueueIsEmpty_def)
qed

theorem queue_count_exact_witness:
  "QueueCountGet (Some wrapping_ring) (Some 9) = (0, Some 0) \<and> QueueIsEmpty (Some wrapping_ring) = 0"
proof -
  have "ring_inv wrapping_ring"
    by (auto simp: ring_inv_def wrapping_ring_def ring_count_def Let_def intro!: exI [of _ 1])
  moreover have "ring_abs wrapping_ring = []"
    by (simp add: wrapping_ring_def ring_abs_def ring_count_def Let_def)
  ultimately show ?thesis using queue_count_exact [of wrapping_ring 9] by simp
qed

text \<open>
  A size of 0 passes the power-of-two test: \<^verbatim>\<open>CreateQueue\<close> returns a ring without
  slots whose mask is \<^verbatim>\<open>0xffffffff\<close>, and the first enqueue writes past the allocation.
\<close>
theorem create_queue_zero_overflows:
  assumes "healthy e"
  shows "\<exists>q. CreateQueue e j 0 = Some q \<and> QueueSingleProducerEnqueue (Some q) (Some x) = Undef"
  using healthy_SoftBusCalloc [OF assms, of 192 j]
  by (simp add: CreateQueue_def IS_POWER_OF_2_def QueueSizeCalc_def QueueInit_def blank_queue_def
      QueueSingleProducerEnqueue_def node_write_def Let_def)

theorem create_queue_zero_overflows_witness:
  "\<exists>q. CreateQueue ideal_env 0 0 = Some q \<and> QueueSingleProducerEnqueue (Some q) (Some (1 :: nat)) = Undef"
  using create_queue_zero_overflows [of ideal_env 0 "1 :: nat"] healthy_ideal_env by blast

end
