(* ===== verification/Queue_Threads.thy ===== *)
theory Queue_Threads
  imports Lock_Free_Queue
begin

text \<open>
  The thread-safe operations of \<^verbatim>\<open>core/common/include/softbus_queue.h\<close>,
  \<^verbatim>\<open>QueueMultiProducerEnqueue\<close> and \<^verbatim>\<open>QueueMultiConsumerDequeue\<close>, as machines that make
  one access to the shared queue per step, and any interleaving of any number of such calls.
  The fences of the code order exactly these accesses, so a step sees the effect of all steps
  before it.
\<close>

subsection \<open>The two calls, one shared access at a time\<close>

datatype 'a mp_pc =
    MP_ReadHead 'a
  | MP_ReadTail 'a u32
  | MP_Cas 'a u32
  | MP_Write 'a u32
  | MP_Wait 'a u32
  | MP_Bump 'a u32
  | MP_Ret status

datatype 'a mc_pc =
    MC_ReadHead
  | MC_ReadTail u32
  | MC_Cas u32
  | MC_Read u32
  | MC_Wait u32 "'a option"
  | MC_Bump u32 "'a option"
  | MC_Ret status "'a option"

text \<open>The entry of a call: the null-pointer guard, or the first read of the loop.\<close>

definition mp_start :: "'a LockFreeQueue option \<Rightarrow> 'a option \<Rightarrow> 'a mp_pc" where
  "mp_start queue node =
     (case (queue, node) of (Some _, Some x) \<Rightarrow> MP_ReadHead x | _ \<Rightarrow> MP_Ret QUEUE_INVAL)"

definition mc_start :: "'a LockFreeQueue option \<Rightarrow> 'a option option \<Rightarrow> 'a mc_pc" where
  "mc_start queue node =
     (case (queue, node) of (Some _, Some _) \<Rightarrow> MC_ReadHead | _ \<Rightarrow> MC_Ret QUEUE_INVAL None)"

fun mp_step :: "'a LockFreeQueue \<Rightarrow> 'a mp_pc \<Rightarrow> ('a LockFreeQueue \<times> 'a mp_pc) outcome" where
  "mp_step q (MP_ReadHead x) = Done (q, MP_ReadTail x (qhead (producer q)))"
| "mp_step q (MP_ReadTail x producerHead) =
     (let availableCount = (qmask (producer q) + qtail (consumer q)) - producerHead
      in if availableCount < 1 then Done (q, MP_Ret QUEUE_FULL) else Done (q, MP_Cas x producerHead))"
| "mp_step q (MP_Cas x producerHead) =
     (if qhead (producer q) = producerHead
      then Done (q\<lparr>producer := (producer q)\<lparr>qhead := producerHead + 1\<rparr>\<rparr>, MP_Write x producerHead)
      else Done (q, MP_ReadHead x))"
| "mp_step q (MP_Write x producerHead) =
     bind_outcome (node_write q (producerHead AND qmask (producer q)) x) (\<lambda>q.
       Done (q, MP_Wait x producerHead))"
| "mp_step q (MP_Wait x producerHead) =
     (if qtail (producer q) \<noteq> producerHead then Done (q, MP_Wait x producerHead)
      else Done (q, MP_Bump x producerHead))"
| "mp_step q (MP_Bump x producerHead) =
     Done (q\<lparr>producer := (producer q)\<lparr>qtail := qtail (producer q) + 1\<rparr>\<rparr>, MP_Ret SOFTBUS_OK)"
| "mp_step q (MP_Ret r) = Done (q, MP_Ret r)"

fun mc_step :: "'a LockFreeQueue \<Rightarrow> 'a mc_pc \<Rightarrow> ('a LockFreeQueue \<times> 'a mc_pc) outcome" where
  "mc_step q MC_ReadHead = Done (q, MC_ReadTail (qhead (consumer q)))"
| "mc_step q (MC_ReadTail consumerHead) =
     (let availableCount = qtail (producer q) - consumerHead
      in if availableCount < 1 then Done (q, MC_Ret QUEUE_EMPTY None) else Done (q, MC_Cas consumerHead))"
| "mc_step q (MC_Cas consumerHead) =
     (if qhead (consumer q) = consumerHead
      then Done (q\<lparr>consumer := (consumer q)\<lparr>qhead := consumerHead + 1\<rparr>\<rparr>, MC_Read consumerHead)
      else Done (q, MC_ReadHead))"
| "mc_step q (MC_Read consumerHead) =
     bind_outcome (node_read q (consumerHead AND qmask (producer q))) (\<lambda>v.
       Done (q, MC_Wait consumerHead v))"
| "mc_step q (MC_Wait consumerHead v) =
     (if qtail (consumer q) \<noteq> consumerHead then Done (q, MC_Wait consumerHead v)
      else Done (q, MC_Bump consumerHead v))"
| "mc_step q (MC_Bump consumerHead v) =
     Done (q\<lparr>consumer := (consumer q)\<lparr>qtail := qtail (consumer q) + 1\<rparr>\<rparr>, MC_Ret SOFTBUS_OK v)"
| "mc_step q (MC_Ret r v) = Done (q, MC_Ret r v)"

subsection \<open>A call that runs alone\<close>

text \<open>
  A call under the caller's own lock runs its accesses without interference. Six steps are
  enough for a return; a call that has not returned by then spins for ever on a tail nobody
  else moves.
\<close>

fun mp_alone :: "nat \<Rightarrow> 'a LockFreeQueue \<Rightarrow> 'a mp_pc \<Rightarrow> (status \<times> 'a LockFreeQueue) outcome" where
  "mp_alone n q (MP_Ret r) = Done (r, q)"
| "mp_alone 0 q pc = Undef"
| "mp_alone (Suc n) q pc = bind_outcome (mp_step q pc) (\<lambda>(q', pc'). mp_alone n q' pc')"

definition QueueMultiProducerEnqueue ::
  "'a LockFreeQueue option \<Rightarrow> 'a option \<Rightarrow> (status \<times> 'a LockFreeQueue option) outcome" where
  "QueueMultiProducerEnqueue queue node =
     (case queue of
        None \<Rightarrow> Done (QUEUE_INVAL, None)
      | Some q \<Rightarrow> bind_outcome (mp_alone 6 q (mp_start (Some q) node)) (\<lambda>(r, q'). Done (r, Some q')))"

lemma multi_enqueue_alone:
  assumes "qhead (producer q) = qtail (producer q)"
  shows "QueueMultiProducerEnqueue (Some q) (Some x) = QueueSingleProducerEnqueue (Some q) (Some x)"
  using assms
  by (cases "unat (qtail (producer q) AND qmask (producer q)) < length (nodes q)")
    (auto simp: QueueMultiProducerEnqueue_def QueueSingleProducerEnqueue_def eval_nat_numeral mp_start_def
      node_write_def Let_def)

subsection \<open>Interleavings\<close>

text \<open>
  The calls in progress, and the order in which producers and consumers won their
  compare-and-swap (the order of their tickets).
\<close>

record 'a threads =
  tq :: "'a LockFreeQueue"
  producers :: "'a mp_pc list"
  consumers :: "'a mc_pc list"
  ptickets :: "nat list"
  ctickets :: "nat list"

definition won_p :: "'a LockFreeQueue \<Rightarrow> 'a mp_pc \<Rightarrow> bool" where
  "won_p q pc = (case pc of MP_Cas x h \<Rightarrow> qhead (producer q) = h | _ \<Rightarrow> False)"

definition won_c :: "'a LockFreeQueue \<Rightarrow> 'a mc_pc \<Rightarrow> bool" where
  "won_c q pc = (case pc of MC_Cas h \<Rightarrow> qhead (consumer q) = h | _ \<Rightarrow> False)"

inductive threads_step :: "'a threads \<Rightarrow> 'a threads \<Rightarrow> bool" where
  producer_step:
    "\<lbrakk>i < length (producers t); mp_step (tq t) (producers t ! i) = Done (q', pc')\<rbrakk> \<Longrightarrow>
     threads_step t (t\<lparr>tq := q', producers := (producers t)[i := pc'],
       ptickets := ptickets t @ (if won_p (tq t) (producers t ! i) then [i] else [])\<rparr>)"
| consumer_step:
    "\<lbrakk>i < length (consumers t); mc_step (tq t) (consumers t ! i) = Done (q', pc')\<rbrakk> \<Longrightarrow>
     threads_step t (t\<lparr>tq := q', consumers := (consumers t)[i := pc'],
       ctickets := ctickets t @ (if won_c (tq t) (consumers t ! i) then [i] else [])\<rparr>)"

inductive threads_reach :: "'a threads \<Rightarrow> 'a threads \<Rightarrow> bool" where
  reach_refl: "threads_reach t t"
| reach_step: "threads_reach t t' \<Longrightarrow> threads_step t' t'' \<Longrightarrow> threads_reach t t''"

definition threads_init :: "'a LockFreeQueue \<Rightarrow> 'a list \<Rightarrow> nat \<Rightarrow> 'a threads" where
  "threads_init q xs n =
     \<lparr>tq = q, producers = map (\<lambda>x. mp_start (Some q) (Some x)) xs,
      consumers = replicate n (mc_start (Some q) (Some None)), ptickets = [], ctickets = []\<rparr>"

subsection \<open>Invariant\<close>

text \<open>
  Tickets count up from the common initial counter value \<open>c0\<close>; \<open>pt\<close> producers and
  \<open>ct\<close> consumers have published. A ticket \<open>j\<close> owns slot \<open>(c0 + j) mod 2 ^ k\<close>.
\<close>

definition ticket :: "nat \<Rightarrow> nat \<Rightarrow> u32" where
  "ticket c0 j = of_nat (c0 + j)"

definition slot_of :: "nat \<Rightarrow> nat \<Rightarrow> nat \<Rightarrow> nat" where
  "slot_of c0 k j = (c0 + j) mod 2 ^ k"

fun prod_ok :: "nat \<Rightarrow> nat \<Rightarrow> 'a list \<Rightarrow> 'a option list \<Rightarrow> nat list \<Rightarrow> nat \<Rightarrow> nat \<Rightarrow> nat \<Rightarrow> 'a mp_pc \<Rightarrow> bool" where
  "prod_ok c0 k xs ns pl pt ct i (MP_ReadHead x) \<longleftrightarrow> x = xs ! i \<and> i \<notin> set pl"
| "prod_ok c0 k xs ns pl pt ct i (MP_ReadTail x h) \<longleftrightarrow>
     x = xs ! i \<and> i \<notin> set pl \<and> (\<exists>a \<le> length pl. h = ticket c0 a)"
| "prod_ok c0 k xs ns pl pt ct i (MP_Cas x h) \<longleftrightarrow>
     x = xs ! i \<and> i \<notin> set pl \<and> (\<exists>a \<le> length pl. h = ticket c0 a \<and> a + 1 \<le> ct + (2 ^ k - 1))"
| "prod_ok c0 k xs ns pl pt ct i (MP_Write x h) \<longleftrightarrow>
     x = xs ! i \<and> (\<exists>j. pt \<le> j \<and> j < length pl \<and> pl ! j = i \<and> h = ticket c0 j)"
| "prod_ok c0 k xs ns pl pt ct i (MP_Wait x h) \<longleftrightarrow>
     x = xs ! i \<and> (\<exists>j. pt \<le> j \<and> j < length pl \<and> pl ! j = i \<and> h = ticket c0 j \<and>
       ns ! slot_of c0 k j = Some x)"
| "prod_ok c0 k xs ns pl pt ct i (MP_Bump x h) \<longleftrightarrow>
     x = xs ! i \<and> pt < length pl \<and> pl ! pt = i \<and> h = ticket c0 pt \<and> ns ! slot_of c0 k pt = Some x"
| "prod_ok c0 k xs ns pl pt ct i (MP_Ret r) \<longleftrightarrow>
     (r = SOFTBUS_OK \<and> (\<exists>j < pt. pl ! j = i)) \<or> (r = QUEUE_FULL \<and> i \<notin> set pl)"

fun cons_ok :: "nat \<Rightarrow> 'a list \<Rightarrow> nat list \<Rightarrow> nat list \<Rightarrow> nat \<Rightarrow> nat \<Rightarrow> nat \<Rightarrow> 'a mc_pc \<Rightarrow> bool" where
  "cons_ok c0 xs pl cl pt ct i MC_ReadHead \<longleftrightarrow> i \<notin> set cl"
| "cons_ok c0 xs pl cl pt ct i (MC_ReadTail h) \<longleftrightarrow>
     i \<notin> set cl \<and> (\<exists>a \<le> length cl. h = ticket c0 a)"
| "cons_ok c0 xs pl cl pt ct i (MC_Cas h) \<longleftrightarrow>
     i \<notin> set cl \<and> (\<exists>a \<le> length cl. h = ticket c0 a \<and> a + 1 \<le> pt)"
| "cons_ok c0 xs pl cl pt ct i (MC_Read h) \<longleftrightarrow>
     (\<exists>j. ct \<le> j \<and> j < length cl \<and> cl ! j = i \<and> h = ticket c0 j)"
| "cons_ok c0 xs pl cl pt ct i (MC_Wait h v) \<longleftrightarrow>
     (\<exists>j. ct \<le> j \<and> j < length cl \<and> cl ! j = i \<and> h = ticket c0 j \<and> v = Some (xs ! (pl ! j)))"
| "cons_ok c0 xs pl cl pt ct i (MC_Bump h v) \<longleftrightarrow>
     ct < length cl \<and> cl ! ct = i \<and> h = ticket c0 ct \<and> v = Some (xs ! (pl ! ct))"
| "cons_ok c0 xs pl cl pt ct i (MC_Ret r v) \<longleftrightarrow>
     (r = SOFTBUS_OK \<and> (\<exists>j < ct. cl ! j = i \<and> v = Some (xs ! (pl ! j)))) \<or>
     (r = QUEUE_EMPTY \<and> v = None \<and> i \<notin> set cl)"

definition threads_inv :: "nat \<Rightarrow> nat \<Rightarrow> 'a list \<Rightarrow> 'a threads \<Rightarrow> nat \<Rightarrow> nat \<Rightarrow> bool" where
  "threads_inv c0 k xs t pt ct \<longleftrightarrow>
     qmask (producer (tq t)) = 2 ^ k - 1 \<and> 2 ^ k \<le> length (nodes (tq t)) \<and>
     qhead (producer (tq t)) = ticket c0 (length (ptickets t)) \<and> qtail (producer (tq t)) = ticket c0 pt \<and>
     qhead (consumer (tq t)) = ticket c0 (length (ctickets t)) \<and> qtail (consumer (tq t)) = ticket c0 ct \<and>
     ct \<le> length (ctickets t) \<and> length (ctickets t) \<le> pt \<and> pt \<le> length (ptickets t) \<and>
     length (ptickets t) \<le> ct + (2 ^ k - 1) \<and>
     length (producers t) = length xs \<and>
     distinct (ptickets t) \<and> set (ptickets t) \<subseteq> {..<length xs} \<and>
     distinct (ctickets t) \<and> set (ctickets t) \<subseteq> {..<length (consumers t)} \<and>
     (\<forall>j. ct \<le> j \<and> j < pt \<longrightarrow> nodes (tq t) ! slot_of c0 k j = Some (xs ! (ptickets t ! j))) \<and>
     (\<forall>i < length xs. prod_ok c0 k xs (nodes (tq t)) (ptickets t) pt ct i (producers t ! i)) \<and>
     (\<forall>i < length (consumers t). cons_ok c0 xs (ptickets t) (ctickets t) pt ct i (consumers t ! i))"

subsection \<open>Tickets and slots\<close>

lemma ticket_Suc: "ticket c0 j + 1 = ticket c0 (Suc j)"
  by (simp add: ticket_def)

lemma ticket_inj:
  assumes "ticket c0 a = ticket c0 b" "a < 2 ^ 32" "b < 2 ^ 32" shows "a = b"
proof -
  have "(of_nat a :: u32) = of_nat b" using assms(1) by (simp add: ticket_def)
  then have "unat (of_nat a :: u32) = unat (of_nat b :: u32)" by simp
  then show ?thesis using assms(2,3) by (simp add: unat_of_nat)
qed

lemma ticket_diff: "b \<le> a \<Longrightarrow> a - b < 2 ^ 32 \<Longrightarrow> unat (ticket c0 a - ticket c0 b) = a - b"
  using unat_space [of 0 "a - b" "ticket c0 b"] by (simp add: ticket_def)

lemma ticket_slot: "k \<le> 32 \<Longrightarrow> unat (ticket c0 j AND (2 ^ k - 1)) = slot_of c0 k j"
  using unat_add_mod [of k 0 "c0 + j"] by (simp add: ticket_def slot_of_def unat_and_mask)

lemma slot_of_inj:
  "\<lbrakk>slot_of c0 k i = slot_of c0 k j; c \<le> i; c \<le> j; i < c + 2 ^ k; j < c + 2 ^ k\<rbrakk> \<Longrightarrow> i = j"
  using mod_offset_inj [of "c0 + c" "i - c" "2 ^ k" "j - c"] by (simp add: slot_of_def) linarith

lemma slot_of_less: "slot_of c0 k j < 2 ^ k"
  by (simp add: slot_of_def)

subsection \<open>What a step of one call keeps for the others\<close>

lemma ex_ticket_Suc: "\<exists>a \<le> n. P a \<Longrightarrow> \<exists>a \<le> Suc n. P a"
  by (meson le_SucI)

lemma ex_append_index:
  "\<exists>j. p \<le> j \<and> j < length l \<and> l ! j = i \<and> P j \<Longrightarrow>
   \<exists>j. p \<le> j \<and> j < Suc (length l) \<and> (l @ [y]) ! j = i \<and> P j"
  by (metis less_SucI nth_append_left)

lemma ex_append_below:
  "p \<le> length l \<Longrightarrow> \<exists>j < p. l ! j = i \<and> P j \<Longrightarrow> \<exists>j < p. (l @ [y]) ! j = i \<and> P j"
  by (metis less_le_trans nth_append_left)

lemma ex_later_index:
  "l ! p \<noteq> i \<Longrightarrow> \<exists>j. p \<le> j \<and> j < n \<and> l ! j = i \<and> P j \<Longrightarrow>
   \<exists>j. Suc p \<le> j \<and> j < n \<and> l ! j = i \<and> P j"
  by (metis Suc_leI le_neq_implies_less)

lemma prod_ok_ticket:
  assumes "prod_ok c0 k xs ns pl pt ct i pc" "i \<noteq> i0" "pt \<le> length pl"
  shows "prod_ok c0 k xs ns (pl @ [i0]) pt ct i pc"
proof (cases pc)
  case (MP_ReadTail x h)
  then show ?thesis using assms ex_ticket_Suc [of "length pl"] by simp
next
  case (MP_Cas x h)
  then show ?thesis using assms ex_ticket_Suc [of "length pl"] by simp
next
  case (MP_Write x h)
  then show ?thesis using assms ex_append_index [of pt pl i] by simp
next
  case (MP_Wait x h)
  then show ?thesis
    using assms ex_append_index [of pt pl i "\<lambda>j. h = ticket c0 j \<and> ns ! slot_of c0 k j = Some x"] by auto
next
  case (MP_Ret r)
  then show ?thesis using assms ex_append_below [of pt pl i "\<lambda>_. True"] by auto
qed (use assms in \<open>auto simp: nth_append\<close>)

lemma prod_ok_publish:
  assumes "prod_ok c0 k xs ns pl pt ct i pc" "pl ! pt \<noteq> i"
  shows "prod_ok c0 k xs ns pl (Suc pt) ct i pc"
proof (cases pc)
  case (MP_Write x h)
  then show ?thesis using assms ex_later_index [of pl pt i "length pl"] by simp
next
  case (MP_Wait x h)
  then show ?thesis
    using assms ex_later_index [of pl pt i "length pl" "\<lambda>j. h = ticket c0 j \<and> ns ! slot_of c0 k j = Some x"]
    by auto
next
  case (MP_Ret r)
  then show ?thesis using assms by (auto intro: less_SucI)
qed (use assms in auto)

lemma prod_ok_consumed:
  "prod_ok c0 k xs ns pl pt ct i pc \<Longrightarrow> prod_ok c0 k xs ns pl pt (Suc ct) i pc"
  by (cases pc) auto

lemma prod_ok_write:
  assumes "prod_ok c0 k xs ns pl pt ct i pc" "i \<noteq> i0" "pl ! j = i0" "pt \<le> j" "j < length pl"
    and "ct \<le> pt" "length pl \<le> ct + (2 ^ k - 1)"
  shows "prod_ok c0 k xs (ns[slot_of c0 k j := v]) pl pt ct i pc"
proof -
  have keep: "ns[slot_of c0 k j := v] ! slot_of c0 k j' = ns ! slot_of c0 k j'"
    if "pt \<le> j'" "j' < length pl" "pl ! j' = i" for j'
  proof -
    have "(2 :: nat) ^ k > 0" by simp
    then have "j < ct + 2 ^ k" "j' < ct + 2 ^ k" using assms(5,7) that(2) by linarith+
    then have "slot_of c0 k j \<noteq> slot_of c0 k j'"
      using slot_of_inj [of c0 k j j' ct] assms(2,3,4,6) that by auto
    then show ?thesis by simp
  qed
  show ?thesis using assms(1) by (cases pc) (auto simp: keep)
qed

lemma cons_ok_ticket_p:
  assumes "cons_ok c0 xs pl cl pt ct i pc" "length cl \<le> length pl" "ct \<le> length cl"
  shows "cons_ok c0 xs (pl @ [i0]) cl pt ct i pc"
proof -
  have "(pl @ [i0]) ! j = pl ! j" if "j < length cl" for j using assms(2) that by (simp add: nth_append)
  then show ?thesis using assms by (cases pc) auto
qed

lemma cons_ok_publish:
  "cons_ok c0 xs pl cl pt ct i pc \<Longrightarrow> cons_ok c0 xs pl cl (Suc pt) ct i pc"
  by (cases pc) auto

lemma cons_ok_ticket:
  assumes "cons_ok c0 xs pl cl pt ct i pc" "i \<noteq> i0" "ct \<le> length cl"
  shows "cons_ok c0 xs pl (cl @ [i0]) pt ct i pc"
proof (cases pc)
  case (MC_ReadTail h)
  then show ?thesis using assms ex_ticket_Suc [of "length cl"] by simp
next
  case (MC_Cas h)
  then show ?thesis using assms ex_ticket_Suc [of "length cl"] by simp
next
  case (MC_Read h)
  then show ?thesis using assms ex_append_index [of ct cl i] by simp
next
  case (MC_Wait h v)
  then show ?thesis
    using assms ex_append_index [of ct cl i "\<lambda>j. h = ticket c0 j \<and> v = Some (xs ! (pl ! j))"] by auto
next
  case (MC_Ret r v)
  then show ?thesis using assms ex_append_below [of ct cl i "\<lambda>j. v = Some (xs ! (pl ! j))"] by auto
qed (use assms in \<open>auto simp: nth_append\<close>)

lemma cons_ok_consumed:
  assumes "cons_ok c0 xs pl cl pt ct i pc" "cl ! ct \<noteq> i"
  shows "cons_ok c0 xs pl cl pt (Suc ct) i pc"
proof (cases pc)
  case (MC_Read h)
  then show ?thesis using assms ex_later_index [of cl ct i "length cl"] by simp
next
  case (MC_Wait h v)
  then show ?thesis
    using assms ex_later_index [of cl ct i "length cl" "\<lambda>j. h = ticket c0 j \<and> v = Some (xs ! (pl ! j))"]
    by auto
next
  case (MC_Ret r v)
  then show ?thesis using assms by (auto intro: less_SucI)
qed (use assms in auto)

subsection \<open>Every step is defined and keeps the invariant\<close>

definition few_calls :: "nat \<Rightarrow> 'a list \<Rightarrow> bool" where
  "few_calls k xs \<longleftrightarrow> k \<le> 13 \<and> length xs + 8192 \<le> 4294967296"

lemma few_calls_tickets:
  assumes "threads_inv c0 k xs t pt ct" "few_calls k xs"
  shows "length (ptickets t) < 4294967296"
proof -
  have "length (ptickets t) = card (set (ptickets t))" "set (ptickets t) \<subseteq> {..<length xs}"
    using assms(1) by (simp_all add: threads_inv_def distinct_card)
  then show ?thesis using assms(2) card_mono [of "{..<length xs}" "set (ptickets t)"] by (simp add: few_calls_def)
qed

abbreviation (input) producer_moved :: "'a threads \<Rightarrow> nat \<Rightarrow> 'a LockFreeQueue \<Rightarrow> 'a mp_pc \<Rightarrow> nat list \<Rightarrow> 'a threads" where
  "producer_moved t i q pc w \<equiv> t\<lparr>tq := q, producers := (producers t)[i := pc], ptickets := ptickets t @ w\<rparr>"

abbreviation (input) consumer_moved :: "'a threads \<Rightarrow> nat \<Rightarrow> 'a LockFreeQueue \<Rightarrow> 'a mc_pc \<Rightarrow> nat list \<Rightarrow> 'a threads" where
  "consumer_moved t i q pc w \<equiv> t\<lparr>tq := q, consumers := (consumers t)[i := pc], ctickets := ctickets t @ w\<rparr>"

lemma producer_local:
  assumes "threads_inv c0 k xs t pt ct" "i < length xs"
    "prod_ok c0 k xs (nodes (tq t)) (ptickets t) pt ct i pc"
  shows "threads_inv c0 k xs (producer_moved t i (tq t) pc []) pt ct"
  using assms by (auto simp: threads_inv_def nth_list_update)

lemma consumer_local:
  assumes "threads_inv c0 k xs t pt ct" "i < length (consumers t)"
    "cons_ok c0 xs (ptickets t) (ctickets t) pt ct i pc"
  shows "threads_inv c0 k xs (consumer_moved t i (tq t) pc []) pt ct"
  using assms by (auto simp: threads_inv_def nth_list_update)

lemma full_when_last_slot: "(2 ^ k - 1) + ticket c0 ct - ticket c0 (ct + (2 ^ k - 1)) = 0"
proof -
  have "ticket c0 (ct + (2 ^ k - 1)) = ticket c0 ct + of_nat (2 ^ k - 1)"
    unfolding ticket_def of_nat_add by (simp only: add.assoc)
  moreover have "(of_nat (2 ^ k - 1) :: u32) = 2 ^ k - 1" by (simp add: of_nat_diff)
  ultimately show ?thesis by simp
qed

lemma inv_prod:
  "threads_inv c0 k xs t pt ct \<Longrightarrow> i < length xs \<Longrightarrow>
   prod_ok c0 k xs (nodes (tq t)) (ptickets t) pt ct i (producers t ! i)"
  by (simp add: threads_inv_def)

lemma inv_cons:
  "threads_inv c0 k xs t pt ct \<Longrightarrow> i < length (consumers t) \<Longrightarrow>
   cons_ok c0 xs (ptickets t) (ctickets t) pt ct i (consumers t ! i)"
  by (simp add: threads_inv_def)

lemma inv_chain:
  assumes "threads_inv c0 k xs t pt ct"
  shows "ct \<le> length (ctickets t)" "length (ctickets t) \<le> pt" "pt \<le> length (ptickets t)"
    "length (ptickets t) \<le> ct + (2 ^ k - 1)"
  using assms by (simp_all add: threads_inv_def)

lemma producer_wins:
  assumes inv: "threads_inv c0 k xs t pt ct" and i: "i < length xs" and pc: "producers t ! i = MP_Cas x h"
    and few: "few_calls k xs" and won: "qhead (producer (tq t)) = h"
  shows "threads_inv c0 k xs (producer_moved t i
    ((tq t)\<lparr>producer := (producer (tq t))\<lparr>qhead := h + 1\<rparr>\<rparr>) (MP_Write x h) [i]) pt ct"
proof -
  obtain a where a: "a \<le> length (ptickets t)" "h = ticket c0 a" "a + 1 \<le> ct + (2 ^ k - 1)" "i \<notin> set (ptickets t)" "x = xs ! i"
    using inv_prod [OF inv i] pc by auto
  have "h = ticket c0 (length (ptickets t))" using inv won by (simp add: threads_inv_def)
  then have ph: "a = length (ptickets t)"
    using ticket_inj [of c0 a "length (ptickets t)"] a few_calls_tickets [OF inv few] by simp
  have others: "prod_ok c0 k xs (nodes (tq t)) (ptickets t @ [i]) pt ct i' (producers t ! i')"
    if "i' < length xs" "i' \<noteq> i" for i'
    using prod_ok_ticket [OF inv_prod [OF inv that(1)] that(2)] inv_chain(3) [OF inv] by blast
  have cons: "cons_ok c0 xs (ptickets t @ [i]) (ctickets t) pt ct i' (consumers t ! i')"
    if "i' < length (consumers t)" for i'
    using cons_ok_ticket_p [OF inv_cons [OF inv that]] inv_chain [OF inv] le_trans by blast
  show ?thesis
    using inv a i ph others cons
    by (auto simp: threads_inv_def nth_list_update ticket_Suc nth_append)
qed

lemma producer_writes:
  assumes inv: "threads_inv c0 k xs t pt ct" and i: "i < length xs" and pc: "producers t ! i = MP_Write x h"
    and few: "few_calls k xs"
  shows "\<exists>q'. node_write (tq t) (h AND qmask (producer (tq t))) x = Done q' \<and>
           threads_inv c0 k xs (producer_moved t i q' (MP_Wait x h) []) pt ct"
proof -
  obtain j where j: "pt \<le> j" "j < length (ptickets t)" "ptickets t ! j = i" "h = ticket c0 j" "x = xs ! i"
    using inv_prod [OF inv i] pc by auto
  let ?q = "(tq t)\<lparr>nodes := (nodes (tq t))[slot_of c0 k j := Some x]\<rparr>"
  have k: "k \<le> 32" using few by (simp add: few_calls_def)
  have m: "qmask (producer (tq t)) = 2 ^ k - 1" using inv by (simp add: threads_inv_def)
  have len: "slot_of c0 k j < length (nodes (tq t))"
    using inv slot_of_less [of c0 k j] by (auto simp: threads_inv_def intro: less_le_trans)
  have w: "node_write (tq t) (h AND qmask (producer (tq t))) x = Done ?q"
    using len j ticket_slot [OF k, of c0 j] by (simp add: node_write_def m)
  have others: "prod_ok c0 k xs (nodes ?q) (ptickets t) pt ct i' (producers t ! i')"
    if "i' < length xs" "i' \<noteq> i" for i'
    using prod_ok_write [OF inv_prod [OF inv that(1)] that(2) j(3,1,2) le_trans [OF inv_chain(1) [OF inv] inv_chain(2) [OF inv]]
      inv_chain(4) [OF inv]] by simp
  have keep: "(nodes ?q) ! slot_of c0 k j' = nodes (tq t) ! slot_of c0 k j'" if "ct \<le> j'" "j' < pt" for j'
  proof -
    note c = inv_chain(4) [OF inv] le_trans [OF inv_chain(1) [OF inv] inv_chain(2) [OF inv]]
    have "(2 :: nat) ^ k > 0" by simp
    then have "j < ct + 2 ^ k" "j' < ct + 2 ^ k" using c(1) j(1,2) that by linarith+
    then have "slot_of c0 k j \<noteq> slot_of c0 k j'" using slot_of_inj [of c0 k j j' ct] j(1) that c by auto
    then show ?thesis by simp
  qed
  have "threads_inv c0 k xs (producer_moved t i ?q (MP_Wait x h) []) pt ct"
    using inv i j len others keep by (auto simp: threads_inv_def nth_list_update)
  with w show ?thesis by blast
qed

lemma producer_publishes:
  assumes inv: "threads_inv c0 k xs t pt ct" and i: "i < length xs" and pc: "producers t ! i = MP_Bump x h"
  shows "threads_inv c0 k xs (producer_moved t i
    ((tq t)\<lparr>producer := (producer (tq t))\<lparr>qtail := qtail (producer (tq t)) + 1\<rparr>\<rparr>) (MP_Ret SOFTBUS_OK) []) (Suc pt) ct"
proof -
  have b: "pt < length (ptickets t)" "ptickets t ! pt = i" "nodes (tq t) ! slot_of c0 k pt = Some (xs ! i)"
    using inv_prod [OF inv i] pc by auto
  have others: "prod_ok c0 k xs (nodes (tq t)) (ptickets t) (Suc pt) ct i' (producers t ! i')"
    if "i' < length xs" "i' \<noteq> i" for i'
    using prod_ok_publish [OF inv_prod [OF inv that(1)]] that b by blast
  have cons: "cons_ok c0 xs (ptickets t) (ctickets t) (Suc pt) ct i' (consumers t ! i')"
    if "i' < length (consumers t)" for i'
    using cons_ok_publish [OF inv_cons [OF inv that]] .
  show ?thesis
    using inv i b others cons
    by (auto simp: threads_inv_def nth_list_update ticket_Suc less_Suc_eq)
qed

lemma consumer_wins:
  assumes inv: "threads_inv c0 k xs t pt ct" and i: "i < length (consumers t)" and pc: "consumers t ! i = MC_Cas h"
    and few: "few_calls k xs" and won: "qhead (consumer (tq t)) = h"
  shows "threads_inv c0 k xs (consumer_moved t i
    ((tq t)\<lparr>consumer := (consumer (tq t))\<lparr>qhead := h + 1\<rparr>\<rparr>) (MC_Read h) [i]) pt ct"
proof -
  obtain a where a: "a \<le> length (ctickets t)" "h = ticket c0 a" "a + 1 \<le> pt" "i \<notin> set (ctickets t)"
    using inv_cons [OF inv i] pc by auto
  have "h = ticket c0 (length (ctickets t))" using inv won by (simp add: threads_inv_def)
  then have ch: "a = length (ctickets t)"
    using ticket_inj [of c0 a "length (ctickets t)"] a few_calls_tickets [OF inv few] inv_chain [OF inv] by simp
  have cons: "cons_ok c0 xs (ptickets t) (ctickets t @ [i]) pt ct i' (consumers t ! i')"
    if "i' < length (consumers t)" "i' \<noteq> i" for i'
    using cons_ok_ticket [OF inv_cons [OF inv that(1)] that(2)] inv_chain(1) [OF inv] by blast
  show ?thesis
    using inv a i ch cons
    by (auto simp: threads_inv_def nth_list_update ticket_Suc nth_append)
qed

lemma consumer_reads:
  assumes inv: "threads_inv c0 k xs t pt ct" and i: "i < length (consumers t)" and pc: "consumers t ! i = MC_Read h"
    and few: "few_calls k xs"
  shows "\<exists>v. node_read (tq t) (h AND qmask (producer (tq t))) = Done v \<and>
           threads_inv c0 k xs (consumer_moved t i (tq t) (MC_Wait h v) []) pt ct"
proof -
  obtain j where j: "ct \<le> j" "j < length (ctickets t)" "ctickets t ! j = i" "h = ticket c0 j"
    using inv_cons [OF inv i] pc by auto
  have k: "k \<le> 32" using few by (simp add: few_calls_def)
  have m: "qmask (producer (tq t)) = 2 ^ k - 1" using inv by (simp add: threads_inv_def)
  have len: "slot_of c0 k j < length (nodes (tq t))"
    using inv slot_of_less [of c0 k j] by (auto simp: threads_inv_def intro: less_le_trans)
  have "j < pt" using j(2) inv_chain(2) [OF inv] by simp
  then have "nodes (tq t) ! slot_of c0 k j = Some (xs ! (ptickets t ! j))"
    using inv j(1) by (simp add: threads_inv_def)
  then have "node_read (tq t) (h AND qmask (producer (tq t))) = Done (Some (xs ! (ptickets t ! j)))"
    using len j ticket_slot [OF k, of c0 j] by (simp add: node_read_def m)
  moreover have "threads_inv c0 k xs (consumer_moved t i (tq t) (MC_Wait h (Some (xs ! (ptickets t ! j)))) []) pt ct"
    using consumer_local [OF inv i, of "MC_Wait h (Some (xs ! (ptickets t ! j)))"] j by auto
  ultimately show ?thesis by blast
qed

lemma consumer_publishes:
  assumes inv: "threads_inv c0 k xs t pt ct" and i: "i < length (consumers t)" and pc: "consumers t ! i = MC_Bump h v"
  shows "threads_inv c0 k xs (consumer_moved t i
    ((tq t)\<lparr>consumer := (consumer (tq t))\<lparr>qtail := qtail (consumer (tq t)) + 1\<rparr>\<rparr>) (MC_Ret SOFTBUS_OK v) []) pt (Suc ct)"
proof -
  have b: "ct < length (ctickets t)" "ctickets t ! ct = i" "v = Some (xs ! (ptickets t ! ct))"
    using inv_cons [OF inv i] pc by auto
  have prods: "prod_ok c0 k xs (nodes (tq t)) (ptickets t) pt (Suc ct) i' (producers t ! i')"
    if "i' < length xs" for i'
    using prod_ok_consumed [OF inv_prod [OF inv that]] .
  have cons: "cons_ok c0 xs (ptickets t) (ctickets t) pt (Suc ct) i' (consumers t ! i')"
    if "i' < length (consumers t)" "i' \<noteq> i" for i'
    using cons_ok_consumed [OF inv_cons [OF inv that(1)]] that b by blast
  show ?thesis
    using inv i b prods cons
    by (auto simp: threads_inv_def nth_list_update ticket_Suc less_Suc_eq)
qed

lemma producer_step_inv:
  assumes inv: "threads_inv c0 k xs t pt ct" and i: "i < length xs" and few: "few_calls k xs"
  shows "\<exists>q' pc' pt'. mp_step (tq t) (producers t ! i) = Done (q', pc') \<and>
    threads_inv c0 k xs (producer_moved t i q' pc'
      (if won_p (tq t) (producers t ! i) then [i] else [])) pt' ct"
proof (cases "producers t ! i")
  case (MP_ReadHead x)
  then show ?thesis
    using producer_local [OF inv i, of "MP_ReadTail x (qhead (producer (tq t)))"] inv inv_prod [OF inv i]
    by (auto simp: won_p_def threads_inv_def)
next
  case (MP_ReadTail x h)
  obtain a where a: "a \<le> length (ptickets t)" "h = ticket c0 a" "i \<notin> set (ptickets t)" "x = xs ! i"
    using inv_prod [OF inv i] MP_ReadTail by auto
  show ?thesis
  proof (cases "a = ct + (2 ^ k - 1)")
    case True
    have "qmask (producer (tq t)) + qtail (consumer (tq t)) - h = 0"
      using full_when_last_slot [of k c0 ct] inv a True by (simp add: threads_inv_def)
    then show ?thesis using producer_local [OF inv i, of "MP_Ret QUEUE_FULL"] MP_ReadTail a
      by (auto simp: won_p_def Let_def)
  next
    case False
    then have "a + 1 \<le> ct + (2 ^ k - 1)" using a(1) inv_chain(4) [OF inv] by linarith
    then have "prod_ok c0 k xs (nodes (tq t)) (ptickets t) pt ct i (MP_Cas x h)" using a by auto
    then show ?thesis
      using producer_local [OF inv i, of "MP_Ret QUEUE_FULL"] producer_local [OF inv i, of "MP_Cas x h"] MP_ReadTail a
      by (auto simp: won_p_def Let_def)
  qed
next
  case (MP_Cas x h)
  then show ?thesis
    using producer_wins [OF inv i MP_Cas few] producer_local [OF inv i, of "MP_ReadHead x"] inv_prod [OF inv i]
    by (cases "qhead (producer (tq t)) = h") (auto simp: won_p_def)
next
  case (MP_Write x h)
  then show ?thesis using producer_writes [OF inv i MP_Write few] by (auto simp: won_p_def)
next
  case (MP_Wait x h)
  obtain j where j: "pt \<le> j" "j < length (ptickets t)" "ptickets t ! j = i" "h = ticket c0 j"
    "x = xs ! i" "nodes (tq t) ! slot_of c0 k j = Some x" using inv_prod [OF inv i] MP_Wait by auto
  show ?thesis
  proof (cases "qtail (producer (tq t)) = h")
    case True
    then have "ticket c0 pt = ticket c0 j" using inv j by (simp add: threads_inv_def)
    then have "j = pt" using ticket_inj [of c0 pt j] j few_calls_tickets [OF inv few] by simp
    then show ?thesis using producer_local [OF inv i, of "MP_Bump x h"] j MP_Wait True
      by (auto simp: won_p_def)
  next
    case False
    then show ?thesis using producer_local [OF inv i, of "MP_Wait x h"] inv_prod [OF inv i] MP_Wait
      by (auto simp: won_p_def)
  qed
next
  case (MP_Bump x h)
  then show ?thesis using producer_publishes [OF inv i MP_Bump] by (auto simp: won_p_def)
next
  case (MP_Ret r)
  then show ?thesis using producer_local [OF inv i, of "MP_Ret r"] inv_prod [OF inv i]
    by (auto simp: won_p_def)
qed

lemma consumer_step_inv:
  assumes inv: "threads_inv c0 k xs t pt ct" and i: "i < length (consumers t)" and few: "few_calls k xs"
  shows "\<exists>q' pc' ct'. mc_step (tq t) (consumers t ! i) = Done (q', pc') \<and>
    threads_inv c0 k xs (consumer_moved t i q' pc'
      (if won_c (tq t) (consumers t ! i) then [i] else [])) pt ct'"
proof (cases "consumers t ! i")
  case MC_ReadHead
  then show ?thesis
    using consumer_local [OF inv i, of "MC_ReadTail (qhead (consumer (tq t)))"] inv inv_cons [OF inv i]
    by (auto simp: won_c_def threads_inv_def)
next
  case (MC_ReadTail h)
  obtain a where a: "a \<le> length (ctickets t)" "h = ticket c0 a" "i \<notin> set (ctickets t)"
    using inv_cons [OF inv i] MC_ReadTail by auto
  show ?thesis
  proof (cases "a = pt")
    case True
    have "qtail (producer (tq t)) - h = 0" using inv a True by (simp add: threads_inv_def)
    then show ?thesis using consumer_local [OF inv i, of "MC_Ret QUEUE_EMPTY None"] MC_ReadTail a
      by (auto simp: won_c_def Let_def)
  next
    case False
    then have "a + 1 \<le> pt" using a(1) inv_chain(2) [OF inv] by linarith
    then have "cons_ok c0 xs (ptickets t) (ctickets t) pt ct i (MC_Cas h)" using a by auto
    then show ?thesis
      using consumer_local [OF inv i, of "MC_Ret QUEUE_EMPTY None"] consumer_local [OF inv i, of "MC_Cas h"] MC_ReadTail a
      by (auto simp: won_c_def Let_def)
  qed
next
  case (MC_Cas h)
  then show ?thesis
    using consumer_wins [OF inv i MC_Cas few] consumer_local [OF inv i, of MC_ReadHead] inv_cons [OF inv i]
    by (cases "qhead (consumer (tq t)) = h") (auto simp: won_c_def)
next
  case (MC_Read h)
  then show ?thesis using consumer_reads [OF inv i MC_Read few] by (auto simp: won_c_def)
next
  case (MC_Wait h v)
  obtain j where j: "ct \<le> j" "j < length (ctickets t)" "ctickets t ! j = i" "h = ticket c0 j"
    "v = Some (xs ! (ptickets t ! j))" using inv_cons [OF inv i] MC_Wait by auto
  show ?thesis
  proof (cases "qtail (consumer (tq t)) = h")
    case True
    then have "ticket c0 ct = ticket c0 j" using inv j by (simp add: threads_inv_def)
    then have "j = ct" using ticket_inj [of c0 ct j] j few_calls_tickets [OF inv few] inv_chain [OF inv] by simp
    then show ?thesis using consumer_local [OF inv i, of "MC_Bump h v"] j MC_Wait True
      by (auto simp: won_c_def)
  next
    case False
    then show ?thesis using consumer_local [OF inv i, of "MC_Wait h v"] inv_cons [OF inv i] MC_Wait
      by (auto simp: won_c_def)
  qed
next
  case (MC_Bump h v)
  then show ?thesis using consumer_publishes [OF inv i MC_Bump] by (auto simp: won_c_def)
next
  case (MC_Ret r v)
  then show ?thesis using consumer_local [OF inv i, of "MC_Ret r v"] inv_cons [OF inv i]
    by (auto simp: won_c_def)
qed

lemma threads_step_inv:
  assumes "threads_step t t'" and few: "few_calls k xs" and inv: "threads_inv c0 k xs t pt ct"
  shows "\<exists>pt' ct'. threads_inv c0 k xs t' pt' ct' \<and> length (consumers t') = length (consumers t)"
  using assms(1)
proof cases
  case (producer_step i q' pc')
  then have "i < length xs" using inv by (simp add: threads_inv_def)
  then show ?thesis using producer_step_inv [OF inv _ few] producer_step by fastforce
next
  case (consumer_step i q' pc')
  then show ?thesis using consumer_step_inv [OF inv consumer_step(2) few] by fastforce
qed

lemma threads_reach_inv:
  assumes "threads_reach t t'" "few_calls k xs" "threads_inv c0 k xs t pt ct"
  shows "\<exists>pt' ct'. threads_inv c0 k xs t' pt' ct' \<and> length (consumers t') = length (consumers t)"
  using assms
proof (induction rule: threads_reach.induct)
  case (reach_step t t' t'')
  then show ?case using threads_step_inv by metis
qed auto

lemma threads_init_inv:
  assumes "ring_inv q" "ring_abs q = []"
  shows "\<exists>c0 k. k \<le> 13 \<and> threads_inv c0 k xs (threads_init q xs n) 0 0"
proof -
  obtain k where k: "k \<le> 13" "qmask (producer q) = 2 ^ k - 1" "2 ^ k \<le> length (nodes q)"
    "qhead (producer q) = qtail (producer q)" "qhead (consumer q) = qtail (consumer q)"
    using assms(1) by (auto simp: ring_inv_def)
  have "qtail (producer q) = qtail (consumer q)"
    using tail_eq_count [of q] assms(2) by (simp add: ring_abs_def)
  then have "threads_inv (unat (qtail (consumer q))) k xs (threads_init q xs n) 0 0"
    using k by (simp add: threads_inv_def threads_init_def ticket_def mp_start_def mc_start_def)
  with k(1) show ?thesis by blast
qed

lemma threads_inv_reachable:
  assumes "ring_inv q" "ring_abs q = []" "length xs + 8192 \<le> 4294967296"
    "threads_reach (threads_init q xs n) t"
  obtains c0 k pt ct where "few_calls k xs" "threads_inv c0 k xs t pt ct" "length (consumers t) = n"
proof -
  obtain c0 k where k: "k \<le> 13" "threads_inv c0 k xs (threads_init q xs n) 0 0"
    using threads_init_inv [OF assms(1,2)] by blast
  then have few: "few_calls k xs" using assms(3) by (simp add: few_calls_def)
  obtain pt ct where "threads_inv c0 k xs t pt ct" "length (consumers t) = n"
    using threads_reach_inv [OF assms(4) few k(2)] by (auto simp: threads_init_def)
  then show thesis using that few by blast
qed

lemma ticket_holder_moves:
  assumes inv: "threads_inv c0 k xs t pt ct" and few: "few_calls k xs" and pt: "pt < length (ptickets t)"
  shows "\<exists>i < length xs. \<exists>q' pc'. mp_step (tq t) (producers t ! i) = Done (q', pc') \<and> pc' \<noteq> producers t ! i"
proof -
  let ?i = "ptickets t ! pt"
  have sub: "set (ptickets t) \<subseteq> {..<length xs}" and d: "distinct (ptickets t)"
    and tl: "qtail (producer (tq t)) = ticket c0 pt" using inv by (simp_all add: threads_inv_def)
  have i: "?i < length xs" using sub nth_mem [OF pt] by blast
  have same: "j = pt" if "ptickets t ! j = ?i" "j < length (ptickets t)" for j
    using that pt d nth_eq_iff_index_eq by blast
  have mem: "?i \<in> set (ptickets t)" using pt by simp
  obtain q' pc' where step: "mp_step (tq t) (producers t ! ?i) = Done (q', pc')"
    using producer_step_inv [OF inv i few] by blast
  have "pc' \<noteq> producers t ! ?i"
  proof (cases "producers t ! ?i")
    case (MP_Wait x h)
    then have "h = ticket c0 pt" using inv_prod [OF inv i] same by auto
    then show ?thesis using step MP_Wait tl by auto
  next
    case (MP_Ret r)
    then obtain j where "j < pt" "ptickets t ! j = ?i" using inv_prod [OF inv i] mem by auto
    then show ?thesis using same [of j] pt by simp
  qed (use step inv_prod [OF inv i] mem in \<open>auto simp: bind_outcome_eq_Done Let_def split: if_splits\<close>)
  then show ?thesis using i step by blast
qed

lemma ctoken_holder_moves:
  assumes inv: "threads_inv c0 k xs t pt ct" and few: "few_calls k xs" and ct: "ct < length (ctickets t)"
  shows "\<exists>i < length (consumers t). \<exists>q' pc'. mc_step (tq t) (consumers t ! i) = Done (q', pc') \<and> pc' \<noteq> consumers t ! i"
proof -
  let ?i = "ctickets t ! ct"
  have sub: "set (ctickets t) \<subseteq> {..<length (consumers t)}" and d: "distinct (ctickets t)"
    and tl: "qtail (consumer (tq t)) = ticket c0 ct" using inv by (simp_all add: threads_inv_def)
  have i: "?i < length (consumers t)" using sub nth_mem [OF ct] by blast
  have same: "j = ct" if "ctickets t ! j = ?i" "j < length (ctickets t)" for j
    using that ct d nth_eq_iff_index_eq by blast
  have mem: "?i \<in> set (ctickets t)" using ct by simp
  obtain q' pc' where step: "mc_step (tq t) (consumers t ! ?i) = Done (q', pc')"
    using consumer_step_inv [OF inv i few] by blast
  have "pc' \<noteq> consumers t ! ?i"
  proof (cases "consumers t ! ?i")
    case (MC_Wait h v)
    then have "h = ticket c0 ct" using inv_cons [OF inv i] same by auto
    then show ?thesis using step MC_Wait tl by auto
  next
    case (MC_Ret r v)
    then obtain j where "j < ct" "ctickets t ! j = ?i" using inv_cons [OF inv i] mem by auto
    then show ?thesis using same [of j] ct by simp
  qed (use step inv_cons [OF inv i] mem in \<open>auto simp: bind_outcome_eq_Done Let_def split: if_splits\<close>)
  then show ?thesis using i step by blast
qed

subsection \<open>Properties\<close>

text \<open>
  C1. The thread-safe ring is first in first out under every interleaving: starting from an
  empty ring with any counter values, fewer than \<open>2 ^ 32 - 8192\<close> enqueue calls and any number
  of dequeue calls, the consumer that is the \<open>j\<close>-th to win the consumer head returns
  exactly the node of the producer that was the \<open>j\<close>-th to win the producer head. No node is
  delivered twice (the winners are distinct), a dequeue that returns success is one of the
  winners and a dequeue that returns another status is not.
\<close>
theorem threads_fifo:
  assumes "ring_inv q" "ring_abs q = []" "length xs + 8192 \<le> 4294967296"
    and "threads_reach (threads_init q xs n) t"
  shows "distinct (ptickets t) \<and> distinct (ctickets t) \<and>
         length (ctickets t) \<le> length (ptickets t) \<and>
         (\<forall>i < n. \<forall>r v. consumers t ! i = MC_Ret r v \<longrightarrow>
            (if r = SOFTBUS_OK
             then \<exists>j < length (ctickets t). ctickets t ! j = i \<and> v = Some (xs ! (ptickets t ! j))
             else r = QUEUE_EMPTY \<and> i \<notin> set (ctickets t)))"
proof -
  obtain c0 k pt ct where "few_calls k xs" and inv: "threads_inv c0 k xs t pt ct" "length (consumers t) = n"
    by (rule threads_inv_reachable [OF assms])
  have "if r = SOFTBUS_OK
        then \<exists>j < length (ctickets t). ctickets t ! j = i \<and> v = Some (xs ! (ptickets t ! j))
        else r = QUEUE_EMPTY \<and> i \<notin> set (ctickets t)"
    if "i < n" "consumers t ! i = MC_Ret r v" for i r v
    using inv_cons [OF inv(1), of i] inv(2) that inv_chain(1) [OF inv(1)] by (auto intro: less_le_trans)
  moreover have "distinct (ptickets t)" "distinct (ctickets t)" using inv by (simp_all add: threads_inv_def)
  ultimately show ?thesis using inv_chain(2,3) [OF inv(1)] by auto
qed

text \<open>A reachable state for the witnesses: one call of each kind, the producer run to its end.\<close>

definition run_producer :: "nat threads \<Rightarrow> nat threads" where
  "run_producer t =
     (case mp_step (tq t) (producers t ! 0) of
        Done (q', pc') \<Rightarrow> t\<lparr>tq := q', producers := (producers t)[0 := pc'],
          ptickets := ptickets t @ (if won_p (tq t) (producers t ! 0) then [0] else [])\<rparr>
      | Undef \<Rightarrow> t)"

definition run_consumer :: "nat threads \<Rightarrow> nat threads" where
  "run_consumer t =
     (case mc_step (tq t) (consumers t ! 0) of
        Done (q', pc') \<Rightarrow> t\<lparr>tq := q', consumers := (consumers t)[0 := pc'],
          ctickets := ctickets t @ (if won_c (tq t) (consumers t ! 0) then [0] else [])\<rparr>
      | Undef \<Rightarrow> t)"

lemma reach_run_producer:
  assumes "threads_reach t0 t" "0 < length (producers t)"
  shows "threads_reach t0 (run_producer t)"
proof (cases "mp_step (tq t) (producers t ! 0)")
  case (Done r)
  obtain q' pc' where r: "r = (q', pc')" by (cases r)
  show ?thesis
    using threads_reach.reach_step [OF assms(1) threads_step.producer_step [OF assms(2) Done [unfolded r]]]
    by (simp only: run_producer_def Done r outcome.case prod.case)
qed (use assms in \<open>simp add: run_producer_def\<close>)

lemma reach_run_consumer:
  assumes "threads_reach t0 t" "0 < length (consumers t)"
  shows "threads_reach t0 (run_consumer t)"
proof (cases "mc_step (tq t) (consumers t ! 0)")
  case (Done r)
  obtain q' pc' where r: "r = (q', pc')" by (cases r)
  show ?thesis
    using threads_reach.reach_step [OF assms(1) threads_step.consumer_step [OF assms(2) Done [unfolded r]]]
    by (simp only: run_consumer_def Done r outcome.case prod.case)
qed (use assms in \<open>simp add: run_consumer_def\<close>)

lemma length_run [simp]:
  "length (producers (run_producer t)) = length (producers t)"
  "length (consumers (run_producer t)) = length (consumers t)"
  "length (producers (run_consumer t)) = length (producers t)"
  "length (consumers (run_consumer t)) = length (consumers t)"
  by (auto simp: run_producer_def run_consumer_def split: outcome.splits)

definition one_each :: "nat threads" where
  "one_each = (run_consumer ^^ 6) ((run_producer ^^ 6) (threads_init wrapping_ring [5] 1))"

lemma reach_runs_producer:
  "threads_reach t0 t \<Longrightarrow> 0 < length (producers t) \<Longrightarrow>
   threads_reach t0 ((run_producer ^^ m) t) \<and> length (producers ((run_producer ^^ m) t)) = length (producers t) \<and>
   length (consumers ((run_producer ^^ m) t)) = length (consumers t)"
  by (induction m) (auto intro: reach_run_producer)

lemma reach_runs_consumer:
  "threads_reach t0 t \<Longrightarrow> 0 < length (consumers t) \<Longrightarrow>
   threads_reach t0 ((run_consumer ^^ m) t) \<and> length (consumers ((run_consumer ^^ m) t)) = length (consumers t)"
  by (induction m) (auto intro: reach_run_consumer)

lemma reach_one_each: "threads_reach (threads_init wrapping_ring [5] 1) one_each"
proof -
  let ?t = "threads_init wrapping_ring [5] 1"
  have "0 < length (producers ?t)" "length (consumers ?t) = 1" by (simp_all add: threads_init_def)
  then show ?thesis
    unfolding one_each_def
    using reach_runs_producer [OF threads_reach.reach_refl, of ?t 6]
      reach_runs_consumer [of ?t "(run_producer ^^ 6) ?t" 6] by simp
qed

lemma wrapping_ring_ok: "ring_inv wrapping_ring" "ring_abs wrapping_ring = []"
  by (auto simp: ring_inv_def ring_abs_def wrapping_ring_def ring_count_def Let_def intro!: exI [of _ 1])

theorem threads_fifo_witness:
  "consumers one_each ! 0 = MC_Ret 0 (Some 5) \<and>
   (\<exists>j < length (ctickets one_each). ctickets one_each ! j = 0 \<and> Some 5 = Some ([5 :: nat] ! (ptickets one_each ! j)))"
proof -
  have "consumers one_each ! 0 = MC_Ret 0 (Some 5)"
    by (simp add: one_each_def eval_nat_numeral threads_init_def run_producer_def run_consumer_def wrapping_ring_def
        mp_start_def mc_start_def won_p_def won_c_def node_write_def node_read_def Let_def)
  moreover have "\<exists>j < length (ctickets one_each). ctickets one_each ! j = 0 \<and> Some 5 = Some ([5 :: nat] ! (ptickets one_each ! j))"
    using threads_fifo [OF wrapping_ring_ok, of "[5]" 1 one_each] reach_one_each calculation by simp
  ultimately show ?thesis ..
qed

text \<open>
  C21. No access outside the ring and no deadlock: in every reachable state the next access of
  every call is defined, and while a producer (or consumer) spins because the tail is not yet its
  ticket, some producer (or consumer) has a next step that moves it.
\<close>
theorem threads_safe_and_moving:
  assumes "ring_inv q" "ring_abs q = []" "length xs + 8192 \<le> 4294967296"
    and "threads_reach (threads_init q xs n) t"
  shows "(\<forall>i < length xs. mp_step (tq t) (producers t ! i) \<noteq> Undef) \<and>
         (\<forall>i < n. mc_step (tq t) (consumers t ! i) \<noteq> Undef) \<and>
         (\<forall>i < length xs. \<forall>x h. producers t ! i = MP_Wait x h \<longrightarrow>
            (\<exists>i' < length xs. \<exists>q' pc'. mp_step (tq t) (producers t ! i') = Done (q', pc') \<and> pc' \<noteq> producers t ! i')) \<and>
         (\<forall>i < n. \<forall>h v. consumers t ! i = MC_Wait h v \<longrightarrow>
            (\<exists>i' < n. \<exists>q' pc'. mc_step (tq t) (consumers t ! i') = Done (q', pc') \<and> pc' \<noteq> consumers t ! i'))"
proof -
  obtain c0 k pt ct where few: "few_calls k xs" and inv: "threads_inv c0 k xs t pt ct" and n: "length (consumers t) = n"
    by (rule threads_inv_reachable [OF assms])
  have "mp_step (tq t) (producers t ! i) \<noteq> Undef" if "i < length xs" for i
    using producer_step_inv [OF inv that few] by auto
  moreover have "mc_step (tq t) (consumers t ! i) \<noteq> Undef" if "i < n" for i
    using consumer_step_inv [OF inv _ few, of i] that n by auto
  moreover have "\<exists>i' < length xs. \<exists>q' pc'. mp_step (tq t) (producers t ! i') = Done (q', pc') \<and> pc' \<noteq> producers t ! i'"
    if "i < length xs" "producers t ! i = MP_Wait x h" for i x h
    using ticket_holder_moves [OF inv few] inv_prod [OF inv that(1)] that(2) by auto
  moreover have "\<exists>i' < n. \<exists>q' pc'. mc_step (tq t) (consumers t ! i') = Done (q', pc') \<and> pc' \<noteq> consumers t ! i'"
    if "i < n" "consumers t ! i = MC_Wait h v" for i h v
    using ctoken_holder_moves [OF inv few] inv_cons [OF inv, of i] that n by auto
  ultimately show ?thesis by blast
qed

theorem threads_safe_and_moving_witness:
  "mp_step (tq one_each) (producers one_each ! 0) \<noteq> Undef \<and> mc_step (tq one_each) (consumers one_each ! 0) \<noteq> Undef"
  using threads_safe_and_moving [OF wrapping_ring_ok, of "[5]" 1 one_each] reach_one_each by simp

end
