(* ===== verification/Conn_Common.thy ===== *)
theory Conn_Common
  imports Queue_Threads
begin

text \<open>
  \<^verbatim>\<open>core/connection/common/src/softbus_conn_common.c\<close>: the masking of addresses for the log,
  the limited buffer, the wait for room in a send queue and the choice of the next message of a
  queue group. A condition wait is a parameter: what it answers and the state in which the other
  threads left the shared data while the mutex was released.
\<close>

subsection \<open>Masking\<close>

abbreviation (input) BT_MAC_LEN :: nat where "BT_MAC_LEN \<equiv> 18"
abbreviation (input) IP_LEN :: nat where "IP_LEN \<equiv> 46"
abbreviation (input) NUL :: char where "NUL \<equiv> CHR 0x00"

text \<open>
  \<^verbatim>\<open>strcpy_s\<close> into a buffer: on success the string and its terminator replace the front of the
  buffer, on failure the buffer starts with the terminator.
\<close>

definition strcpy_s :: "env \<Rightarrow> string \<Rightarrow> string \<Rightarrow> bool \<times> string" where
  "strcpy_s e buf src =
     (if memcpy_ok e (length buf) (Suc (length src))
      then (True, src @ [NUL] @ drop (Suc (length src)) buf)
      else (False, buf[0 := NUL]))"

definition ConvertAnonymizeMacAddress :: "env \<Rightarrow> string \<Rightarrow> string \<Rightarrow> nat \<Rightarrow> string" where
  "ConvertAnonymizeMacAddress e outAnomize mac macLen =
     (if length outAnomize < BT_MAC_LEN \<or> macLen \<noteq> BT_MAC_LEN then outAnomize
      else
        let (ok, s) = strcpy_s e outAnomize mac
        in if \<not> ok then s
           else s[3 := CHR ''*'', 4 := CHR ''*'', 6 := CHR ''*'', 7 := CHR ''*'',
                  9 := CHR ''*'', 10 := CHR ''*''])"

fun mask_ip_loop :: "nat \<Rightarrow> string \<Rightarrow> string" where
  "mask_ip_loop dotCnt [] = []"
| "mask_ip_loop dotCnt (c # cs) =
     (if c = NUL then c # cs
      else if c = CHR ''.'' then c # mask_ip_loop (dotCnt + 1) cs
      else if 1 \<le> dotCnt \<and> dotCnt \<le> 2 then CHR ''*'' # mask_ip_loop dotCnt cs
      else c # mask_ip_loop dotCnt cs)"

definition ConvertAnonymizeIpAddress :: "env \<Rightarrow> string \<Rightarrow> string \<Rightarrow> nat \<Rightarrow> string" where
  "ConvertAnonymizeIpAddress e outAnomize ip ipLen =
     (if length outAnomize < IP_LEN \<or> ipLen \<noteq> IP_LEN then outAnomize
      else
        let (ok, s) = strcpy_s e outAnomize ip
        in if \<not> ok then s else mask_ip_loop 0 s)"

fun mask_range :: "nat \<Rightarrow> nat \<Rightarrow> string \<Rightarrow> string" where
  "mask_range i 0 s = s"
| "mask_range i (Suc n) s = mask_range (Suc i) n (s[i := CHR ''*''])"

definition ConvertAnonymizeSensitiveString :: "env \<Rightarrow> string option \<Rightarrow> string option \<Rightarrow> string option" where
  "ConvertAnonymizeSensitiveString e outAnomize origin =
     (case (outAnomize, origin) of
        (Some buf, Some str) \<Rightarrow>
          let originStrLen = length str
          in if length buf < originStrLen + 1 then Some buf
             else
               let (ok, s) = strcpy_s e buf str
               in if \<not> ok then Some s
                  else
                    let anomizeSize = originStrLen div 3
                    in Some (mask_range anomizeSize (originStrLen - anomizeSize - anomizeSize) s)
      | _ \<Rightarrow> outAnomize)"

subsection \<open>Limited buffer\<close>

record LimitedBuffer =
  lb_buffer :: bytes
  lb_capacity :: u32
  lb_length :: u32

abbreviation (input) SIZEOF_LIMITED_BUFFER :: nat where "SIZEOF_LIMITED_BUFFER \<equiv> 16"

definition ConnNewLimitedBuffer ::
  "env \<Rightarrow> nat \<Rightarrow> LimitedBuffer option \<Rightarrow> u32 \<Rightarrow> status \<times> LimitedBuffer option" where
  "ConnNewLimitedBuffer e k out cap =
     (let okStruct = SoftBusCalloc e k SIZEOF_LIMITED_BUFFER;
          okBytes = SoftBusCalloc e (k + 1) (unat cap)
      in if \<not> okStruct \<or> \<not> okBytes then (SOFTBUS_MEM_ERR, out)
         else (SOFTBUS_OK, Some \<lparr>lb_buffer = replicate (unat cap) 0, lb_capacity = cap, lb_length = 0\<rparr>))"

definition ConnDeleteLimitedBuffer :: "LimitedBuffer option \<Rightarrow> LimitedBuffer option" where
  "ConnDeleteLimitedBuffer buf = (case buf of None \<Rightarrow> None | Some _ \<Rightarrow> None)"

subsection \<open>Waiting for room\<close>

abbreviation (input) MICROSECONDS :: int where "MICROSECONDS \<equiv> 1000000"
abbreviation (input) WAIT_QUEUE_DELAY :: int where "WAIT_QUEUE_DELAY \<equiv> 1000"
abbreviation (input) WAIT_QUEUE_BUFFER_PERIOD_LEN :: u32 where "WAIT_QUEUE_BUFFER_PERIOD_LEN \<equiv> 2"

text \<open>
  The platform: the clock of the \<open>k\<close>-th reading (\<open>None\<close> when it fails) and the \<open>k\<close>-th
  condition wait, given its absolute deadline.
\<close>

record 'st waiter =
  get_time :: "nat \<Rightarrow> (int \<times> int) option"
  cond_wait :: "nat \<Rightarrow> (int \<times> int) option \<Rightarrow> 'st \<Rightarrow> status \<times> 'st"

definition ConnectSoftBusCondWait :: "'st waiter \<Rightarrow> nat \<Rightarrow> int \<Rightarrow> 'st \<Rightarrow> status \<times> 'st" where
  "ConnectSoftBusCondWait w k timeMillis st =
     (if timeMillis = 0 then cond_wait w k None st
      else case get_time w k of
             None \<Rightarrow> (SOFTBUS_ERR, st)
           | Some (sec, usec) \<Rightarrow>
               let sec = sec + (usec + timeMillis * 1000) div MICROSECONDS;
                   usec = (usec + timeMillis * 1000) mod MICROSECONDS
               in cond_wait w k (Some (sec, usec)) st)"

text \<open>
  The loop of \<^verbatim>\<open>WaitQueueLength\<close> on the queue that \<open>get\<close> finds in the shared state;
  \<open>None\<close> when it is still waiting after \<open>fuel\<close> rounds.
\<close>

fun WaitQueueLength ::
  "nat \<Rightarrow> 'st waiter \<Rightarrow> nat \<Rightarrow> ('st \<Rightarrow> 'a LockFreeQueue option outcome) \<Rightarrow> u32 \<Rightarrow> u32 \<Rightarrow> 'st \<Rightarrow>
   (status \<times> 'st) option outcome" where
  "WaitQueueLength 0 w k get maxLen diffLen st = Done None"
| "WaitQueueLength (Suc fuel) w k get maxLen diffLen st =
     bind_outcome (get st) (\<lambda>queue.
       let (r, queueCount) = QueueCountGet queue (Some 0)
       in if r \<noteq> 0 then Done (Some (SOFTBUS_OK, st))
          else if the queueCount < maxLen - diffLen then Done (Some (SOFTBUS_OK, st))
          else
            let (status, st') = ConnectSoftBusCondWait w k WAIT_QUEUE_DELAY st
            in if status \<noteq> SOFTBUS_OK \<and> status \<noteq> SOFTBUS_TIMOUT then Done (Some (SOFTBUS_ERR, st'))
               else WaitQueueLength fuel w (Suc k) get maxLen diffLen st')"

subsection \<open>Queue groups\<close>

abbreviation (input) QUEUE_NUM_PER_PID :: nat where "QUEUE_NUM_PER_PID \<equiv> 3"
abbreviation (input) HIGH_PRIORITY :: nat where "HIGH_PRIORITY \<equiv> 0"
abbreviation (input) MIDDLE_PRIORITY :: nat where "MIDDLE_PRIORITY \<equiv> 1"
abbreviation (input) LOW_PRIORITY :: nat where "LOW_PRIORITY \<equiv> 2"

definition QUEUE_LIMIT :: "int list" where
  "QUEUE_LIMIT = [32, 32, 32]"

definition GetQueueLimit :: "int \<Rightarrow> u32" where
  "GetQueueLimit index =
     (if index \<ge> int QUEUE_NUM_PER_PID \<or> index < 0 then word_of_int SOFTBUS_INVALID_PARAM
      else word_of_int (QUEUE_LIMIT ! nat index))"

text \<open>
  A group of three queues for one process; \<open>cq_addr\<close> is its address, which tells whether a
  pointer into it is still valid.
\<close>

record 'a ConnectionQueue =
  cq_addr :: nat
  cq_pid :: int
  cq_queue :: "'a LockFreeQueue option list"

text \<open>\<^verbatim>\<open>GetMsg\<close> from priority \<open>i\<close> on, \<open>n\<close> queues left to look at.\<close>

fun get_msg_loop ::
  "nat \<Rightarrow> nat \<Rightarrow> 'a ConnectionQueue \<Rightarrow> 'a option \<Rightarrow> bool \<Rightarrow>
   (status \<times> 'a option \<times> bool \<times> 'a ConnectionQueue) outcome" where
  "get_msg_loop i 0 g msg isFull = Done (SOFTBUS_ERR, msg, isFull, g)"
| "get_msg_loop i (Suc n) g msg isFull =
     (if length (cq_queue g) \<le> i then Undef
      else
        let q = cq_queue g ! i;
            (r, queueCount) = QueueCountGet q (Some 0)
        in if r \<noteq> 0 then get_msg_loop (Suc i) n g msg isFull
           else
             let isFull = (sint (the queueCount) \<ge> QUEUE_LIMIT ! i - sint WAIT_QUEUE_BUFFER_PERIOD_LEN)
             in bind_outcome (QueueSingleConsumerDequeue q (Some msg)) (\<lambda>(r, v, q').
                  let g = g\<lparr>cq_queue := (cq_queue g)[i := q']\<rparr>
                  in if r \<noteq> 0 then get_msg_loop (Suc i) n g (the v) isFull
                     else Done (SOFTBUS_OK, the v, isFull, g)))"

definition GetMsg ::
  "'a ConnectionQueue \<Rightarrow> 'a option \<Rightarrow> bool \<Rightarrow> nat \<Rightarrow>
   (status \<times> 'a option \<times> bool \<times> 'a ConnectionQueue) outcome" where
  "GetMsg g msg isFull leastPriority = get_msg_loop 0 (Suc leastPriority) g msg isFull"

subsection \<open>Well-formed groups and the choice they make\<close>

definition group_ok :: "'a ConnectionQueue \<Rightarrow> bool" where
  "group_ok g \<longleftrightarrow> length (cq_queue g) = QUEUE_NUM_PER_PID \<and>
     (\<forall>q \<in> set (cq_queue g). \<exists>r. q = Some r \<and> ring_inv r \<and> ring_cap r = 31)"

definition group_content :: "'a ConnectionQueue \<Rightarrow> 'a list list" where
  "group_content g = map (\<lambda>q. ring_abs (the q)) (cq_queue g)"

text \<open>The first message among the first \<open>n\<close> of some queues, and what is left.\<close>

fun pick :: "nat \<Rightarrow> 'a list list \<Rightarrow> ('a \<times> 'a list list) option" where
  "pick 0 qs = None"
| "pick (Suc n) [] = None"
| "pick (Suc n) ([] # qs) = map_option (\<lambda>(x, qs'). (x, [] # qs')) (pick n qs)"
| "pick (Suc n) ((x # xs) # qs) = Some (x, xs # qs)"

text \<open>The length of the queue it is taken from.\<close>

fun pick_len :: "nat \<Rightarrow> 'a list list \<Rightarrow> nat" where
  "pick_len 0 qs = 0"
| "pick_len (Suc n) [] = 0"
| "pick_len (Suc n) (q # qs) = (if q = [] then pick_len n qs else length q)"

lemma group_ok_nth:
  assumes "group_ok g" "i < 3"
  obtains r where "cq_queue g ! i = Some r" "ring_inv r" "ring_cap r = 31"
  using assms by (metis group_ok_def nth_mem)

lemma group_ok_update:
  "group_ok g \<Longrightarrow> ring_inv r \<Longrightarrow> ring_cap r = 31 \<Longrightarrow>
   group_ok (g\<lparr>cq_queue := (cq_queue g)[i := Some r]\<rparr>)"
  by (auto simp: group_ok_def dest!: set_update_subset_insert [THEN subsetD])

lemma length_group_content [simp]: "length (group_content g) = length (cq_queue g)"
  by (simp add: group_content_def)

lemma group_content_update:
  "group_content (g\<lparr>cq_queue := (cq_queue g)[i := Some r]\<rparr>) = (group_content g)[i := ring_abs r]"
  by (simp add: group_content_def map_update)

lemma sint_count: "ring_inv r \<Longrightarrow> sint (of_nat (ring_count r) :: u32) = int (ring_count r)"
  using ring_count_small [of r] by (simp add: signed_of_nat signed_take_bit_int_eq_self)

lemma get_msg_loop_spec:
  assumes "group_ok g" "i + n \<le> 3"
  shows "case pick n (drop i (group_content g)) of
      None \<Rightarrow> get_msg_loop i n g msg b = Done (SOFTBUS_ERR, msg, (if n = 0 then b else False), g)
    | Some (x, c) \<Rightarrow> (\<exists>g'. get_msg_loop i n g msg b =
          Done (SOFTBUS_OK, Some x, 30 \<le> pick_len n (drop i (group_content g)), g') \<and>
        group_ok g' \<and> group_content g' = take i (group_content g) @ c \<and>
        cq_addr g' = cq_addr g \<and> cq_pid g' = cq_pid g)"
  using assms
proof (induction n arbitrary: i b)
  case (Suc n)
  have i: "i < 3" and len: "length (cq_queue g) = 3" using Suc.prems by (auto simp: group_ok_def)
  obtain r where r: "cq_queue g ! i = Some r" "ring_inv r" "ring_cap r = 31"
    using group_ok_nth [OF Suc.prems(1) i] .
  have c: "drop i (group_content g) = ring_abs r # drop (Suc i) (group_content g)"
    using i len r by (simp add: group_content_def Cons_nth_drop_Suc [symmetric])
  have cnt: "QueueCountGet (cq_queue g ! i) (Some 0) = (SOFTBUS_OK, Some (of_nat (ring_count r)))"
    using r QueueCountGet_ring by simp
  have lim: "QUEUE_LIMIT ! i - sint (2 :: u32) = 30"
    using i by (auto simp: QUEUE_LIMIT_def less_Suc_eq numeral_3_eq_3)
  show ?case
  proof (cases "ring_abs r")
    case Nil
    then have n0: "ring_count r = 0" using length_ring_abs [of r] by simp
    have same: "g\<lparr>cq_queue := (cq_queue g)[i := Some r]\<rparr> = g"
      using r(1) by (metis ConnectionQueue.surjective ConnectionQueue.update_convs(3) list_update_id)
    have step: "get_msg_loop i (Suc n) g msg b = get_msg_loop (Suc i) n g msg False"
      using len i cnt lim r n0 dequeue_empty [OF r(2) n0, of msg] same by simp
    have take: "take (Suc i) (group_content g) = take i (group_content g) @ [[]]"
      using i len r Nil by (simp add: take_Suc_conv_app_nth group_content_def)
    show ?thesis
      using Suc.IH [of "Suc i" False] Suc.prems c Nil step take by (auto split: option.splits)
  next
    case (Cons x xs)
    then have n0: "0 < ring_count r" using length_ring_abs [of r] by simp
    obtain r' where r': "QueueSingleConsumerDequeue (Some r) (Some msg) = Done (SOFTBUS_OK, Some (Some x), Some r')"
      "ring_inv r'" "ring_abs r' = xs" "ring_cap r' = 31"
      using dequeue_ok [OF r(2) n0, of msg] Cons r(3) by auto
    let ?g = "g\<lparr>cq_queue := (cq_queue g)[i := Some r']\<rparr>"
    have "get_msg_loop i (Suc n) g msg b = Done (SOFTBUS_OK, Some x, 30 \<le> ring_count r, ?g)"
      using len i cnt lim r r' sint_count [OF r(2)] by simp
    moreover have "group_content ?g = take i (group_content g) @ xs # drop (Suc i) (group_content g)"
      using i len r' upd_conv_take_nth_drop [of i "group_content g" xs] by (simp add: group_content_update)
    ultimately show ?thesis
      using c Cons group_ok_update [OF Suc.prems(1) r'(2,4), of i] length_ring_abs [of r] by auto
  qed
qed simp

lemma GetMsg_spec:
  assumes "group_ok g" "l \<le> LOW_PRIORITY"
  shows "case pick (Suc l) (group_content g) of
      None \<Rightarrow> GetMsg g msg b l = Done (SOFTBUS_ERR, msg, False, g)
    | Some (x, c) \<Rightarrow> (\<exists>g'. GetMsg g msg b l =
          Done (SOFTBUS_OK, Some x, 30 \<le> pick_len (Suc l) (group_content g), g') \<and>
        group_ok g' \<and> group_content g' = c \<and> cq_addr g' = cq_addr g \<and> cq_pid g' = cq_pid g)"
  using get_msg_loop_spec [OF assms(1), of 0 "Suc l" msg b] assms(2)
  by (cases "pick (Suc l) (group_content g)") (auto simp: GetMsg_def simp del: pick.simps pick_len.simps)

lemma GetQueueLimit_valid: "0 \<le> i \<Longrightarrow> i < 3 \<Longrightarrow> GetQueueLimit i = 32"
  by (cases "i = 0"; cases "i = 1"; cases "i = 2") (auto simp: GetQueueLimit_def QUEUE_LIMIT_def)

subsection \<open>Waiting for room\<close>

lemma wait_no_wait:
  assumes "get st = Done (Some r)" "ring_inv r" "ring_count r < 30"
  shows "WaitQueueLength (Suc fuel) w k get 32 WAIT_QUEUE_BUFFER_PERIOD_LEN st = Done (Some (SOFTBUS_OK, st))"
proof -
  have "unat (of_nat (ring_count r) :: u32) = ring_count r"
    using ring_count_small [OF assms(2)] by (simp add: unat_of_nat)
  then have "(of_nat (ring_count r) :: u32) < 30" using assms(3) by (simp add: word_less_nat_alt)
  then show ?thesis using assms QueueCountGet_ring [OF assms(2), of 0] by simp
qed

lemma wait_waits:
  assumes "get st = Done (Some r)" "ring_inv r" "30 \<le> ring_count r"
    and "get_time w k = Some t" and "cond_wait w k = (\<lambda>d st. (s d st, f st))" 
    and "\<And>d. s d st = SOFTBUS_OK \<or> s d st = SOFTBUS_TIMOUT"
  shows "WaitQueueLength (Suc fuel) w k get 32 WAIT_QUEUE_BUFFER_PERIOD_LEN st =
    WaitQueueLength fuel w (Suc k) get 32 WAIT_QUEUE_BUFFER_PERIOD_LEN (f st)"
proof -
  have "unat (of_nat (ring_count r) :: u32) = ring_count r"
    using ring_count_small [OF assms(2)] by (simp add: unat_of_nat)
  then have n: "\<not> (of_nat (ring_count r) :: u32) < 30" using assms(3) by (simp add: word_less_nat_alt)
  obtain d where "ConnectSoftBusCondWait w k 1000 st = (s d st, f st)"
    using assms(4,5) by (cases t) (auto simp: ConnectSoftBusCondWait_def Let_def)
  then show ?thesis
    using assms(1,6) n QueueCountGet_ring [OF assms(2), of 0] by auto
qed

text \<open>
  The deadline of a timed wait is a normalised time (microseconds below one million)
  that lies exactly the requested number of milliseconds after the clock reading.
\<close>
theorem cond_wait_deadline:
  assumes "get_time w k = Some (sec, usec)" and "timeMillis \<noteq> 0"
  shows "\<exists>s u. ConnectSoftBusCondWait w k timeMillis st = cond_wait w k (Some (s, u)) st \<and>
           0 \<le> u \<and> u < 1000000 \<and> s * 1000000 + u = sec * 1000000 + usec + timeMillis * 1000"
proof (intro exI conjI)
  let ?t = "usec + timeMillis * 1000"
  show "ConnectSoftBusCondWait w k timeMillis st =
    cond_wait w k (Some (sec + ?t div 1000000, ?t mod 1000000)) st"
    using assms by (simp add: ConnectSoftBusCondWait_def)
  show "(sec + ?t div 1000000) * 1000000 + ?t mod 1000000 = sec * 1000000 + usec + timeMillis * 1000"
    using div_mult_mod_eq [of ?t 1000000] by (simp add: algebra_simps)
qed simp_all

theorem cond_wait_deadline_witness:
  "\<exists>s u. ConnectSoftBusCondWait \<lparr>get_time = (\<lambda>_. Some (5, 999999)), cond_wait = (\<lambda>_ d st. (0, d))\<rparr> 0 1000 None =
     (0, Some (s, u)) \<and> s * 1000000 + u = 6999999"
  using cond_wait_deadline [of "\<lparr>get_time = (\<lambda>_. Some (5, 999999)), cond_wait = (\<lambda>_ d st. (0, d))\<rparr>" 0 5 999999 1000 None]
  by auto

subsection \<open>Masking\<close>

lemma mask_range_nth:
  "i + n \<le> length s \<Longrightarrow> j < length s \<Longrightarrow>
   mask_range i n s ! j = (if i \<le> j \<and> j < i + n then CHR ''*'' else s ! j)"
  by (induction n arbitrary: i s) (auto simp: nth_list_update)

lemma length_mask_range [simp]: "length (mask_range i n s) = length s"
  by (induction n arbitrary: i s) auto

text \<open>
  The masked copy of a sensitive string keeps the first and the last third and shows an
  asterisk at every position in between; a buffer that is too small is left as it was.
\<close>
theorem sensitive_string_masked:
  assumes "securec e" and "length buf \<le> 0x7fffffff"
  shows "if length buf \<le> length str then ConvertAnonymizeSensitiveString e (Some buf) (Some str) = Some buf
         else \<exists>out. ConvertAnonymizeSensitiveString e (Some buf) (Some str) = Some out \<and>
                length out = length buf \<and> out ! length str = CHR 0x00 \<and>
                (\<forall>j < length str. out ! j =
                   (if length str div 3 \<le> j \<and> j < length str - length str div 3 then CHR ''*'' else str ! j))"
proof (cases "length buf \<le> length str")
  case True
  then show ?thesis by (simp add: ConvertAnonymizeSensitiveString_def)
next
  case False
  let ?n = "length str" and ?s = "str @ [CHR 0x00] @ drop (Suc (length str)) buf"
  have ok: "memcpy_ok e (length buf) (Suc ?n)"
    by (rule securec_memcpy) (use False assms in auto)
  let ?out = "mask_range (?n div 3) (?n - ?n div 3 - ?n div 3) ?s"
  have "ConvertAnonymizeSensitiveString e (Some buf) (Some str) = Some ?out"
    using False ok by (simp add: ConvertAnonymizeSensitiveString_def strcpy_s_def Let_def)
  moreover have "length ?out = length buf" using False by simp
  moreover have "?out ! ?n = CHR 0x00"
    using False by (subst mask_range_nth) (auto simp: nth_append)
  moreover have "?out ! j = (if ?n div 3 \<le> j \<and> j < ?n - ?n div 3 then CHR ''*'' else str ! j)" if "j < ?n" for j
    using False that by (subst mask_range_nth) (auto simp: nth_append)
  ultimately show ?thesis using False by auto
qed

theorem sensitive_string_masked_witness:
  "\<exists>out. ConvertAnonymizeSensitiveString ideal_env (Some (replicate 8 CHR 0x00)) (Some ''secret'') = Some out \<and>
     out ! 2 = CHR ''*'' \<and> out ! 3 = CHR ''*'' \<and> out ! 4 = CHR ''e''"
proof -
  obtain out where out: "ConvertAnonymizeSensitiveString ideal_env (Some (replicate 8 CHR 0x00)) (Some ''secret'') = Some out"
    "\<forall>j < 6. out ! j = (if 2 \<le> j \<and> j < 4 then CHR ''*'' else ''secret'' ! j)"
    using sensitive_string_masked [of ideal_env "replicate 8 CHR 0x00" "''secret''"] healthy_securec [OF healthy_ideal_env]
    by auto
  have "out ! 2 = CHR ''*''" "out ! 3 = CHR ''*''" "out ! 4 = CHR ''e''"
    using out(2) [rule_format, of 2] out(2) [rule_format, of 3] out(2) [rule_format, of 4] by simp_all
  with out(1) show ?thesis by blast
qed

end
