(* ===== verification/Send_Queue.thy ===== *)
theory Send_Queue
  imports Conn_Common
begin

text \<open>
  The send queues of the two Bluetooth transports,
  \<^verbatim>\<open>core/connection/ble/src/softbus_conn_ble_send_queue.c\<close> and
  \<^verbatim>\<open>core/connection/br/src/softbus_conn_br_send_queue.c\<close>: one group of three priority queues
  per sending process in a list served round robin, and one group for the bus itself. All
  functions run under one mutex; it is released only inside a condition wait, whose effect on
  the state is a parameter (what the other threads did meanwhile).
\<close>

subsection \<open>State\<close>

record SendQueueNode =
  sn_connectionId :: u32
  sn_pid :: int
  sn_flag :: int
  sn_module :: int
  sn_seq :: int
  sn_data :: bytes
  sn_hasFinishAction :: bool

record SendBrQueueNode =
  sb_connectionId :: u32
  sb_pid :: int
  sb_flag :: int
  sb_isInner :: bool
  sb_module :: int
  sb_seq :: int
  sb_data :: bytes

abbreviation (input) CONN_DEFAULT :: int where "CONN_DEFAULT \<equiv> 0"
abbreviation (input) CONN_LOW :: int where "CONN_LOW \<equiv> 1"
abbreviation (input) CONN_MIDDLE :: int where "CONN_MIDDLE \<equiv> 2"
abbreviation (input) CONN_HIGH :: int where "CONN_HIGH \<equiv> 3"

datatype wake = SendCond | SendWaitCond

text \<open>
  \<open>sq_list\<close> is the list of groups from its head, \<open>sq_inner\<close> the group of the bus
  (\<open>None\<close> before initialisation), \<open>sq_next\<close> the address the next group gets and
  \<open>sq_wakes\<close> the broadcasts made so far.
\<close>

record 'a send_state =
  sq_list :: "'a ConnectionQueue list"
  sq_inner :: "'a ConnectionQueue option"
  sq_next :: nat
  sq_wakes :: "wake list"

abbreviation (input) SIZEOF_CONNECTION_QUEUE :: nat where "SIZEOF_CONNECTION_QUEUE \<equiv> 48"

subsection \<open>Groups\<close>

fun create_queue_loop :: "env \<Rightarrow> nat \<Rightarrow> nat \<Rightarrow> nat \<Rightarrow> 'a LockFreeQueue option list \<Rightarrow> 'a LockFreeQueue option list option" where
  "create_queue_loop e k i 0 acc = Some acc"
| "create_queue_loop e k i (Suc n) acc =
     (case CreateQueue e (k + i) (GetQueueLimit (int i)) of
        None \<Rightarrow> None
      | Some q \<Rightarrow> create_queue_loop e k (Suc i) n (acc @ [Some q]))"

definition CreateBleQueue :: "env \<Rightarrow> nat \<Rightarrow> nat \<Rightarrow> int \<Rightarrow> 'a ConnectionQueue option" where
  "CreateBleQueue e k addr pid =
     (if \<not> SoftBusCalloc e k SIZEOF_CONNECTION_QUEUE then None
      else case create_queue_loop e (Suc k) 0 QUEUE_NUM_PER_PID [] of
             None \<Rightarrow> None
           | Some qs \<Rightarrow> Some \<lparr>cq_addr = addr, cq_pid = pid, cq_queue = qs\<rparr>)"

definition CreateBrQueue :: "env \<Rightarrow> nat \<Rightarrow> nat \<Rightarrow> int \<Rightarrow> 'a ConnectionQueue option" where
  "CreateBrQueue e k addr pid =
     (if \<not> SoftBusCalloc e k SIZEOF_CONNECTION_QUEUE then None
      else case create_queue_loop e (Suc k) 0 QUEUE_NUM_PER_PID [] of
             None \<Rightarrow> None
           | Some qs \<Rightarrow> Some \<lparr>cq_addr = addr, cq_pid = pid, cq_queue = qs\<rparr>)"

definition GetPriority :: "int \<Rightarrow> nat" where
  "GetPriority flag =
     (if flag = CONN_HIGH then HIGH_PRIORITY
      else if flag = CONN_MIDDLE then MIDDLE_PRIORITY
      else LOW_PRIORITY)"

text \<open>
  A pointer to queue \<open>p\<close> of the inner group, or of the group at an address: reading through
  it after the group was destroyed has no meaning.
\<close>

definition inner_queue :: "nat \<Rightarrow> 'a send_state \<Rightarrow> 'a LockFreeQueue option outcome" where
  "inner_queue p st =
     (case sq_inner st of
        None \<Rightarrow> Undef
      | Some g \<Rightarrow> if p < length (cq_queue g) then Done (cq_queue g ! p) else Undef)"

definition put_inner :: "nat \<Rightarrow> 'a LockFreeQueue option \<Rightarrow> 'a send_state \<Rightarrow> 'a send_state" where
  "put_inner p q st = st\<lparr>sq_inner := map_option (\<lambda>g. g\<lparr>cq_queue := (cq_queue g)[p := q]\<rparr>) (sq_inner st)\<rparr>"

definition group_queue :: "nat \<Rightarrow> nat \<Rightarrow> 'a send_state \<Rightarrow> 'a LockFreeQueue option outcome" where
  "group_queue addr p st =
     (case find (\<lambda>g. cq_addr g = addr) (sq_list st) of
        None \<Rightarrow> Undef
      | Some g \<Rightarrow> if p < length (cq_queue g) then Done (cq_queue g ! p) else Undef)"

definition put_group :: "nat \<Rightarrow> nat \<Rightarrow> 'a LockFreeQueue option \<Rightarrow> 'a send_state \<Rightarrow> 'a send_state" where
  "put_group addr p q st =
     st\<lparr>sq_list := map (\<lambda>g. if cq_addr g = addr then g\<lparr>cq_queue := (cq_queue g)[p := q]\<rparr> else g) (sq_list st)\<rparr>"

text \<open>The search for the queue of a process: a null queue pointer counts as not found.\<close>

definition find_group :: "int \<Rightarrow> nat \<Rightarrow> 'a send_state \<Rightarrow> 'a ConnectionQueue option" where
  "find_group pid p st =
     (case find (\<lambda>item. cq_pid item = pid) (sq_list st) of
        None \<Rightarrow> None
      | Some item \<Rightarrow> (case cq_queue item ! p of None \<Rightarrow> None | Some _ \<Rightarrow> Some item))"

subsection \<open>Enqueue\<close>

text \<open>The common end of an enqueue: the broadcast to the sender, then the unlock.\<close>

definition end_enqueue :: "bool \<Rightarrow> status \<Rightarrow> 'a send_state \<Rightarrow> (status \<times> 'a send_state) option outcome" where
  "end_enqueue isListEmpty ret st =
     Done (Some (ret, if isListEmpty then st\<lparr>sq_wakes := sq_wakes st @ [SendCond]\<rparr> else st))"

text \<open>\<open>None\<close> inside the outcome: still waiting for room after \<open>fuel\<close> waits.\<close>

definition ConnBleEnqueueNonBlock ::
  "env \<Rightarrow> SendQueueNode send_state waiter \<Rightarrow> nat \<Rightarrow> SendQueueNode option \<Rightarrow> SendQueueNode send_state \<Rightarrow>
   (status \<times> SendQueueNode send_state) option outcome" where
  "ConnBleEnqueueNonBlock e w fuel msg st =
     (case msg of
        None \<Rightarrow> Done (Some (SOFTBUS_INVALID_PARAM, st))
      | Some queueNode \<Rightarrow>
          let priority = GetPriority (sn_flag queueNode);
              limit = GetQueueLimit (int priority)
          in if \<not> lock_ok e 0 then Done (Some (SOFTBUS_LOCK_ERR, st))
          else if sn_pid queueNode = 0 then
            bind_outcome (WaitQueueLength fuel w 0 (inner_queue priority) limit WAIT_QUEUE_BUFFER_PERIOD_LEN st) (\<lambda>res.
              case res of
                None \<Rightarrow> Done None
              | Some (ret, st) \<Rightarrow>
                  if ret = SOFTBUS_OK then
                    bind_outcome (inner_queue priority st) (\<lambda>q.
                    bind_outcome (QueueMultiProducerEnqueue q (Some queueNode)) (\<lambda>(ret, q').
                      end_enqueue True ret (put_inner priority q' st)))
                  else end_enqueue True ret st)
          else
            let isListEmpty = (sq_list st = [])
            in case find_group (sn_pid queueNode) priority st of
                 None \<Rightarrow>
                   (case CreateBleQueue e 0 (sq_next st) (sn_pid queueNode) of
                      None \<Rightarrow> end_enqueue isListEmpty SOFTBUS_ERR st
                    | Some newQueue \<Rightarrow>
                        let st = st\<lparr>sq_list := sq_list st @ [newQueue], sq_next := Suc (sq_next st)\<rparr>
                        in bind_outcome (group_queue (cq_addr newQueue) priority st) (\<lambda>q.
                           bind_outcome (QueueMultiProducerEnqueue q (Some queueNode)) (\<lambda>(ret, q').
                             end_enqueue isListEmpty ret (put_group (cq_addr newQueue) priority q' st))))
               | Some item \<Rightarrow>
                   bind_outcome (WaitQueueLength fuel w 0 (group_queue (cq_addr item) priority) limit
                     WAIT_QUEUE_BUFFER_PERIOD_LEN st) (\<lambda>res.
                     case res of
                       None \<Rightarrow> Done None
                     | Some (ret, st) \<Rightarrow>
                         if ret \<noteq> SOFTBUS_OK then end_enqueue isListEmpty ret st
                         else
                           bind_outcome (group_queue (cq_addr item) priority st) (\<lambda>q.
                           bind_outcome (QueueMultiProducerEnqueue q (Some queueNode)) (\<lambda>(ret, q').
                             end_enqueue isListEmpty ret (put_group (cq_addr item) priority q' st)))))"

definition ConnBrEnqueueNonBlock ::
  "env \<Rightarrow> SendBrQueueNode send_state waiter \<Rightarrow> nat \<Rightarrow> SendBrQueueNode option \<Rightarrow> SendBrQueueNode send_state \<Rightarrow>
   (status \<times> SendBrQueueNode send_state) option outcome" where
  "ConnBrEnqueueNonBlock e w fuel msg st =
     (case msg of
        None \<Rightarrow> Done (Some (SOFTBUS_INVALID_PARAM, st))
      | Some queueNode \<Rightarrow>
          let priority = GetPriority (sb_flag queueNode);
              limit = GetQueueLimit (int priority)
          in if \<not> lock_ok e 0 then Done (Some (SOFTBUS_LOCK_ERR, st))
          else if sb_pid queueNode = 0 \<and> sb_isInner queueNode then
            bind_outcome (WaitQueueLength fuel w 0 (inner_queue priority) limit WAIT_QUEUE_BUFFER_PERIOD_LEN st) (\<lambda>res.
              case res of
                None \<Rightarrow> Done None
              | Some (ret, st) \<Rightarrow>
                  if ret = SOFTBUS_OK then
                    bind_outcome (inner_queue priority st) (\<lambda>q.
                    bind_outcome (QueueMultiProducerEnqueue q (Some queueNode)) (\<lambda>(ret, q').
                      end_enqueue True ret (put_inner priority q' st)))
                  else end_enqueue True ret st)
          else
            let isListEmpty = (if sq_list st \<noteq> [] then False else True)
            in case find_group (sb_pid queueNode) priority st of
                 None \<Rightarrow>
                   (case CreateBrQueue e 0 (sq_next st) (sb_pid queueNode) of
                      None \<Rightarrow> end_enqueue isListEmpty SOFTBUS_ERR st
                    | Some newQueue \<Rightarrow>
                        let st = st\<lparr>sq_list := sq_list st @ [newQueue], sq_next := Suc (sq_next st)\<rparr>
                        in bind_outcome (group_queue (cq_addr newQueue) priority st) (\<lambda>q.
                           bind_outcome (QueueMultiProducerEnqueue q (Some queueNode)) (\<lambda>(r, q').
                             let st = put_group (cq_addr newQueue) priority q' st
                             in if r \<noteq> 0 then end_enqueue isListEmpty SOFTBUS_ERR st
                                else end_enqueue isListEmpty SOFTBUS_OK st)))
               | Some item \<Rightarrow>
                   bind_outcome (WaitQueueLength fuel w 0 (group_queue (cq_addr item) priority) limit
                     WAIT_QUEUE_BUFFER_PERIOD_LEN st) (\<lambda>res.
                     case res of
                       None \<Rightarrow> Done None
                     | Some (ret, st) \<Rightarrow>
                         if ret \<noteq> SOFTBUS_OK then end_enqueue isListEmpty ret st
                         else
                           bind_outcome (group_queue (cq_addr item) priority st) (\<lambda>q.
                           bind_outcome (QueueMultiProducerEnqueue q (Some queueNode)) (\<lambda>(r, q').
                             let st = put_group (cq_addr item) priority q' st
                             in if r \<noteq> 0 then end_enqueue isListEmpty ret st
                                else end_enqueue isListEmpty SOFTBUS_OK st))))"

subsection \<open>Dequeue\<close>

text \<open>
  The walk over the list: each group is unlinked; one that has a message goes to the tail, one
  that has none is destroyed.
\<close>

fun scan_groups ::
  "'a ConnectionQueue list \<Rightarrow> 'a option \<Rightarrow> bool \<Rightarrow> (bool \<times> 'a option \<times> bool \<times> 'a ConnectionQueue list) outcome" where
  "scan_groups [] msg isFull = Done (False, msg, isFull, [])"
| "scan_groups (item # rest) msg isFull =
     bind_outcome (GetMsg item msg isFull LOW_PRIORITY) (\<lambda>(r, msg, isFull, item').
       if r = SOFTBUS_OK then Done (True, msg, isFull, rest @ [item'])
       else scan_groups rest msg isFull)"

text \<open>One pass of the loop up to the wait: whether a message was found.\<close>

definition dequeue_pass ::
  "'a send_state \<Rightarrow> 'a option \<Rightarrow> bool \<Rightarrow> (bool \<times> 'a option \<times> bool \<times> 'a send_state) outcome" where
  "dequeue_pass st msg isFull =
     (case sq_inner st of
        None \<Rightarrow> Undef
      | Some inner \<Rightarrow>
          bind_outcome (GetMsg inner msg isFull MIDDLE_PRIORITY) (\<lambda>(r, msg, isFull, inner).
            let st = st\<lparr>sq_inner := Some inner\<rparr>
            in if r = SOFTBUS_OK then Done (True, msg, isFull, st)
               else bind_outcome (scan_groups (sq_list st) msg isFull) (\<lambda>(found, msg, isFull, l).
                 let st = st\<lparr>sq_list := l\<rparr>
                 in if found then Done (True, msg, isFull, st)
                    else bind_outcome (GetMsg inner msg isFull LOW_PRIORITY) (\<lambda>(r, msg, isFull, inner).
                      Done (r = SOFTBUS_OK, msg, isFull, st\<lparr>sq_inner := Some inner\<rparr>)))))"

definition end_dequeue :: "status \<Rightarrow> 'a option \<Rightarrow> bool \<Rightarrow> 'a send_state \<Rightarrow> (status \<times> 'a option \<times> 'a send_state) option outcome" where
  "end_dequeue status msg isFull st =
     Done (Some (status, msg, if isFull then st\<lparr>sq_wakes := sq_wakes st @ [SendWaitCond]\<rparr> else st))"

fun dequeue_loop ::
  "nat \<Rightarrow> 'a send_state waiter \<Rightarrow> nat \<Rightarrow> 'a option \<Rightarrow> bool \<Rightarrow> 'a send_state \<Rightarrow>
   (status \<times> 'a option \<times> 'a send_state) option outcome" where
  "dequeue_loop 0 w k msg isFull st = Done None"
| "dequeue_loop (Suc fuel) w k msg isFull st =
     bind_outcome (dequeue_pass st msg isFull) (\<lambda>(found, msg, isFull, st).
       if found then end_dequeue SOFTBUS_OK msg isFull st
       else
         let (r, st) = cond_wait w k None st
         in if r \<noteq> SOFTBUS_OK then end_dequeue SOFTBUS_ERR msg isFull st
            else dequeue_loop fuel w (Suc k) msg isFull st)"

definition ConnBleDequeueBlock ::
  "env \<Rightarrow> SendQueueNode send_state waiter \<Rightarrow> nat \<Rightarrow> SendQueueNode option option \<Rightarrow> SendQueueNode send_state \<Rightarrow>
   (status \<times> SendQueueNode option option \<times> SendQueueNode send_state) option outcome" where
  "ConnBleDequeueBlock e w fuel msg st =
     (case msg of
        None \<Rightarrow> Done (Some (SOFTBUS_INVALID_PARAM, None, st))
      | Some m \<Rightarrow>
          if \<not> lock_ok e 0 then Done (Some (SOFTBUS_LOCK_ERR, Some m, st))
          else bind_outcome (dequeue_loop fuel w 0 m False st) (\<lambda>res.
                 Done (map_option (\<lambda>(r, m, st). (r, Some m, st)) res)))"

definition ConnBrDequeueBlock ::
  "env \<Rightarrow> SendBrQueueNode send_state waiter \<Rightarrow> nat \<Rightarrow> SendBrQueueNode option option \<Rightarrow> SendBrQueueNode send_state \<Rightarrow>
   (status \<times> SendBrQueueNode option option \<times> SendBrQueueNode send_state) option outcome" where
  "ConnBrDequeueBlock e w fuel msg st =
     (case msg of
        None \<Rightarrow> Done (Some (SOFTBUS_INVALID_PARAM, None, st))
      | Some m \<Rightarrow>
          if \<not> lock_ok e 0 then Done (Some (SOFTBUS_LOCK_ERR, Some m, st))
          else bind_outcome (dequeue_loop fuel w 0 m False st) (\<lambda>res.
                 Done (map_option (\<lambda>(r, m, st). (r, Some m, st)) res)))"

fun inner_empty_loop :: "nat \<Rightarrow> nat \<Rightarrow> 'a ConnectionQueue \<Rightarrow> bool outcome" where
  "inner_empty_loop i 0 g = Done True"
| "inner_empty_loop i (Suc n) g =
     (if length (cq_queue g) \<le> i then Undef
      else
        let (r, queueCount) = QueueCountGet (cq_queue g ! i) (Some 0)
        in if r \<noteq> 0 then inner_empty_loop (Suc i) n g
           else if the queueCount > 0 then Done False
           else inner_empty_loop (Suc i) n g)"

definition ConnBrIsQueueEmpty :: "SendBrQueueNode send_state \<Rightarrow> bool outcome" where
  "ConnBrIsQueueEmpty st =
     (case sq_inner st of
        None \<Rightarrow> Undef
      | Some g \<Rightarrow>
          bind_outcome (inner_empty_loop 0 QUEUE_NUM_PER_PID g) (\<lambda>empty.
            if \<not> empty then Done False else Done (sq_list st = [])))"

subsection \<open>Initialisation\<close>

datatype sync_obj = QueueLock | SendWait | Send

text \<open>The results of the three initialisers, and the objects left initialised.\<close>

definition ConnBleInitSendQueue ::
  "env \<Rightarrow> (sync_obj \<Rightarrow> bool) \<Rightarrow> SendQueueNode send_state \<Rightarrow> status \<times> sync_obj list \<times> SendQueueNode send_state" where
  "ConnBleInitSendQueue e initOk st =
     (if \<not> initOk QueueLock then (SOFTBUS_ERR, [], st)
      else if \<not> initOk SendWait then (SOFTBUS_ERR, [], st)
      else if \<not> initOk Send then (SOFTBUS_ERR, [], st)
      else case CreateBleQueue e 0 (sq_next st) 0 of
             None \<Rightarrow> (SOFTBUS_ERR, [], st\<lparr>sq_inner := None\<rparr>)
           | Some g \<Rightarrow> (SOFTBUS_OK, [QueueLock, SendWait, Send],
               st\<lparr>sq_inner := Some g, sq_next := Suc (sq_next st)\<rparr>))"

definition ConnBleDeinitSendQueue :: "SendQueueNode send_state \<Rightarrow> sync_obj list \<times> SendQueueNode send_state" where
  "ConnBleDeinitSendQueue st = ([], st\<lparr>sq_inner := None\<rparr>)"

definition ConnBrInnerQueueInit ::
  "env \<Rightarrow> (sync_obj \<Rightarrow> bool) \<Rightarrow> SendBrQueueNode send_state \<Rightarrow> status \<times> sync_obj list \<times> SendBrQueueNode send_state" where
  "ConnBrInnerQueueInit e initOk st =
     (if \<not> initOk QueueLock then (SOFTBUS_LOCK_ERR, [], st)
      else if \<not> initOk SendWait then (SOFTBUS_ERR, [], st)
      else if \<not> initOk Send then (SOFTBUS_ERR, [], st)
      else case CreateBrQueue e 0 (sq_next st) 0 of
             None \<Rightarrow> (SOFTBUS_ERR, [], st\<lparr>sq_inner := None\<rparr>)
           | Some g \<Rightarrow> (SOFTBUS_OK, [QueueLock, SendWait, Send],
               st\<lparr>sq_inner := Some g, sq_next := Suc (sq_next st)\<rparr>))"

definition ConnBrInnerQueueDeinit :: "SendBrQueueNode send_state \<Rightarrow> sync_obj list \<times> SendBrQueueNode send_state" where
  "ConnBrInnerQueueDeinit st = ([], st\<lparr>sq_inner := None\<rparr>)"

subsection \<open>Invariant and abstract view\<close>

definition send_ok :: "'a send_state \<Rightarrow> bool" where
  "send_ok st \<longleftrightarrow>
     (\<exists>g. sq_inner st = Some g \<and> group_ok g) \<and> (\<forall>g \<in> set (sq_list st). group_ok g) \<and>
     distinct (map cq_addr (sq_list st)) \<and> (\<forall>g \<in> set (sq_list st). cq_addr g < sq_next st) \<and>
     distinct (map cq_pid (sq_list st))"

type_synonym 'a groups = "(int \<times> 'a list list) list"

definition inner_view :: "'a send_state \<Rightarrow> 'a list list" where
  "inner_view st = group_content (the (sq_inner st))"

definition list_view :: "'a ConnectionQueue list \<Rightarrow> 'a groups" where
  "list_view l = map (\<lambda>g. (cq_pid g, group_content g)) l"

text \<open>
  The order of service: the bus's high and middle queues, then the first process with a message
  (which then goes last; processes without messages leave), then the bus's low queue.
\<close>

fun serve :: "'a groups \<Rightarrow> ('a \<times> 'a groups) option" where
  "serve [] = None"
| "serve ((pid, qs) # rest) =
     (case pick 3 qs of Some (x, qs') \<Rightarrow> Some (x, rest @ [(pid, qs')]) | None \<Rightarrow> serve rest)"

definition next_message :: "'a list list \<Rightarrow> 'a groups \<Rightarrow> ('a \<times> 'a list list \<times> 'a groups) option" where
  "next_message inner gs =
     (case pick 2 inner of
        Some (x, inner') \<Rightarrow> Some (x, inner', gs)
      | None \<Rightarrow>
          (case serve gs of
             Some (x, gs') \<Rightarrow> Some (x, inner, gs')
           | None \<Rightarrow> (case pick 3 inner of Some (x, inner') \<Rightarrow> Some (x, inner', []) | None \<Rightarrow> None)))"

definition messages :: "'a list list \<Rightarrow> 'a groups \<Rightarrow> 'a multiset" where
  "messages inner gs = mset (concat inner) + mset (concat (concat (map snd gs)))"

subsection \<open>Dequeue refines the order of service\<close>

lemma GetMsg_low:
  "group_ok g \<Longrightarrow> case pick 3 (group_content g) of
      None \<Rightarrow> GetMsg g msg b 2 = Done (SOFTBUS_ERR, msg, False, g)
    | Some (x, c) \<Rightarrow> (\<exists>g'. GetMsg g msg b 2 = Done (SOFTBUS_OK, Some x, 30 \<le> pick_len 3 (group_content g), g') \<and>
        group_ok g' \<and> group_content g' = c \<and> cq_addr g' = cq_addr g \<and> cq_pid g' = cq_pid g)"
  using GetMsg_spec [of g 2 msg b] unfolding Suc_numeral add_num_simps by simp

lemma GetMsg_middle:
  "group_ok g \<Longrightarrow> case pick 2 (group_content g) of
      None \<Rightarrow> GetMsg g msg b 1 = Done (SOFTBUS_ERR, msg, False, g)
    | Some (x, c) \<Rightarrow> (\<exists>g'. GetMsg g msg b 1 = Done (SOFTBUS_OK, Some x, 30 \<le> pick_len 2 (group_content g), g') \<and>
        group_ok g' \<and> group_content g' = c \<and> cq_addr g' = cq_addr g \<and> cq_pid g' = cq_pid g)"
  using GetMsg_spec [of g 1 msg b] unfolding Suc_1 by simp

lemma submset_add: "A \<subseteq># B \<Longrightarrow> A \<subseteq># add_mset x B"
  by (simp add: subseteq_mset_def le_SucI)

lemma submset_distinct: "mset xs \<subseteq># mset ys \<Longrightarrow> distinct ys \<Longrightarrow> distinct xs"
proof -
  assume sub: "mset xs \<subseteq># mset ys" and d: "distinct ys"
  have "count (mset xs) a = (if a \<in> set xs then 1 else 0)" for a
  proof -
    have "count (mset xs) a \<le> 1"
      using sub d by (metis (no_types) distinct_count_atmost_1 le_trans mset_subset_eq_count order_refl zero_le_one)
    moreover have "a \<in> set xs \<longleftrightarrow> 0 < count (mset xs) a" by simp
    ultimately show ?thesis by (metis One_nat_def le_antisym Suc_leI not_gr_zero)
  qed
  then show ?thesis by (simp add: distinct_count_atmost_1)
qed

lemma scan_groups_spec:
  "\<forall>g \<in> set l. group_ok g \<Longrightarrow>
   case serve (list_view l) of
     None \<Rightarrow> scan_groups l msg b = Done (False, msg, (if l = [] then b else False), [])
   | Some (x, gs) \<Rightarrow> (\<exists>f l'. scan_groups l msg b = Done (True, Some x, f, l') \<and>
       (\<forall>g \<in> set l'. group_ok g) \<and> list_view l' = gs \<and>
       mset (map cq_addr l') \<subseteq># mset (map cq_addr l) \<and> mset (map cq_pid l') \<subseteq># mset (map cq_pid l))"
proof (induction l arbitrary: b)
  case (Cons item rest)
  have spec: "case pick 3 (group_content item) of
      None \<Rightarrow> GetMsg item msg b 2 = Done (SOFTBUS_ERR, msg, False, item)
    | Some (x, c) \<Rightarrow> (\<exists>g'. GetMsg item msg b 2 =
          Done (SOFTBUS_OK, Some x, 30 \<le> pick_len 3 (group_content item), g') \<and>
        group_ok g' \<and> group_content g' = c \<and> cq_addr g' = cq_addr item \<and> cq_pid g' = cq_pid item)"
    by (rule GetMsg_low) (use Cons.prems in simp)
  show ?case
  proof (cases "pick 3 (group_content item)")
    case None
    then have step: "scan_groups (item # rest) msg b = scan_groups rest msg False" using spec by simp
    have srv: "serve (list_view (item # rest)) = serve (list_view rest)" using None by (simp add: list_view_def)
    show ?thesis
    proof (cases "serve (list_view rest)")
      case None
      then show ?thesis using step srv Cons by simp
    next
      case (Some r)
      obtain x gs where r: "r = (x, gs)" by (cases r)
      obtain f l' where l': "scan_groups rest msg False = Done (True, Some x, f, l')"
         "\<forall>g \<in> set l'. group_ok g" "list_view l' = gs"
         "mset (map cq_addr l') \<subseteq># mset (map cq_addr rest)" "mset (map cq_pid l') \<subseteq># mset (map cq_pid rest)"
        using Cons.IH [of False] Cons.prems Some r by auto
      have "mset (map cq_addr l') \<subseteq># mset (map cq_addr (item # rest))"
        "mset (map cq_pid l') \<subseteq># mset (map cq_pid (item # rest))"
        using submset_add [OF l'(4), of "cq_addr item"] submset_add [OF l'(5), of "cq_pid item"] by simp_all
      then show ?thesis unfolding step srv Some r using l' by simp
    qed
  next
    case (Some r)
    obtain x c where r: "r = (x, c)" by (cases r)
    obtain g' where g': "GetMsg item msg b 2 = Done (SOFTBUS_OK, Some x, 30 \<le> pick_len 3 (group_content item), g')"
      "group_ok g'" "group_content g' = c" "cq_addr g' = cq_addr item" "cq_pid g' = cq_pid item"
      using spec Some r by auto
    have "serve (list_view (item # rest)) = Some (x, list_view (rest @ [g']))"
      using Some r g' by (simp add: list_view_def)
    moreover have "scan_groups (item # rest) msg b =
      Done (True, Some x, 30 \<le> pick_len 3 (group_content item), rest @ [g'])" using g' by simp
    ultimately show ?thesis using g' Cons.prems by simp
  qed
qed (simp add: list_view_def)

lemma dequeue_pass_spec:
  assumes "send_ok st"
  shows "case next_message (inner_view st) (list_view (sq_list st)) of
      None \<Rightarrow> dequeue_pass st msg b = Done (False, msg, False, st\<lparr>sq_list := []\<rparr>)
    | Some (x, inner, gs) \<Rightarrow> (\<exists>f st'. dequeue_pass st msg b = Done (True, Some x, f, st') \<and>
        send_ok st' \<and> inner_view st' = inner \<and> list_view (sq_list st') = gs \<and>
        sq_wakes st' = sq_wakes st \<and> sq_next st' = sq_next st)"
proof -
  obtain g where g: "sq_inner st = Some g" "group_ok g" using assms by (auto simp: send_ok_def)
  have l: "\<forall>h \<in> set (sq_list st). group_ok h" using assms by (simp add: send_ok_def)
  have iv: "inner_view st = group_content g" by (simp add: inner_view_def g)
  have same: "st\<lparr>sq_inner := Some g\<rparr> = st" using g(1) by simp
  note mid = GetMsg_middle [OF g(2), of msg b]
  note low = GetMsg_low [OF g(2), of msg]
  note scan = scan_groups_spec [OF l, of msg False]
  show ?thesis
  proof (cases "pick 2 (group_content g)")
    case (Some r)
    obtain x c where r: "r = (x, c)" by (cases r)
    obtain g' where g': "GetMsg g msg b 1 = Done (SOFTBUS_OK, Some x, 30 \<le> pick_len 2 (group_content g), g')"
      "group_ok g'" "group_content g' = c" using mid Some r by auto
    have "send_ok (st\<lparr>sq_inner := Some g'\<rparr>)" using assms g' by (simp add: send_ok_def)
    then show ?thesis using Some r g g' iv
      by (simp add: next_message_def dequeue_pass_def inner_view_def)
  next
    case None
    then have m: "GetMsg g msg b 1 = Done (SOFTBUS_ERR, msg, False, g)" using mid by simp
    show ?thesis
    proof (cases "serve (list_view (sq_list st))")
      case (Some r)
      obtain x gs where r: "r = (x, gs)" by (cases r)
      obtain f l' where l': "scan_groups (sq_list st) msg False = Done (True, Some x, f, l')"
        "\<forall>h \<in> set l'. group_ok h" "list_view l' = gs"
        "mset (map cq_addr l') \<subseteq># mset (map cq_addr (sq_list st))"
        "mset (map cq_pid l') \<subseteq># mset (map cq_pid (sq_list st))" using scan Some r by auto
      have "set (map cq_addr l') \<subseteq> set (map cq_addr (sq_list st))"
        using set_mset_mono [OF l'(4)] by (simp only: set_mset_mset)
      then have "\<forall>h \<in> set l'. cq_addr h < sq_next st" using assms by (auto simp: send_ok_def)
      then have "send_ok (st\<lparr>sq_inner := Some g, sq_list := l'\<rparr>)"
        using assms g l' submset_distinct [OF l'(4)] submset_distinct [OF l'(5)] by (simp add: send_ok_def)
      then show ?thesis using None Some r g m l' iv
        by (simp add: next_message_def dequeue_pass_def inner_view_def)
    next
      case srv: None
      then have sc: "scan_groups (sq_list st) msg False = Done (False, msg, False, [])"
        using scan by (auto split: if_splits)
      have ok: "send_ok (st\<lparr>sq_list := []\<rparr>)" using assms by (simp add: send_ok_def)
      show ?thesis
      proof (cases "pick 3 (group_content g)")
        case p: None
        then have "GetMsg g msg False 2 = Done (SOFTBUS_ERR, msg, False, g)" using low [of False] by simp
        then show ?thesis using None srv p g m sc same iv
          by (simp add: next_message_def dequeue_pass_def)
      next
        case p: (Some r)
        obtain x c where r: "r = (x, c)" by (cases r)
        obtain g' where g': "GetMsg g msg False 2 = Done (SOFTBUS_OK, Some x, 30 \<le> pick_len 3 (group_content g), g')"
          "group_ok g'" "group_content g' = c" using low [of False] p r by auto
        have "send_ok (st\<lparr>sq_list := [], sq_inner := Some g'\<rparr>)" using ok g' by (simp add: send_ok_def)
        then show ?thesis using None srv p r g m sc g' iv
          by (simp add: next_message_def dequeue_pass_def inner_view_def list_view_def)
      qed
    qed
  qed
qed

subsection \<open>No message is lost or invented\<close>

lemma pick_mset: "pick n qs = Some (x, qs') \<Longrightarrow> mset (concat qs) = add_mset x (mset (concat qs'))"
  by (induction n qs arbitrary: x qs' rule: pick.induct) auto

lemma pick_None: "pick n qs = None \<Longrightarrow> length qs \<le> n \<Longrightarrow> concat qs = []"
  by (induction n qs rule: pick.induct) auto

lemma pick_length: "pick n qs = Some (x, qs') \<Longrightarrow> length qs' = length qs"
  by (induction n qs arbitrary: x qs' rule: pick.induct) auto

lemma serve_mset:
  "\<lbrakk>\<forall>g \<in> set gs. length (snd g) \<le> 3; serve gs = Some (x, gs')\<rbrakk> \<Longrightarrow>
   mset (concat (concat (map snd gs))) = add_mset x (mset (concat (concat (map snd gs'))))"
  by (induction gs rule: serve.induct) (auto dest: pick_None pick_mset split: option.splits)

lemma serve_None:
  "\<lbrakk>\<forall>g \<in> set gs. length (snd g) \<le> 3; serve gs = None\<rbrakk> \<Longrightarrow> concat (concat (map snd gs)) = []"
proof (induction gs rule: serve.induct)
  case (2 pid qs rest)
  then show ?case using pick_None [of 3 qs] by (auto split: option.splits)
qed simp

lemma next_message_mset:
  assumes "length inner \<le> 3" "\<forall>g \<in> set gs. length (snd g) \<le> 3" "next_message inner gs = Some (x, inner', gs')"
  shows "messages inner gs = add_mset x (messages inner' gs')"
  using assms serve_mset [OF assms(2)] serve_None [OF assms(2)] pick_mset
  unfolding next_message_def messages_def
  by (auto split: option.splits dest!: pick_mset)

lemma next_message_None:
  assumes "length inner \<le> 3" "\<forall>g \<in> set gs. length (snd g) \<le> 3"
  shows "next_message inner gs = None \<longleftrightarrow> messages inner gs = {#}"
proof
  assume "next_message inner gs = None"
  then have "serve gs = None" "pick 3 inner = None" by (auto simp: next_message_def split: option.splits)
  then show "messages inner gs = {#}"
    using serve_None [OF assms(2)] pick_None [OF _ assms(1)] by (simp add: messages_def)
next
  assume e: "messages inner gs = {#}"
  show "next_message inner gs = None"
  proof (cases "next_message inner gs")
    case (Some r)
    then show ?thesis using next_message_mset [OF assms] e by (cases r) auto
  qed
qed

subsection \<open>Enqueue appends to one queue\<close>

lemma multi_enqueue_ok:
  assumes "ring_inv r" "ring_count r < ring_cap r"
  shows "\<exists>r'. QueueMultiProducerEnqueue (Some r) (Some x) = Done (SOFTBUS_OK, Some r') \<and>
           ring_inv r' \<and> ring_abs r' = ring_abs r @ [x] \<and> ring_cap r' = ring_cap r"
proof -
  have "qhead (producer r) = qtail (producer r)" using assms(1) by (simp add: ring_inv_def)
  then show ?thesis using enqueue_ok [OF assms, of x] multi_enqueue_alone [of r x] by simp
qed

definition append_at :: "nat \<Rightarrow> 'a \<Rightarrow> 'a list list \<Rightarrow> 'a list list" where
  "append_at p x c = c[p := c ! p @ [x]]"

definition add_message :: "int \<Rightarrow> nat \<Rightarrow> 'a \<Rightarrow> 'a groups \<Rightarrow> 'a groups" where
  "add_message pid p x gs =
     (if pid \<in> fst ` set gs then map (\<lambda>(q, c). (q, if q = pid then append_at p x c else c)) gs
      else gs @ [(pid, append_at p x [[], [], []])])"

text \<open>Appending to a queue of a well-formed group that has room.\<close>

lemma group_append:
  assumes "group_ok g" "p < 3" "length (group_content g ! p) < 30"
  shows "\<exists>r r'. cq_queue g ! p = Some r \<and> ring_inv r \<and> ring_count r < 30 \<and>
    QueueMultiProducerEnqueue (Some r) (Some x) = Done (SOFTBUS_OK, Some r') \<and>
    group_ok (g\<lparr>cq_queue := (cq_queue g)[p := Some r']\<rparr>) \<and>
    group_content (g\<lparr>cq_queue := (cq_queue g)[p := Some r']\<rparr>) = append_at p x (group_content g)"
proof -
  obtain r where r: "cq_queue g ! p = Some r" "ring_inv r" "ring_cap r = 31"
    using group_ok_nth [OF assms(1,2)] .
  have len: "length (cq_queue g) = 3" using assms(1) by (simp add: group_ok_def)
  then have c: "group_content g ! p = ring_abs r" using r(1) assms(2) by (simp add: group_content_def)
  then have n: "ring_count r < 30" using assms(3) length_ring_abs [of r] by simp
  obtain r' where r': "QueueMultiProducerEnqueue (Some r) (Some x) = Done (SOFTBUS_OK, Some r')"
    "ring_inv r'" "ring_abs r' = ring_abs r @ [x]" "ring_cap r' = 31"
    using multi_enqueue_ok [OF r(2), of x] n r(3) by auto
  have "group_content (g\<lparr>cq_queue := (cq_queue g)[p := Some r']\<rparr>) = append_at p x (group_content g)"
    using group_content_update [of g p r'] r'(3) c by (simp add: append_at_def)
  then show ?thesis using r n r' group_ok_update [OF assms(1) r'(2,4), of p] by blast
qed

lemma create_group_ok:
  assumes "healthy e"
  shows "\<exists>g. CreateBleQueue e k addr pid = Some g \<and> CreateBrQueue e k addr pid = Some g \<and>
           group_ok g \<and> group_content g = [[], [], []] \<and> cq_addr g = addr \<and> cq_pid g = pid"
proof -
  have q: "\<exists>q :: 'a LockFreeQueue. CreateQueue e j (GetQueueLimit (int i)) = Some q \<and>
      ring_inv q \<and> ring_abs q = [] \<and> ring_cap q = 31" if "i < 3" for i j
    using create_queue_ring [OF assms, of 5 j] that by (simp add: GetQueueLimit_valid)
  obtain q0 q1 q2 :: "'a LockFreeQueue" where
    "CreateQueue e (Suc k + 0) (GetQueueLimit (int 0)) = Some q0" "ring_inv q0" "ring_abs q0 = []" "ring_cap q0 = 31"
    "CreateQueue e (Suc k + 1) (GetQueueLimit (int 1)) = Some q1" "ring_inv q1" "ring_abs q1 = []" "ring_cap q1 = 31"
    "CreateQueue e (Suc k + 2) (GetQueueLimit (int 2)) = Some q2" "ring_inv q2" "ring_abs q2 = []" "ring_cap q2 = 31"
    using q [of 0 "Suc k + 0"] q [of 1 "Suc k + 1"] q [of 2 "Suc k + 2"] by (auto simp del: of_nat_0 of_nat_1 of_nat_numeral)
  moreover have "SoftBusCalloc e k 48" using healthy_SoftBusCalloc [OF assms] by simp
  ultimately show ?thesis
    by (simp add: CreateBleQueue_def CreateBrQueue_def numeral_3_eq_3 numeral_2_eq_2 group_ok_def group_content_def)
qed

lemma find_by_addr:
  "distinct (map cq_addr l) \<Longrightarrow> g \<in> set l \<Longrightarrow> find (\<lambda>h. cq_addr h = cq_addr g) l = Some g"
  by (induction l) auto

lemma inner_append:
  assumes "send_ok st" "p < 3" "length (inner_view st ! p) < 30"
  shows "WaitQueueLength (Suc fuel) w k (inner_queue p) 32 WAIT_QUEUE_BUFFER_PERIOD_LEN st = Done (Some (SOFTBUS_OK, st)) \<and>
    (\<exists>q q'. inner_queue p st = Done q \<and> QueueMultiProducerEnqueue q (Some x) = Done (SOFTBUS_OK, q') \<and>
       send_ok (put_inner p q' st) \<and> inner_view (put_inner p q' st) = append_at p x (inner_view st))"
proof -
  obtain g where g: "sq_inner st = Some g" "group_ok g" using assms by (auto simp: send_ok_def)
  obtain r r' where r: "cq_queue g ! p = Some r" "ring_inv r" "ring_count r < 30"
    "QueueMultiProducerEnqueue (Some r) (Some x) = Done (SOFTBUS_OK, Some r')"
    "group_ok (g\<lparr>cq_queue := (cq_queue g)[p := Some r']\<rparr>)"
    "group_content (g\<lparr>cq_queue := (cq_queue g)[p := Some r']\<rparr>) = append_at p x (group_content g)"
    using group_append [OF g(2) assms(2), of x] assms(3) g(1) by (auto simp: inner_view_def)
  have iq: "inner_queue p st = Done (Some r)"
    using g r(1) assms(2) by (simp add: inner_queue_def group_ok_def)
  have "send_ok (put_inner p (Some r') st)" using assms(1) g r(5) by (simp add: send_ok_def put_inner_def)
  moreover have "inner_view (put_inner p (Some r') st) = append_at p x (inner_view st)"
    using g r(6) by (simp add: inner_view_def put_inner_def)
  ultimately show ?thesis using wait_no_wait [of "inner_queue p", OF iq r(2,3)] iq r(4) by blast
qed

lemma put_inner_simps [simp]:
  "sq_list (put_inner p q st) = sq_list st" "sq_wakes (put_inner p q st) = sq_wakes st"
  "sq_next (put_inner p q st) = sq_next st"
  by (simp_all add: put_inner_def)

lemma put_group_simps [simp]:
  "sq_inner (put_group a p q st) = sq_inner st" "sq_wakes (put_group a p q st) = sq_wakes st"
  "sq_next (put_group a p q st) = sq_next st" "inner_view (put_group a p q st) = inner_view st"
  by (simp_all add: put_group_def inner_view_def)

lemma group_list_append:
  assumes ok: "send_ok st" and mem: "g \<in> set (sq_list st)" and p: "p < 3" "length (group_content g ! p) < 30"
  shows "WaitQueueLength (Suc fuel) w k (group_queue (cq_addr g) p) 32 WAIT_QUEUE_BUFFER_PERIOD_LEN st = Done (Some (SOFTBUS_OK, st)) \<and>
    (\<exists>q q'. group_queue (cq_addr g) p st = Done q \<and> QueueMultiProducerEnqueue q (Some x) = Done (SOFTBUS_OK, q') \<and>
       send_ok (put_group (cq_addr g) p q' st) \<and>
       list_view (sq_list (put_group (cq_addr g) p q' st)) =
         map (\<lambda>(q, c). (q, if q = cq_pid g then append_at p x c else c)) (list_view (sq_list st)))"
proof -
  have g: "group_ok g" "distinct (map cq_addr (sq_list st))" "distinct (map cq_pid (sq_list st))"
    using ok mem by (auto simp: send_ok_def)
  obtain r r' where r: "cq_queue g ! p = Some r" "ring_inv r" "ring_count r < 30"
    "QueueMultiProducerEnqueue (Some r) (Some x) = Done (SOFTBUS_OK, Some r')"
    "group_ok (g\<lparr>cq_queue := (cq_queue g)[p := Some r']\<rparr>)"
    "group_content (g\<lparr>cq_queue := (cq_queue g)[p := Some r']\<rparr>) = append_at p x (group_content g)"
    using group_append [OF g(1) p, of x] by auto
  have gq: "group_queue (cq_addr g) p st = Done (Some r)"
    using find_by_addr [OF g(2) mem] r(1) p g(1) by (simp add: group_queue_def group_ok_def)
  define f where "f h = (if cq_addr h = cq_addr g then h\<lparr>cq_queue := (cq_queue h)[p := Some r']\<rparr> else h)" for h :: "'a ConnectionQueue"
  have upd [simp]: "cq_addr (f h) = cq_addr h" "cq_pid (f h) = cq_pid h" for h by (simp_all add: f_def)
  have put: "put_group (cq_addr g) p (Some r') st = st\<lparr>sq_list := map f (sq_list st)\<rparr>"
    by (simp add: put_group_def f_def)
  have same: "h = g" if "h \<in> set (sq_list st)" "cq_addr h = cq_addr g \<or> cq_pid h = cq_pid g" for h
    using g(2,3) mem that by (auto simp: distinct_map dest: inj_onD)
  have ok_f: "group_ok (f h)" if "h \<in> set (sq_list st)" for h
    using same [OF that] r(5) ok that by (auto simp: send_ok_def f_def)
  have "send_ok (put_group (cq_addr g) p (Some r') st)"
    unfolding put using ok ok_f by (auto simp: send_ok_def comp_def)
  moreover have "list_view (sq_list (put_group (cq_addr g) p (Some r') st)) =
      map (\<lambda>(q, c). (q, if q = cq_pid g then append_at p x c else c)) (list_view (sq_list st))"
    unfolding put using same r(6) by (auto simp: list_view_def f_def)
  ultimately show ?thesis using wait_no_wait [of "group_queue (cq_addr g) p", OF gq r(2,3)] gq r(4) by blast
qed

lemma find_group_view:
  assumes "send_ok st" "p < 3"
  shows "case find_group pid p st of
      None \<Rightarrow> pid \<notin> fst ` set (list_view (sq_list st))
    | Some g \<Rightarrow> g \<in> set (sq_list st) \<and> cq_pid g = pid \<and> pid \<in> fst ` set (list_view (sq_list st))"
proof (cases "find (\<lambda>item. cq_pid item = pid) (sq_list st)")
  case None
  then have "pid \<notin> fst ` set (list_view (sq_list st))" by (auto simp: find_None_iff list_view_def)
  then show ?thesis using None by (simp add: find_group_def)
next
  case (Some g)
  then have g: "g \<in> set (sq_list st)" "cq_pid g = pid" by (auto simp: find_Some_iff)
  then have "group_ok g" using assms by (simp add: send_ok_def)
  then obtain r where "cq_queue g ! p = Some r" using group_ok_nth [OF _ assms(2)] by blast
  then show ?thesis using g Some by (force simp: find_group_def list_view_def)
qed

lemma new_group_append:
  assumes ok: "send_ok st" and g: "group_ok g" "group_content g = [[], [], []]" "cq_addr g = sq_next st"
    and p: "p < 3" and new: "cq_pid g \<notin> fst ` set (list_view (sq_list st))"
  shows "\<exists>q q'. group_queue (cq_addr g) p (st\<lparr>sq_list := sq_list st @ [g], sq_next := Suc (sq_next st)\<rparr>) = Done q \<and>
    QueueMultiProducerEnqueue q (Some x) = Done (SOFTBUS_OK, q') \<and>
    (let st' = put_group (cq_addr g) p q' (st\<lparr>sq_list := sq_list st @ [g], sq_next := Suc (sq_next st)\<rparr>)
     in send_ok st' \<and> list_view (sq_list st') = add_message (cq_pid g) p x (list_view (sq_list st)) \<and>
        sq_inner st' = sq_inner st \<and> sq_wakes st' = sq_wakes st)"
proof -
  let ?st = "st\<lparr>sq_list := sq_list st @ [g], sq_next := Suc (sq_next st)\<rparr>"
  have np: "cq_pid g \<notin> cq_pid ` set (sq_list st)" using new by (force simp: list_view_def)
  have ok1: "send_ok ?st" using ok g np by (auto simp: send_ok_def less_SucI)
  have "length (group_content g ! p) < 30" using g(2) p by (auto simp: numeral_3_eq_3 less_Suc_eq)
  then obtain q q' where q: "group_queue (cq_addr g) p ?st = Done q"
    "QueueMultiProducerEnqueue q (Some x) = Done (SOFTBUS_OK, q')" "send_ok (put_group (cq_addr g) p q' ?st)"
    "list_view (sq_list (put_group (cq_addr g) p q' ?st)) =
       map (\<lambda>(q, c). (q, if q = cq_pid g then append_at p x c else c)) (list_view (sq_list ?st))"
    using group_list_append [OF ok1, of g p 0 undefined 0 x] p by auto
  have "map (\<lambda>(q, c). (q, if q = cq_pid g then append_at p x c else c)) (list_view (sq_list st)) = list_view (sq_list st)"
    using new by (intro map_idI) (force split: prod.splits)
  then have "list_view (sq_list (put_group (cq_addr g) p q' ?st)) = add_message (cq_pid g) p x (list_view (sq_list st))"
    using q(4) new g(2) by (simp add: add_message_def) (simp add: list_view_def)
  with q show ?thesis by (auto simp: Let_def)
qed

definition group_room :: "int \<Rightarrow> nat \<Rightarrow> 'a groups \<Rightarrow> bool" where
  "group_room pid p gs \<longleftrightarrow> (\<forall>c. (pid, c) \<in> set gs \<longrightarrow> length (c ! p) < 30)"

lemma GetPriority_less: "GetPriority flag < 3"
  by (simp add: GetPriority_def)

lemma limit_32 [simp]: "GetQueueLimit (int (GetPriority flag)) = 32"
  using GetPriority_less [of flag] by (simp add: GetQueueLimit_valid)

lemma add_message_found:
  "pid \<in> fst ` set gs \<Longrightarrow>
   map (\<lambda>(q, c). (q, if q = pid then append_at p x c else c)) gs = add_message pid p x gs"
  by (simp add: add_message_def)

lemma ble_enqueue_process:
  assumes e: "healthy e" and ok: "send_ok st" and pid: "sn_pid m \<noteq> 0"
    and room: "group_room (sn_pid m) (GetPriority (sn_flag m)) (list_view (sq_list st))"
  shows "\<exists>st'. ConnBleEnqueueNonBlock e w (Suc fuel) (Some m) st = Done (Some (SOFTBUS_OK, st')) \<and> send_ok st' \<and>
    inner_view st' = inner_view st \<and>
    list_view (sq_list st') = add_message (sn_pid m) (GetPriority (sn_flag m)) m (list_view (sq_list st)) \<and>
    sq_wakes st' = sq_wakes st @ (if sq_list st = [] then [SendCond] else [])"
proof (cases "find_group (sn_pid m) (GetPriority (sn_flag m)) st")
  case None
  let ?p = "GetPriority (sn_flag m)"
  have new: "sn_pid m \<notin> fst ` set (list_view (sq_list st))"
    using find_group_view [OF ok GetPriority_less, of "sn_pid m" "sn_flag m"] None by simp
  obtain g :: "SendQueueNode ConnectionQueue" where g: "CreateBleQueue e 0 (sq_next st) (sn_pid m) = Some g" "group_ok g"
    "group_content g = [[], [], []]" "cq_addr g = sq_next st" "cq_pid g = sn_pid m"
    using create_group_ok [OF e, of 0 "sq_next st" "sn_pid m"] by blast
  show ?thesis
    using new_group_append [OF ok g(2-4) GetPriority_less, of "sn_flag m" m] new None g e pid
    by (auto simp: ConnBleEnqueueNonBlock_def end_enqueue_def Let_def send_ok_def inner_view_def)
next
  case (Some g)
  let ?p = "GetPriority (sn_flag m)"
  have g: "g \<in> set (sq_list st)" "cq_pid g = sn_pid m" "sn_pid m \<in> fst ` set (list_view (sq_list st))"
    using find_group_view [OF ok GetPriority_less, of "sn_pid m" "sn_flag m"] Some by simp_all
  have "(sn_pid m, group_content g) \<in> set (list_view (sq_list st))" using g by (force simp: list_view_def)
  then have "length (group_content g ! ?p) < 30" using room by (auto simp: group_room_def)
  then show ?thesis
    using group_list_append [OF ok g(1) GetPriority_less, of "sn_flag m" fuel w 0 m] Some e pid g(2)
      add_message_found [OF g(3), of ?p m]
    by (auto simp: ConnBleEnqueueNonBlock_def end_enqueue_def send_ok_def inner_view_def)
qed

lemma br_enqueue_process:
  assumes e: "healthy e" and ok: "send_ok st" and pid: "\<not> (sb_pid m = 0 \<and> sb_isInner m)"
    and room: "group_room (sb_pid m) (GetPriority (sb_flag m)) (list_view (sq_list st))"
  shows "\<exists>st'. ConnBrEnqueueNonBlock e w (Suc fuel) (Some m) st = Done (Some (SOFTBUS_OK, st')) \<and> send_ok st' \<and>
    inner_view st' = inner_view st \<and>
    list_view (sq_list st') = add_message (sb_pid m) (GetPriority (sb_flag m)) m (list_view (sq_list st)) \<and>
    sq_wakes st' = sq_wakes st @ (if sq_list st = [] then [SendCond] else [])"
proof (cases "find_group (sb_pid m) (GetPriority (sb_flag m)) st")
  case None
  have new: "sb_pid m \<notin> fst ` set (list_view (sq_list st))"
    using find_group_view [OF ok GetPriority_less, of "sb_pid m" "sb_flag m"] None by simp
  obtain g :: "SendBrQueueNode ConnectionQueue" where g: "CreateBrQueue e 0 (sq_next st) (sb_pid m) = Some g" "group_ok g"
    "group_content g = [[], [], []]" "cq_addr g = sq_next st" "cq_pid g = sb_pid m"
    using create_group_ok [OF e, of 0 "sq_next st" "sb_pid m"] by blast
  show ?thesis
    using new_group_append [OF ok g(2-4) GetPriority_less, of "sb_flag m" m] new None g e pid
    by (auto simp: ConnBrEnqueueNonBlock_def end_enqueue_def Let_def send_ok_def inner_view_def)
next
  case (Some g)
  let ?p = "GetPriority (sb_flag m)"
  have g: "g \<in> set (sq_list st)" "cq_pid g = sb_pid m" "sb_pid m \<in> fst ` set (list_view (sq_list st))"
    using find_group_view [OF ok GetPriority_less, of "sb_pid m" "sb_flag m"] Some by simp_all
  have "(sb_pid m, group_content g) \<in> set (list_view (sq_list st))" using g by (force simp: list_view_def)
  then have "length (group_content g ! ?p) < 30" using room by (auto simp: group_room_def)
  then show ?thesis
    using group_list_append [OF ok g(1) GetPriority_less, of "sb_flag m" fuel w 0 m] Some e pid g(2)
      add_message_found [OF g(3), of ?p m]
    by (auto simp: ConnBrEnqueueNonBlock_def end_enqueue_def send_ok_def inner_view_def)
qed

lemma ble_enqueue_inner:
  assumes e: "healthy e" and ok: "send_ok st" and pid: "sn_pid m = 0"
    and room: "length (inner_view st ! GetPriority (sn_flag m)) < 30"
  shows "\<exists>st'. ConnBleEnqueueNonBlock e w (Suc fuel) (Some m) st = Done (Some (SOFTBUS_OK, st')) \<and> send_ok st' \<and>
    inner_view st' = append_at (GetPriority (sn_flag m)) m (inner_view st) \<and> sq_list st' = sq_list st \<and>
    sq_wakes st' = sq_wakes st @ [SendCond]"
  using inner_append [OF ok GetPriority_less room, of fuel w 0 m] e pid
  by (auto simp: ConnBleEnqueueNonBlock_def end_enqueue_def send_ok_def inner_view_def)

lemma br_enqueue_inner:
  assumes e: "healthy e" and ok: "send_ok st" and pid: "sb_pid m = 0 \<and> sb_isInner m"
    and room: "length (inner_view st ! GetPriority (sb_flag m)) < 30"
  shows "\<exists>st'. ConnBrEnqueueNonBlock e w (Suc fuel) (Some m) st = Done (Some (SOFTBUS_OK, st')) \<and> send_ok st' \<and>
    inner_view st' = append_at (GetPriority (sb_flag m)) m (inner_view st) \<and> sq_list st' = sq_list st \<and>
    sq_wakes st' = sq_wakes st @ [SendCond]"
  using inner_append [OF ok GetPriority_less room, of fuel w 0 m] e pid
  by (auto simp: ConnBrEnqueueNonBlock_def end_enqueue_def send_ok_def inner_view_def)

lemma send_ok_lengths:
  assumes "send_ok st"
  shows "length (inner_view st) \<le> 3" "\<forall>g \<in> set (list_view (sq_list st)). length (snd g) \<le> 3"
  using assms by (auto simp: send_ok_def inner_view_def list_view_def group_ok_def)

text \<open>All messages a send queue holds.\<close>

definition pending :: "'a send_state \<Rightarrow> 'a multiset" where
  "pending st = messages (inner_view st) (list_view (sq_list st))"

lemma send_ok_wakes [simp]: "send_ok (st\<lparr>sq_wakes := ws\<rparr>) = send_ok st"
  by (simp add: send_ok_def)

lemma inner_view_wakes [simp]: "inner_view (st\<lparr>sq_wakes := ws\<rparr>) = inner_view st"
  by (simp add: inner_view_def)

lemma dequeue_loop_spec:
  assumes "send_ok st"
  shows "case next_message (inner_view st) (list_view (sq_list st)) of
      None \<Rightarrow> dequeue_loop (Suc fuel) w k msg b st =
        (let (r, st') = cond_wait w k None (st\<lparr>sq_list := []\<rparr>)
         in if r \<noteq> SOFTBUS_OK then end_dequeue SOFTBUS_ERR msg False st' else dequeue_loop fuel w (Suc k) msg False st')
    | Some (x, inner, gs) \<Rightarrow> (\<exists>st'. dequeue_loop (Suc fuel) w k msg b st = Done (Some (SOFTBUS_OK, Some x, st')) \<and>
        send_ok st' \<and> inner_view st' = inner \<and> list_view (sq_list st') = gs \<and> pending st = add_mset x (pending st'))"
proof (cases "next_message (inner_view st) (list_view (sq_list st))")
  case None
  then show ?thesis using dequeue_pass_spec [OF assms, of msg b] by simp
next
  case (Some r)
  obtain x inner gs where r: "r = (x, inner, gs)" by (cases r)
  obtain f st' where st': "dequeue_pass st msg b = Done (True, Some x, f, st')" "send_ok st'" "inner_view st' = inner"
    "list_view (sq_list st') = gs" using dequeue_pass_spec [OF assms, of msg b] Some r by auto
  have "pending st = add_mset x (pending st')"
    using next_message_mset [OF send_ok_lengths [OF assms]] Some r st' by (simp add: pending_def)
  then show ?thesis using Some r st' by (auto simp: end_dequeue_def pending_def)
qed

lemma next_message_pending: "send_ok st \<Longrightarrow> next_message (inner_view st) (list_view (sq_list st)) = None \<longleftrightarrow> pending st = {#}"
  using next_message_None [OF send_ok_lengths] by (simp add: pending_def)

subsection \<open>The contract of a message service\<close>

text \<open>
  What the transports rely on: a message put while there is room is held, a get takes one of
  the held messages, and a get finds none only when none is held. Both send queues provide it.
\<close>

datatype 'a service_op = Put 'a | Get

fun service_run ::
  "('s \<Rightarrow> 'a \<Rightarrow> bool) \<Rightarrow> ('a \<Rightarrow> 's \<Rightarrow> 's) \<Rightarrow> ('s \<Rightarrow> ('a \<times> 's) option) \<Rightarrow> 's \<Rightarrow> 'a service_op list \<Rightarrow>
   'a list \<times> 'a list \<times> 's" where
  "service_run room put get s [] = ([], [], s)"
| "service_run room put get s (Put x # ops) =
     (if room s x then let (acc, del, s') = service_run room put get (put x s) ops in (x # acc, del, s')
      else service_run room put get s ops)"
| "service_run room put get s (Get # ops) =
     (case get s of
        None \<Rightarrow> service_run room put get s ops
      | Some (x, s1) \<Rightarrow> let (acc, del, s') = service_run room put get s1 ops in (acc, x # del, s'))"

locale message_service =
  fixes inv :: "'s \<Rightarrow> bool"
    and held :: "'s \<Rightarrow> 'a multiset"
    and room :: "'s \<Rightarrow> 'a \<Rightarrow> bool"
    and put :: "'a \<Rightarrow> 's \<Rightarrow> 's"
    and get :: "'s \<Rightarrow> ('a \<times> 's) option"
  assumes put_inv: "inv s \<Longrightarrow> room s x \<Longrightarrow> inv (put x s)"
    and put_held: "inv s \<Longrightarrow> room s x \<Longrightarrow> held (put x s) = add_mset x (held s)"
    and get_inv: "inv s \<Longrightarrow> get s = Some (x, s') \<Longrightarrow> inv s'"
    and get_held: "inv s \<Longrightarrow> get s = Some (x, s') \<Longrightarrow> held s = add_mset x (held s')"
    and get_none: "inv s \<Longrightarrow> get s = None \<longleftrightarrow> held s = {#}"
begin

lemma run_conserves:
  "inv s \<Longrightarrow> service_run room put get s ops = (acc, del, s') \<Longrightarrow>
   inv s' \<and> held s + mset acc = mset del + held s'"
proof (induction ops arbitrary: s acc del s')
  case (Cons opn ops)
  show ?case
  proof (cases opn)
    case (Put x)
    show ?thesis
    proof (cases "room s x")
      case True
      obtain acc1 where acc1: "service_run room put get (put x s) ops = (acc1, del, s')" "acc = x # acc1"
        using Put True Cons.prems(2) by (simp split: prod.splits)
      have "inv s' \<and> held (put x s) + mset acc1 = mset del + held s'"
        by (rule Cons.IH [OF put_inv [OF Cons.prems(1) True] acc1(1)])
      then show ?thesis using acc1(2) put_held [OF Cons.prems(1) True] by simp
    next
      case False
      then show ?thesis using Put Cons.prems Cons.IH [of s] by simp
    qed
  next
    case Get
    show ?thesis
    proof (cases "get s")
      case None
      then show ?thesis using Cons.prems Cons.IH [of s] Get by simp
    next
      case (Some r)
      obtain x s1 where r: "get s = Some (x, s1)" using Some by (cases r) simp
      obtain del1 where del1: "service_run room put get s1 ops = (acc, del1, s')" "del = x # del1"
        using Get r Cons.prems(2) by (simp split: prod.splits)
      have "inv s' \<and> held s1 + mset acc = mset del1 + held s'"
        by (rule Cons.IH [OF get_inv [OF Cons.prems(1) r] del1(1)])
      then show ?thesis using del1(2) get_held [OF Cons.prems(1) r] by simp
    qed
  qed
qed auto

lemma get_drains:
  "inv s \<Longrightarrow> \<exists>del s'. service_run room put get s (replicate (size (held s)) Get) = ([], del, s') \<and>
     mset del = held s \<and> held s' = {#}"
proof (induction "size (held s)" arbitrary: s)
  case 0
  then show ?case by simp
next
  case (Suc n)
  then have "held s \<noteq> {#}" by auto
  then obtain x s1 where g: "get s = Some (x, s1)" using get_none [OF Suc.prems] by (cases "get s") auto
  have h: "held s = add_mset x (held s1)" "inv s1" using get_held [OF Suc.prems g] get_inv [OF Suc.prems g] by auto
  then have n: "n = size (held s1)" using Suc.hyps(2) by simp
  from Suc.hyps(1) [OF n h(2)] obtain del s' where
    "service_run room put get s1 (replicate (size (held s1)) Get) = ([], del, s')" "mset del = held s1" "held s' = {#}"
    by blast
  then show ?case using g h by (auto simp: Suc.hyps(2) [symmetric] n)
qed

end

text \<open>The calls as the transports make them, on an environment and a state.\<close>

definition idle_waiter :: "'st waiter" where
  "idle_waiter = \<lparr>get_time = (\<lambda>_. Some (0, 0)), cond_wait = (\<lambda>_ _ st. (SOFTBUS_TIMOUT, st))\<rparr>"

definition ble_put :: "SendQueueNode \<Rightarrow> env \<times> SendQueueNode send_state \<Rightarrow> env \<times> SendQueueNode send_state" where
  "ble_put m s =
     (case ConnBleEnqueueNonBlock (fst s) idle_waiter 1 (Some m) (snd s) of
        Done (Some (r, st)) \<Rightarrow> (fst s, st)
      | _ \<Rightarrow> s)"

definition ble_get :: "env \<times> SendQueueNode send_state \<Rightarrow> (SendQueueNode \<times> env \<times> SendQueueNode send_state) option" where
  "ble_get s =
     (case ConnBleDequeueBlock (fst s) idle_waiter 1 (Some None) (snd s) of
        Done (Some (r, Some (Some m), st)) \<Rightarrow> Some (m, fst s, st)
      | _ \<Rightarrow> None)"

definition ble_room :: "env \<times> SendQueueNode send_state \<Rightarrow> SendQueueNode \<Rightarrow> bool" where
  "ble_room s m =
     (if sn_pid m = 0 then length (inner_view (snd s) ! GetPriority (sn_flag m)) < 30
      else list_all (\<lambda>(q, c). q = sn_pid m \<longrightarrow> length (c ! GetPriority (sn_flag m)) < 30) (list_view (sq_list (snd s))))"

definition br_put :: "SendBrQueueNode \<Rightarrow> env \<times> SendBrQueueNode send_state \<Rightarrow> env \<times> SendBrQueueNode send_state" where
  "br_put m s =
     (case ConnBrEnqueueNonBlock (fst s) idle_waiter 1 (Some m) (snd s) of
        Done (Some (r, st)) \<Rightarrow> (fst s, st)
      | _ \<Rightarrow> s)"

definition br_get :: "env \<times> SendBrQueueNode send_state \<Rightarrow> (SendBrQueueNode \<times> env \<times> SendBrQueueNode send_state) option" where
  "br_get s =
     (case ConnBrDequeueBlock (fst s) idle_waiter 1 (Some None) (snd s) of
        Done (Some (r, Some (Some m), st)) \<Rightarrow> Some (m, fst s, st)
      | _ \<Rightarrow> None)"

definition br_room :: "env \<times> SendBrQueueNode send_state \<Rightarrow> SendBrQueueNode \<Rightarrow> bool" where
  "br_room s m =
     (if sb_pid m = 0 \<and> sb_isInner m then length (inner_view (snd s) ! GetPriority (sb_flag m)) < 30
      else list_all (\<lambda>(q, c). q = sb_pid m \<longrightarrow> length (c ! GetPriority (sb_flag m)) < 30) (list_view (sq_list (snd s))))"

definition service_ok :: "env \<times> 'a send_state \<Rightarrow> bool" where
  "service_ok s \<longleftrightarrow> healthy (fst s) \<and> send_ok (snd s)"

lemma list_all_room: "list_all (\<lambda>(q, c). q = pid \<longrightarrow> length (c ! p) < 30) gs \<longleftrightarrow> group_room pid p gs"
  by (auto simp: list_all_iff group_room_def)

lemma append_at_mset: "p < length c \<Longrightarrow> mset (concat (append_at p x c)) = add_mset x (mset (concat c))"
  by (simp add: append_at_def upd_conv_take_nth_drop) (metis (no_types, lifting) add_mset_add_single concat_append
      id_take_nth_drop concat.simps(2) mset_append union_assoc union_commute)

lemma map_update_mset:
  "\<lbrakk>distinct (map fst gs); pid \<in> fst ` set gs; \<forall>g \<in> set gs. p < length (snd g)\<rbrakk> \<Longrightarrow>
   mset (concat (concat (map snd (map (\<lambda>(q, c). (q, if q = pid then append_at p x c else c)) gs)))) =
   add_mset x (mset (concat (concat (map snd gs))))"
proof (induction gs)
  case (Cons g gs)
  show ?case
  proof (cases "fst g = pid")
    case True
    then have "pid \<notin> fst ` set gs" using Cons.prems(1) by auto
    then have "map (\<lambda>(q, c). (q, if q = pid then append_at p x c else c)) gs = gs"
      by (intro map_idI) (force split: prod.splits)
    then show ?thesis
      using True Cons.prems(3) append_at_mset [of p "snd g" x] by (cases g) simp
  next
    case False
    then show ?thesis using Cons by (cases g) auto
  qed
qed simp

lemma add_message_mset:
  assumes "distinct (map fst gs)" "p < 3" "\<forall>g \<in> set gs. length (snd g) = 3"
  shows "messages inner (add_message pid p x gs) = add_mset x (messages inner gs)"
proof (cases "pid \<in> fst ` set gs")
  case True
  then show ?thesis
    using map_update_mset [OF assms(1) True, of p x] assms(2,3) by (simp add: messages_def add_message_def)
next
  case False
  then show ?thesis
    using append_at_mset [of p "[[], [], []]" x] assms(2) by (simp add: messages_def add_message_def)
qed

lemma send_ok_view:
  assumes "send_ok st"
  shows "length (inner_view st) = 3" "\<forall>g \<in> set (list_view (sq_list st)). length (snd g) = 3"
    "distinct (map fst (list_view (sq_list st)))"
  using assms by (auto simp: send_ok_def inner_view_def list_view_def group_ok_def comp_def)

lemma get_from_loop:
  assumes "service_ok s"
  shows "case dequeue_loop 1 idle_waiter 0 None False (snd s) of
      Done (Some (r, Some x, st)) \<Rightarrow> r = SOFTBUS_OK \<and> send_ok st \<and> pending (snd s) = add_mset x (pending st)
    | Done (Some (r, None, st)) \<Rightarrow> pending (snd s) = {#}
    | _ \<Rightarrow> False"
proof -
  have ok: "send_ok (snd s)" using assms by (simp add: service_ok_def)
  note spec = dequeue_loop_spec [OF ok, of 0 idle_waiter 0 None False]
  show ?thesis
  proof (cases "next_message (inner_view (snd s)) (list_view (sq_list (snd s)))")
    case None
    then have "pending (snd s) = {#}" using next_message_pending [OF ok] by simp
    then show ?thesis using spec None by (simp add: idle_waiter_def end_dequeue_def)
  next
    case (Some r)
    then show ?thesis using spec by (cases r) auto
  qed
qed

lemma ble_put_spec:
  assumes "service_ok s" "ble_room s m"
  shows "service_ok (ble_put m s) \<and> pending (snd (ble_put m s)) = add_mset m (pending (snd s))"
proof -
  obtain e st where s: "s = (e, st)" by (cases s)
  have e: "healthy e" and ok: "send_ok st" using assms(1) s by (auto simp: service_ok_def)
  note view = send_ok_view [OF ok]
  show ?thesis
  proof (cases "sn_pid m = 0")
    case True
    have "length (inner_view st ! GetPriority (sn_flag m)) < 30" using assms(2) s True by (simp add: ble_room_def)
    from ble_enqueue_inner [OF e ok True this, of idle_waiter 0] show ?thesis
      using s e append_at_mset [of "GetPriority (sn_flag m)" "inner_view st" m] GetPriority_less [of "sn_flag m"] view(1)
      by (auto simp: ble_put_def service_ok_def pending_def messages_def)
  next
    case False
    have "group_room (sn_pid m) (GetPriority (sn_flag m)) (list_view (sq_list st))"
      using assms(2) s False by (simp add: ble_room_def list_all_room)
    from ble_enqueue_process [OF e ok False this, of idle_waiter 0] show ?thesis
      using s e add_message_mset [OF view(3) GetPriority_less view(2)]
      by (auto simp: ble_put_def service_ok_def pending_def)
  qed
qed

lemma br_put_spec:
  assumes "service_ok s" "br_room s m"
  shows "service_ok (br_put m s) \<and> pending (snd (br_put m s)) = add_mset m (pending (snd s))"
proof -
  obtain e st where s: "s = (e, st)" by (cases s)
  have e: "healthy e" and ok: "send_ok st" using assms(1) s by (auto simp: service_ok_def)
  note view = send_ok_view [OF ok]
  show ?thesis
  proof (cases "sb_pid m = 0 \<and> sb_isInner m")
    case True
    have "length (inner_view st ! GetPriority (sb_flag m)) < 30" using assms(2) s True by (simp add: br_room_def)
    from br_enqueue_inner [OF e ok True this, of idle_waiter 0] show ?thesis
      using s e append_at_mset [of "GetPriority (sb_flag m)" "inner_view st" m] GetPriority_less [of "sb_flag m"] view(1)
      by (auto simp: br_put_def service_ok_def pending_def messages_def)
  next
    case False
    have "group_room (sb_pid m) (GetPriority (sb_flag m)) (list_view (sq_list st))"
      using assms(2) s False by (simp only: br_room_def list_all_room if_False snd_conv)
    from br_enqueue_process [OF e ok False this, of idle_waiter 0] show ?thesis
      using s e add_message_mset [OF view(3) GetPriority_less view(2)]
      by (auto simp: br_put_def service_ok_def pending_def)
  qed
qed

lemma ble_get_spec:
  assumes "service_ok s"
  shows "case ble_get s of
      None \<Rightarrow> pending (snd s) = {#}
    | Some (x, s') \<Rightarrow> service_ok s' \<and> pending (snd s) = add_mset x (pending (snd s'))"
  using get_from_loop [OF assms] assms
  by (auto simp: ble_get_def ConnBleDequeueBlock_def service_ok_def split: outcome.splits option.splits)

lemma br_get_spec:
  assumes "service_ok s"
  shows "case br_get s of
      None \<Rightarrow> pending (snd s) = {#}
    | Some (x, s') \<Rightarrow> service_ok s' \<and> pending (snd s) = add_mset x (pending (snd s'))"
  using get_from_loop [OF assms] assms
  by (auto simp: br_get_def ConnBrDequeueBlock_def service_ok_def split: outcome.splits option.splits)

interpretation ble_service: message_service service_ok "\<lambda>s. pending (snd s)" ble_room ble_put ble_get
proof
  fix s :: "env \<times> SendQueueNode send_state" and x s'
  show "service_ok s \<Longrightarrow> ble_room s x \<Longrightarrow> service_ok (ble_put x s)"
    "service_ok s \<Longrightarrow> ble_room s x \<Longrightarrow> pending (snd (ble_put x s)) = add_mset x (pending (snd s))"
    using ble_put_spec [of s x] by auto
  show "service_ok s \<Longrightarrow> ble_get s = Some (x, s') \<Longrightarrow> service_ok s'"
    "service_ok s \<Longrightarrow> ble_get s = Some (x, s') \<Longrightarrow> pending (snd s) = add_mset x (pending (snd s'))"
    "service_ok s \<Longrightarrow> (ble_get s = None) = (pending (snd s) = {#})"
    using ble_get_spec [of s] by (auto split: option.splits)
qed

interpretation br_service: message_service service_ok "\<lambda>s. pending (snd s)" br_room br_put br_get
proof
  fix s :: "env \<times> SendBrQueueNode send_state" and x s'
  show "service_ok s \<Longrightarrow> br_room s x \<Longrightarrow> service_ok (br_put x s)"
    "service_ok s \<Longrightarrow> br_room s x \<Longrightarrow> pending (snd (br_put x s)) = add_mset x (pending (snd s))"
    using br_put_spec [of s x] by auto
  show "service_ok s \<Longrightarrow> br_get s = Some (x, s') \<Longrightarrow> service_ok s'"
    "service_ok s \<Longrightarrow> br_get s = Some (x, s') \<Longrightarrow> pending (snd s) = add_mset x (pending (snd s'))"
    "service_ok s \<Longrightarrow> (br_get s = None) = (pending (snd s) = {#})"
    using br_get_spec [of s] by (auto split: option.splits)
qed

subsection \<open>Properties\<close>

definition fresh_state :: "'a send_state" where
  "fresh_state = \<lparr>sq_list = [], sq_inner = None, sq_next = 0, sq_wakes = []\<rparr>"

lemma init_ok:
  assumes "healthy e" "\<And>x. initOk x"
  shows "\<exists>st. ConnBleInitSendQueue e initOk fresh_state = (SOFTBUS_OK, [QueueLock, SendWait, Send], st) \<and>
           send_ok st \<and> pending st = {#}"
    and "\<exists>st. ConnBrInnerQueueInit e initOk fresh_state = (SOFTBUS_OK, [QueueLock, SendWait, Send], st) \<and>
           send_ok st \<and> pending st = {#}"
proof -
  obtain g :: "SendQueueNode ConnectionQueue" where "CreateBleQueue e 0 0 0 = Some g" "group_ok g" "group_content g = [[], [], []]"
    using create_group_ok [OF assms(1), of 0 0 0] by blast
  then show "\<exists>st. ConnBleInitSendQueue e initOk fresh_state = (SOFTBUS_OK, [QueueLock, SendWait, Send], st) \<and>
           send_ok st \<and> pending st = {#}"
    using assms(2) by (simp add: ConnBleInitSendQueue_def fresh_state_def send_ok_def pending_def inner_view_def list_view_def messages_def)
  obtain g :: "SendBrQueueNode ConnectionQueue" where "CreateBrQueue e 0 0 0 = Some g" "group_ok g" "group_content g = [[], [], []]"
    using create_group_ok [OF assms(1), of 0 0 0] by blast
  then show "\<exists>st. ConnBrInnerQueueInit e initOk fresh_state = (SOFTBUS_OK, [QueueLock, SendWait, Send], st) \<and>
           send_ok st \<and> pending st = {#}"
    using assms(2) by (simp add: ConnBrInnerQueueInit_def fresh_state_def send_ok_def pending_def inner_view_def list_view_def messages_def)
qed

text \<open>
  C9. The Bluetooth LE send queue loses, duplicates and invents nothing: after initialisation
  and any sequence of accepted enqueues and of dequeues, the accepted messages are exactly the
  delivered ones and the ones still queued; and as many further dequeues as there are queued
  messages deliver all of them.
\<close>
theorem ble_send_queue_conserves:
  assumes "healthy e" and "\<And>x. initOk x"
  shows "\<exists>st. ConnBleInitSendQueue e initOk fresh_state = (SOFTBUS_OK, [QueueLock, SendWait, Send], st) \<and>
           (\<forall>ops. let (acc, del, s) = service_run ble_room ble_put ble_get (e, st) ops
             in mset acc = mset del + pending (snd s) \<and>
                (\<exists>rest s'. service_run ble_room ble_put ble_get s (replicate (size (pending (snd s))) Get) = ([], rest, s') \<and>
                   mset rest = pending (snd s) \<and> pending (snd s') = {#}))"
proof -
  obtain st where st: "ConnBleInitSendQueue e initOk fresh_state = (SOFTBUS_OK, [QueueLock, SendWait, Send], st)"
    "send_ok st" "pending st = {#}" using init_ok(1) [of e initOk] assms by blast
  then have "service_ok (e, st)" using assms(1) by (simp add: service_ok_def)
  then have "let (acc, del, s) = service_run ble_room ble_put ble_get (e, st) ops
      in mset acc = mset del + pending (snd s) \<and>
         (\<exists>rest s'. service_run ble_room ble_put ble_get s (replicate (size (pending (snd s))) Get) = ([], rest, s') \<and>
            mset rest = pending (snd s) \<and> pending (snd s') = {#})" for ops
    using ble_service.run_conserves [of "(e, st)" ops] ble_service.get_drains st(3) by (auto split: prod.splits)
  with st(1) show ?thesis by blast
qed

definition sample_node :: "int \<Rightarrow> int \<Rightarrow> SendQueueNode" where
  "sample_node pid flag = \<lparr>sn_connectionId = 1, sn_pid = pid, sn_flag = flag, sn_module = 11, sn_seq = 1,
     sn_data = [], sn_hasFinishAction = False\<rparr>"

theorem ble_send_queue_conserves_witness:
  "\<exists>st. ConnBleInitSendQueue ideal_env (\<lambda>_. True) fresh_state = (0, [QueueLock, SendWait, Send], st) \<and>
     (let (acc, del, s) = service_run ble_room ble_put ble_get (ideal_env, st) [Put (sample_node 7 3), Get]
      in mset acc = mset del + pending (snd s))"
proof -
  from ble_send_queue_conserves [of ideal_env "\<lambda>_. True", OF healthy_ideal_env TrueI]
  obtain st where st: "ConnBleInitSendQueue ideal_env (\<lambda>_. True) fresh_state = (0, [QueueLock, SendWait, Send], st)"
    "\<forall>ops. let (acc, del, s) = service_run ble_room ble_put ble_get (ideal_env, st) ops
      in mset acc = mset del + pending (snd s) \<and>
         (\<exists>rest s'. service_run ble_room ble_put ble_get s (replicate (size (pending (snd s))) Get) = ([], rest, s') \<and>
            mset rest = pending (snd s) \<and> pending (snd s') = {#})" by blast
  show ?thesis
    using st(1) st(2) [rule_format, of "[Put (sample_node 7 3), Get]"] by (simp add: case_prod_beta Let_def del: service_run.simps)
qed

text \<open>
  C28. The classic Bluetooth send queue conserves messages in the same sense.
\<close>
theorem br_send_queue_conserves:
  assumes "healthy e" and "\<And>x. initOk x"
  shows "\<exists>st. ConnBrInnerQueueInit e initOk fresh_state = (SOFTBUS_OK, [QueueLock, SendWait, Send], st) \<and>
           (\<forall>ops. let (acc, del, s) = service_run br_room br_put br_get (e, st) ops
             in mset acc = mset del + pending (snd s) \<and>
                (\<exists>rest s'. service_run br_room br_put br_get s (replicate (size (pending (snd s))) Get) = ([], rest, s') \<and>
                   mset rest = pending (snd s) \<and> pending (snd s') = {#}))"
proof -
  obtain st where st: "ConnBrInnerQueueInit e initOk fresh_state = (SOFTBUS_OK, [QueueLock, SendWait, Send], st)"
    "send_ok st" "pending st = {#}" using init_ok(2) [of e initOk] assms by blast
  then have "service_ok (e, st)" using assms(1) by (simp add: service_ok_def)
  then have "let (acc, del, s) = service_run br_room br_put br_get (e, st) ops
      in mset acc = mset del + pending (snd s) \<and>
         (\<exists>rest s'. service_run br_room br_put br_get s (replicate (size (pending (snd s))) Get) = ([], rest, s') \<and>
            mset rest = pending (snd s) \<and> pending (snd s') = {#})" for ops
    using br_service.run_conserves [of "(e, st)" ops] br_service.get_drains st(3) by (auto split: prod.splits)
  with st(1) show ?thesis by blast
qed

theorem br_send_queue_conserves_witness:
  "\<exists>st. ConnBrInnerQueueInit ideal_env (\<lambda>_. True) fresh_state = (0, [QueueLock, SendWait, Send], st) \<and>
     (let (acc, del, s) = service_run br_room br_put br_get (ideal_env, st) [Get, Get]
      in mset acc = mset del + pending (snd s))"
proof -
  from br_send_queue_conserves [of ideal_env "\<lambda>_. True", OF healthy_ideal_env TrueI]
  obtain st where st: "ConnBrInnerQueueInit ideal_env (\<lambda>_. True) fresh_state = (0, [QueueLock, SendWait, Send], st)"
    "\<forall>ops. let (acc, del, s) = service_run br_room br_put br_get (ideal_env, st) ops
      in mset acc = mset del + pending (snd s) \<and>
         (\<exists>rest s'. service_run br_room br_put br_get s (replicate (size (pending (snd s))) Get) = ([], rest, s') \<and>
            mset rest = pending (snd s) \<and> pending (snd s') = {#})" by blast
  show ?thesis
    using st(1) st(2) [rule_format, of "[Get, Get]"] by (simp add: case_prod_beta Let_def del: service_run.simps)
qed

text \<open>
  C26. Order of service: whenever messages are queued, a dequeue returns without waiting, takes
  the oldest message of the first non-empty queue in the order bus-high, bus-middle, then the
  processes round robin (each by priority, the served one moves to the end of the list, idle
  ones leave it), then bus-low, and keeps the queues well-formed.
\<close>
theorem ble_dequeue_order:
  assumes "healthy e" "send_ok st" and "pending st \<noteq> {#}"
  shows "\<exists>x inner gs st'. next_message (inner_view st) (list_view (sq_list st)) = Some (x, inner, gs) \<and>
           ConnBleDequeueBlock e w (Suc fuel) (Some m) st = Done (Some (SOFTBUS_OK, Some (Some x), st')) \<and>
           send_ok st' \<and> inner_view st' = inner \<and> list_view (sq_list st') = gs"
proof -
  obtain x inner gs where n: "next_message (inner_view st) (list_view (sq_list st)) = Some (x, inner, gs)"
    using next_message_pending [OF assms(2)] assms(3) by (metis option.exhaust prod_cases3)
  obtain st' where st': "dequeue_loop (Suc fuel) w 0 m False st = Done (Some (SOFTBUS_OK, Some x, st'))"
    "send_ok st'" "inner_view st' = inner" "list_view (sq_list st') = gs"
    using dequeue_loop_spec [OF assms(2), of fuel w 0 m False] n by auto
  then have "ConnBleDequeueBlock e w (Suc fuel) (Some m) st = Done (Some (SOFTBUS_OK, Some (Some x), st'))"
    using assms(1) by (simp add: ConnBleDequeueBlock_def del: dequeue_loop.simps)
  with n st' show ?thesis by blast
qed

theorem ble_dequeue_order_witness:
  "\<exists>st x st'. pending st \<noteq> {#} \<and>
     ConnBleDequeueBlock ideal_env idle_waiter 1 (Some None) st = Done (Some (0, Some (Some x), st'))"
proof -
  obtain st :: "SendQueueNode send_state" where st: "send_ok st" "pending st = {#}" using init_ok(1) [of ideal_env "\<lambda>_. True"] by auto
  have len: "length (inner_view st ! 0) < 30"
  proof -
    have "length (inner_view st) = 3" using send_ok_view(1) [OF st(1)] .
    then have "inner_view st ! 0 \<in> set (inner_view st)" by simp
    moreover have "concat (inner_view st) = []" using st(2) by (simp add: pending_def messages_def)
    ultimately have "inner_view st ! 0 = []" by auto
    then show ?thesis by simp
  qed
  let ?s = "ble_put (sample_node 0 3) (ideal_env, st)"
  have ok: "service_ok ?s" "pending (snd ?s) = add_mset (sample_node 0 3) (pending st)"
    using ble_put_spec [of "(ideal_env, st)" "sample_node 0 3"] st len
    by (auto simp: service_ok_def ble_room_def sample_node_def GetPriority_def)
  then show ?thesis
    using ble_dequeue_order [of ideal_env "snd ?s" idle_waiter 0 None]
    by (intro exI [of _ "snd ?s"]) (auto simp: service_ok_def)
qed

text \<open>
  C27. No wake-up is lost: when the sender finds nothing and goes to wait, the list of process
  queues is empty, and from that state every enqueue with room, for a process or for the bus,
  broadcasts the condition the sender waits on.
\<close>
theorem ble_no_lost_wakeup:
  assumes "healthy e" "send_ok st" and "dequeue_pass st msg b = Done (False, msg', f, st1)" and "ble_room (e, st1) m"
  shows "sq_list st1 = [] \<and>
         (\<exists>st2. ConnBleEnqueueNonBlock e w (Suc fuel) (Some m) st1 = Done (Some (SOFTBUS_OK, st2)) \<and>
            sq_wakes st2 = sq_wakes st1 @ [SendCond])"
proof -
  have st1: "st1 = st\<lparr>sq_list := []\<rparr>"
    using dequeue_pass_spec [OF assms(2), of msg b] assms(3) by (auto split: option.splits)
  then have ok: "send_ok st1" using assms(2) by (simp add: send_ok_def)
  show ?thesis
  proof (cases "sn_pid m = 0")
    case True
    then show ?thesis
      using ble_enqueue_inner [OF assms(1) ok True, of w fuel] assms(4) st1 by (auto simp: ble_room_def)
  next
    case False
    then show ?thesis
      using ble_enqueue_process [OF assms(1) ok False, of w fuel] assms(4) st1 by (auto simp: ble_room_def list_all_room)
  qed
qed

theorem ble_no_lost_wakeup_witness:
  "\<exists>st1 st2. sq_list st1 = [] \<and> ConnBleEnqueueNonBlock ideal_env idle_waiter 1 (Some (sample_node 7 3)) st1 =
     Done (Some (0, st2)) \<and> sq_wakes st2 = sq_wakes st1 @ [SendCond]"
proof -
  obtain st :: "SendQueueNode send_state" where st: "send_ok st" "pending st = {#}" using init_ok(1) [of ideal_env "\<lambda>_. True"] by auto
  have p: "dequeue_pass st None False = Done (False, None, False, st\<lparr>sq_list := []\<rparr>)"
    using dequeue_pass_spec [OF st(1), of None False] next_message_pending [OF st(1)] st(2) by simp
  have "ble_room (ideal_env, st\<lparr>sq_list := []\<rparr>) (sample_node 7 3)"
    by (simp add: ble_room_def sample_node_def list_view_def)
  from ble_no_lost_wakeup [OF healthy_ideal_env st(1) p this, of idle_waiter 0] show ?thesis
    unfolding One_nat_def by blast
qed

subsection \<open>The wait that releases the lock\<close>

text \<open>What the sending thread may do while an enqueuer waits: take messages, and run dry.\<close>

inductive sender_runs :: "env \<Rightarrow> SendQueueNode send_state \<Rightarrow> SendQueueNode send_state \<Rightarrow> bool" for e where
  sender_idle: "sender_runs e st st"
| sender_takes: "sender_runs e st st1 \<Longrightarrow>
    ConnBleDequeueBlock e idle_waiter 1 (Some None) st1 = Done (Some (SOFTBUS_OK, m, st2)) \<Longrightarrow> sender_runs e st st2"
| sender_blocks: "sender_runs e st st1 \<Longrightarrow> dequeue_pass st1 None False = Done (False, m, f, st2) \<Longrightarrow> sender_runs e st st2"

lemma sender_can_drain:
  assumes "healthy e"
  shows "send_ok st \<Longrightarrow> sender_runs e st0 st \<Longrightarrow> \<exists>st'. sender_runs e st0 st' \<and> sq_list st' = []"
proof (induction "size (pending st)" arbitrary: st)
  case 0
  then have "pending st = {#}" by simp
  then have "dequeue_pass st None False = Done (False, None, False, st\<lparr>sq_list := []\<rparr>)"
    using dequeue_pass_spec [OF 0(2), of None False] next_message_pending [OF 0(2)] by simp
  then show ?case using sender_blocks [OF 0(3)] by fastforce
next
  case (Suc n)
  have ok: "service_ok (e, st)" using assms Suc.prems(1) by (simp add: service_ok_def)
  obtain r where n: "next_message (inner_view st) (list_view (sq_list st)) = Some r"
    using next_message_pending [OF Suc.prems(1)] Suc.hyps(2) by (cases "next_message (inner_view st) (list_view (sq_list st))") auto
  obtain x inner gs where r: "r = (x, inner, gs)" by (cases r)
  obtain st1 where st1: "dequeue_loop 1 idle_waiter 0 None False st = Done (Some (SOFTBUS_OK, Some x, st1))"
    "send_ok st1" "pending st = add_mset x (pending st1)"
    using dequeue_loop_spec [OF Suc.prems(1), of 0 idle_waiter 0 None False] n r by auto
  have "ConnBleDequeueBlock e idle_waiter 1 (Some None) st = Done (Some (SOFTBUS_OK, Some (Some x), st1))"
    using assms st1(1) by (simp add: ConnBleDequeueBlock_def)
  then have "sender_runs e st0 st1" by (rule sender_takes [OF Suc.prems(2)])
  moreover have "n = size (pending st1)" using Suc.hyps(2) st1(3) by simp
  ultimately show ?case using Suc.hyps(1) [OF _ st1(2)] by blast
qed

text \<open>
  C40. The wait of an enqueue is not safe: an enqueuer that waits for room in its process's queue
  keeps a pointer to that queue while the lock is released. The sender alone can, in that time,
  take all messages and destroy the empty queue; when the wait then returns, the enqueuer
  reads the freed queue.
\<close>
theorem ble_enqueue_use_after_free:
  assumes e: "healthy e" and ok: "send_ok st" and pid: "sn_pid m \<noteq> 0"
    and mem: "(sn_pid m, c) \<in> set (list_view (sq_list st))" and full: "30 \<le> length (c ! GetPriority (sn_flag m))"
  shows "\<exists>st'. sender_runs e st st' \<and>
           (\<forall>w. get_time w 0 \<noteq> None \<and> cond_wait w 0 = (\<lambda>_ _. (SOFTBUS_OK, st')) \<longrightarrow>
              ConnBleEnqueueNonBlock e w (Suc (Suc fuel)) (Some m) st = Undef)"
proof -
  let ?p = "GetPriority (sn_flag m)"
  obtain st' where st': "sender_runs e st st'" "sq_list st' = []"
    using sender_can_drain [OF e ok sender_idle] by blast
  obtain g where g: "find_group (sn_pid m) ?p st = Some g" "g \<in> set (sq_list st)" "cq_pid g = sn_pid m"
    using find_group_view [OF ok GetPriority_less, of "sn_pid m" "sn_flag m"] mem by (force split: option.splits)
  have d: "group_ok g" "distinct (map cq_addr (sq_list st))" "distinct (map cq_pid (sq_list st))"
    using ok g(2) by (auto simp: send_ok_def)
  obtain h where h: "h \<in> set (sq_list st)" "cq_pid h = sn_pid m" "c = group_content h"
    using mem by (auto simp: list_view_def)
  have "c = group_content g" using h g d(3) by (metis distinct_map inj_onD)
  obtain r where r: "cq_queue g ! ?p = Some r" "ring_inv r" using group_ok_nth [OF d(1) GetPriority_less] .
  have "length (cq_queue g) = 3" using d(1) by (simp add: group_ok_def)
  then have "30 \<le> ring_count r"
    using full \<open>c = group_content g\<close> r(1) GetPriority_less [of "sn_flag m"] length_ring_abs [of r] by (simp add: group_content_def)
  moreover have gq: "group_queue (cq_addr g) ?p st = Done (Some r)"
    using find_by_addr [OF d(2) g(2)] r(1) \<open>length (cq_queue g) = 3\<close> GetPriority_less [of "sn_flag m"] by (simp add: group_queue_def)
  ultimately have "ConnBleEnqueueNonBlock e w (Suc (Suc fuel)) (Some m) st = Undef"
    if "get_time w 0 \<noteq> None" "cond_wait w 0 = (\<lambda>_ _. (SOFTBUS_OK, st'))" for w
  proof -
    note w = that
    obtain t where t: "get_time w 0 = Some t" using w(1) by blast
    have "WaitQueueLength (Suc (Suc fuel)) w 0 (group_queue (cq_addr g) ?p) 32 2 st =
        WaitQueueLength (Suc fuel) w (Suc 0) (group_queue (cq_addr g) ?p) 32 2 st'"
      using wait_waits [of "group_queue (cq_addr g) ?p", OF gq r(2) \<open>30 \<le> ring_count r\<close> t, of "\<lambda>_ _. SOFTBUS_OK" "\<lambda>_. st'"] w(2) by simp
    moreover have "group_queue (cq_addr g) ?p st' = Undef" using st'(2) by (simp add: group_queue_def)
    ultimately show ?thesis
      using g(1) e pid by (simp add: ConnBleEnqueueNonBlock_def Let_def)
  qed
  with st'(1) show ?thesis by blast
qed

lemma filled_state:
  "n \<le> 30 \<Longrightarrow> \<exists>st. send_ok st \<and>
     list_view (sq_list st) = (if n = 0 then [] else [(7, [replicate n (sample_node 7 3), [], []])])"
proof (induction n)
  case 0
  obtain st :: "SendQueueNode send_state" where st: "send_ok st" "pending st = {#}" using init_ok(1) [of ideal_env "\<lambda>_. True"] by auto
  have "send_ok (st\<lparr>sq_list := []\<rparr>)" using st by (simp add: send_ok_def)
  then show ?case by (intro exI [of _ "st\<lparr>sq_list := []\<rparr>"]) (simp add: list_view_def)
next
  case (Suc n)
  let ?m = "sample_node 7 3"
  obtain st where st: "send_ok st"
    "list_view (sq_list st) = (if n = 0 then [] else [(7, [replicate n ?m, [], []])])" using Suc by auto
  have m: "sn_pid ?m = 7" "GetPriority (sn_flag ?m) = 0" by (simp_all add: sample_node_def GetPriority_def)
  have "group_room (sn_pid ?m) (GetPriority (sn_flag ?m)) (list_view (sq_list st))"
    using st(2) Suc.prems m by (auto simp: group_room_def)
  from ble_enqueue_process [OF healthy_ideal_env st(1) _ this, of idle_waiter 0] obtain st' where
    "send_ok st'" "list_view (sq_list st') = add_message 7 0 ?m (list_view (sq_list st))" using m by auto
  then show ?case
    using st(2) by (intro exI [of _ st']) (auto simp: add_message_def append_at_def replicate_append_same)
qed

theorem ble_enqueue_use_after_free_witness:
  "\<exists>st st'. sender_runs ideal_env st st' \<and>
     ConnBleEnqueueNonBlock ideal_env \<lparr>get_time = (\<lambda>_. Some (0, 0)), cond_wait = (\<lambda>_ _ _. (0, st'))\<rparr> 2 (Some (sample_node 7 3)) st = Undef"
proof -
  let ?m = "sample_node 7 3"
  obtain st where st: "send_ok st" "list_view (sq_list st) = [(7, [replicate 30 ?m, [], []])]"
    using filled_state [of 30] by auto
  have m: "sn_pid ?m = 7" "GetPriority (sn_flag ?m) = 0" by (simp_all add: sample_node_def GetPriority_def)
  obtain st' where st': "sender_runs ideal_env st st'"
    "\<forall>w. get_time w 0 \<noteq> None \<and> cond_wait w 0 = (\<lambda>_ _. (0, st')) \<longrightarrow> ConnBleEnqueueNonBlock ideal_env w (Suc (Suc 0)) (Some ?m) st = Undef"
    using ble_enqueue_use_after_free [OF healthy_ideal_env st(1), of ?m "[replicate 30 ?m, [], []]" 0] st(2) m by auto
  then have "ConnBleEnqueueNonBlock ideal_env \<lparr>get_time = (\<lambda>_. Some (0, 0)), cond_wait = (\<lambda>_ _ _. (0, st'))\<rparr> 2 (Some ?m) st = Undef"
    unfolding numeral_2_eq_2 by simp
  with st'(1) show ?thesis by blast
qed

end
