(* ===== verification/Pkt_Head.thy ===== *)
theory Pkt_Head
  imports Softbus_Prelude
begin

text \<open>
  Byte order: \<^verbatim>\<open>adapter/common/kernel/posix/softbus_adapter_socket.c\<close> (the conversion
  helpers) and \<^verbatim>\<open>core/connection/common/src/softbus_datahead_transform.c\<close> (the packet
  heads). The byte order of the host is a parameter \<open>le\<close> (\<open>True\<close> for little endian), so
  that what goes on the wire is compared on both kinds of host.
\<close>

subsection \<open>Integers as bytes\<close>

fun bytes_of :: "nat \<Rightarrow> nat \<Rightarrow> bytes" where
  "bytes_of 0 v = []"
| "bytes_of (Suc n) v = of_nat (v mod 256) # bytes_of n (v div 256)"

fun nat_of :: "bytes \<Rightarrow> nat" where
  "nat_of [] = 0"
| "nat_of (b # bs) = unat b + 256 * nat_of bs"

lemma length_bytes_of [simp]: "length (bytes_of n v) = n"
  by (induction n arbitrary: v) auto

lemma nat_of_bytes_of: "nat_of (bytes_of n v) = v mod 256 ^ n"
proof (induction n arbitrary: v)
  case (Suc n)
  have "v mod 256 + 256 * (v div 256 mod 256 ^ n) = v mod (256 * 256 ^ n)"
    by (simp add: mod_mult2_eq)
  then show ?case using Suc by (simp add: unat_of_nat)
qed simp

lemma nat_of_less: "nat_of bs < 256 ^ length bs"
proof (induction bs)
  case (Cons b bs)
  have "unat b < 256" using unsigned_less [of b] by simp
  then show ?case using Cons by simp
qed simp

lemma bytes_of_nat_of [simp]: "bytes_of (length bs) (nat_of bs) = bs"
proof (induction bs)
  case (Cons b bs)
  have "unat b < 256" using unsigned_less [of b] by simp
  then have "(unat b + 256 * nat_of bs) mod 256 = unat b" "(unat b + 256 * nat_of bs) div 256 = nat_of bs" by auto
  then show ?case using Cons by simp
qed simp

text \<open>The memory image of an \<open>n\<close>-byte integer on a host, and back.\<close>

definition mem_put :: "bool \<Rightarrow> nat \<Rightarrow> nat \<Rightarrow> bytes" where
  "mem_put le n v = (if le then bytes_of n v else rev (bytes_of n v))"

definition mem_get :: "bool \<Rightarrow> bytes \<Rightarrow> nat" where
  "mem_get le bs = (if le then nat_of bs else nat_of (rev bs))"

lemma length_mem_put [simp]: "length (mem_put le n v) = n"
  by (simp add: mem_put_def)

lemma mem_get_put: "mem_get le (mem_put le n v) = v mod 256 ^ n"
  by (simp add: mem_get_def mem_put_def nat_of_bytes_of)

lemma mem_put_get: "mem_put le (length bs) (mem_get le bs) = bs"
  using bytes_of_nat_of [of bs] bytes_of_nat_of [of "rev bs"] by (simp add: mem_get_def mem_put_def)

subsection \<open>The conversion helpers\<close>

text \<open>The exchange loop of \<^verbatim>\<open>ShiftByte\<close>, with its three exclusive-ors.\<close>

function shift_loop :: "bytes \<Rightarrow> nat \<Rightarrow> nat \<Rightarrow> bytes" where
  "shift_loop bs left right =
     (if left < right then
        let bs = bs[left := bs ! left XOR bs ! right];
            bs = bs[right := bs ! right XOR bs ! left];
            bs = bs[left := bs ! left XOR bs ! right]
        in shift_loop bs (left + 1) (right - 1)
      else bs)"
  by auto
termination by (relation "measure (\<lambda>(_, _, right). right)") auto

declare shift_loop.simps [simp del]

definition ShiftByte :: "bytes \<Rightarrow> bytes" where
  "ShiftByte bs = shift_loop bs 0 (length bs - 1)"

definition ntohl :: "bool \<Rightarrow> u32 \<Rightarrow> u32" where
  "ntohl le v = of_nat (mem_get False (mem_put le 4 (unat v)))"

definition IsLittleEndian :: "bool \<Rightarrow> bool" where
  "IsLittleEndian le = (let data = 1 in if data = ntohl le data then False else True)"

definition ProcByteOrder :: "bool \<Rightarrow> bytes \<Rightarrow> bytes" where
  "ProcByteOrder le bs = (if IsLittleEndian le then bs else ShiftByte bs)"

definition SoftBusHtoLl :: "bool \<Rightarrow> u32 \<Rightarrow> u32" where
  "SoftBusHtoLl le v = of_nat (mem_get le (ProcByteOrder le (mem_put le 4 (unat v))))"

definition SoftBusHtoLll :: "bool \<Rightarrow> u64 \<Rightarrow> u64" where
  "SoftBusHtoLll le v = of_nat (mem_get le (ProcByteOrder le (mem_put le 8 (unat v))))"

definition SoftBusLtoHl :: "bool \<Rightarrow> u32 \<Rightarrow> u32" where
  "SoftBusLtoHl le v = of_nat (mem_get le (ProcByteOrder le (mem_put le 4 (unat v))))"

definition SoftBusLtoHll :: "bool \<Rightarrow> u64 \<Rightarrow> u64" where
  "SoftBusLtoHll le v = of_nat (mem_get le (ProcByteOrder le (mem_put le 8 (unat v))))"

definition SoftBusHtoLs :: "bool \<Rightarrow> u16 \<Rightarrow> u16" where
  "SoftBusHtoLs le v = of_nat (mem_get le (ProcByteOrder le (mem_put le 2 (unat v))))"

definition SoftBusLtoHs :: "bool \<Rightarrow> u16 \<Rightarrow> u16" where
  "SoftBusLtoHs le v = of_nat (mem_get le (ProcByteOrder le (mem_put le 2 (unat v))))"

definition SoftBusLEtoBEs :: "bool \<Rightarrow> u16 \<Rightarrow> u16" where
  "SoftBusLEtoBEs le v =
     (if \<not> IsLittleEndian le then v else of_nat (mem_get le (ShiftByte (mem_put le 2 (unat v)))))"

definition SoftBusBEtoLEs :: "bool \<Rightarrow> u16 \<Rightarrow> u16" where
  "SoftBusBEtoLEs le v =
     (if \<not> IsLittleEndian le then v else of_nat (mem_get le (ShiftByte (mem_put le 2 (unat v)))))"

subsection \<open>The packet heads\<close>

record ConnPktHead =
  pk_magic :: u32
  pk_module :: u32
  pk_seq :: u64
  pk_flag :: u32
  pk_len :: u32

definition PackConnPktHead :: "bool \<Rightarrow> ConnPktHead option \<Rightarrow> ConnPktHead option" where
  "PackConnPktHead le data =
     (case data of
        None \<Rightarrow> None
      | Some d \<Rightarrow> Some (d\<lparr>pk_magic := SoftBusHtoLl le (pk_magic d), pk_flag := SoftBusHtoLl le (pk_flag d),
          pk_module := SoftBusHtoLl le (pk_module d), pk_len := SoftBusHtoLl le (pk_len d),
          pk_seq := SoftBusHtoLll le (pk_seq d)\<rparr>))"

definition UnpackConnPktHead :: "bool \<Rightarrow> ConnPktHead option \<Rightarrow> ConnPktHead option" where
  "UnpackConnPktHead le data =
     (case data of
        None \<Rightarrow> None
      | Some d \<Rightarrow> Some (d\<lparr>pk_magic := SoftBusLtoHl le (pk_magic d), pk_flag := SoftBusLtoHl le (pk_flag d),
          pk_module := SoftBusLtoHl le (pk_module d), pk_len := SoftBusLtoHl le (pk_len d),
          pk_seq := SoftBusLtoHll le (pk_seq d)\<rparr>))"

text \<open>The packed 24-byte image of the head in the memory of a host.\<close>

definition head_bytes :: "bool \<Rightarrow> ConnPktHead \<Rightarrow> bytes" where
  "head_bytes le h = mem_put le 4 (unat (pk_magic h)) @ mem_put le 4 (unat (pk_module h)) @
     mem_put le 8 (unat (pk_seq h)) @ mem_put le 4 (unat (pk_flag h)) @ mem_put le 4 (unat (pk_len h))"

definition head_of :: "bool \<Rightarrow> bytes \<Rightarrow> ConnPktHead" where
  "head_of le bs = \<lparr>pk_magic = of_nat (mem_get le (take 4 bs)), pk_module = of_nat (mem_get le (take 4 (drop 4 bs))),
     pk_seq = of_nat (mem_get le (take 8 (drop 8 bs))), pk_flag = of_nat (mem_get le (take 4 (drop 16 bs))),
     pk_len = of_nat (mem_get le (take 4 (drop 20 bs)))\<rparr>"

record ProxyMessageHead =
  pm_type :: u8
  pm_cipher :: u8
  pm_myId :: u16
  pm_peerId :: u16
  pm_reserved :: u16

definition PackProxyMessageHead :: "bool \<Rightarrow> ProxyMessageHead option \<Rightarrow> ProxyMessageHead option" where
  "PackProxyMessageHead le msg =
     (case msg of
        None \<Rightarrow> None
      | Some m \<Rightarrow> Some (m\<lparr>pm_myId := SoftBusLEtoBEs le (pm_myId m), pm_peerId := SoftBusLEtoBEs le (pm_peerId m),
          pm_reserved := SoftBusLEtoBEs le (pm_reserved m)\<rparr>))"

definition UnpackProxyMessageHead :: "bool \<Rightarrow> ProxyMessageHead option \<Rightarrow> ProxyMessageHead option" where
  "UnpackProxyMessageHead le msg =
     (case msg of
        None \<Rightarrow> None
      | Some m \<Rightarrow> Some (m\<lparr>pm_peerId := SoftBusLtoHs le (pm_peerId m), pm_myId := SoftBusLtoHs le (pm_myId m),
          pm_reserved := SoftBusLtoHs le (pm_reserved m)\<rparr>))"

subsection \<open>What the helpers compute\<close>

lemma xor_swap [simp]: "b XOR (a XOR b) = (a :: u8)" "(a XOR b) XOR a = (b :: u8)"
  by (rule bit_word_eqI; auto simp: bit_xor_iff)+

lemma shift_loop_nth:
  "j < length bs \<Longrightarrow> length (shift_loop bs i j) = length bs \<and>
     (\<forall>k<length bs. shift_loop bs i j ! k = (if i \<le> k \<and> k \<le> j then bs ! (i + j - k) else bs ! k))"
proof (induction bs i j rule: shift_loop.induct)
  case (1 bs i j)
  show ?case
  proof (cases "i < j")
    case False
    then have "shift_loop bs i j = bs" by (subst shift_loop.simps) simp
    moreover have "i \<le> k \<and> k \<le> j \<Longrightarrow> i + j - k = k" for k using False by auto
    ultimately show ?thesis by auto
  next
    case True
    define b where "b = bs[i := bs ! j, j := bs ! i]"
    have step: "shift_loop bs i j = shift_loop b (i + 1) (j - 1)"
      using True "1.prems" unfolding b_def by (subst shift_loop.simps) (simp add: Let_def list_update_swap)
    have b: "length b = length bs" "\<And>k. k < length bs \<Longrightarrow> b ! k = (if k = j then bs ! i else if k = i then bs ! j else bs ! k)"
      by (auto simp: b_def nth_list_update)
    have "j - 1 < length b" using "1.prems" b by simp
    from 1(1) [OF True refl refl refl] this
    have IH: "length (shift_loop b (i + 1) (j - 1)) = length b"
      "\<And>k. k < length b \<Longrightarrow> shift_loop b (i + 1) (j - 1) ! k =
         (if i + 1 \<le> k \<and> k \<le> j - 1 then b ! (i + 1 + (j - 1) - k) else b ! k)"
      unfolding b_def using True "1.prems" by (simp_all add: list_update_swap)
    have "shift_loop bs i j ! k = (if i \<le> k \<and> k \<le> j then bs ! (i + j - k) else bs ! k)"
      if k: "k < length bs" for k
    proof -
      consider "i < k" "k < j" | "k = i" | "k = j" | "k < i" | "j < k" by linarith
      then show ?thesis
        using IH(2) [of k] b k True "1.prems" by cases (auto simp: step)
    qed
    then show ?thesis using IH(1) b step by simp
  qed
qed

lemma ShiftByte_rev: "ShiftByte bs = rev bs"
proof (cases "bs = []")
  case True
  then show ?thesis unfolding ShiftByte_def by (subst shift_loop.simps) simp
next
  case False
  then have "length bs - 1 < length bs" by simp
  from shift_loop_nth [OF this, of 0] show ?thesis
    unfolding ShiftByte_def by (intro nth_equalityI) (auto simp: rev_nth)
qed

lemma bytes_of_1: "bytes_of 4 (Suc 0) = [1, 0, 0, 0]"
proof -
  have four: "(4 :: nat) = Suc (Suc (Suc (Suc 0)))" by simp
  have "bytes_of (Suc (Suc (Suc (Suc 0)))) (Suc 0) = [1, 0, 0, 0]" by simp
  then show ?thesis by (simp only: four)
qed

lemma IsLittleEndian_simp [simp]: "IsLittleEndian le = le"
  by (simp add: IsLittleEndian_def ntohl_def mem_get_def mem_put_def bytes_of_1)

lemma ProcByteOrder_host:
  "ProcByteOrder le (mem_put le n v) = bytes_of n v"
  by (simp add: ProcByteOrder_def ShiftByte_rev mem_put_def)

lemma host_ProcByteOrder:
  "mem_get le (ProcByteOrder le bs) = nat_of bs"
  by (simp add: ProcByteOrder_def ShiftByte_rev mem_get_def)

text \<open>Storing the converted value puts the little endian bytes in memory, and reading memory
  back and converting reads them.\<close>

lemma mem_put_converted:
  "mem_put le n (mem_get le (ProcByteOrder le (mem_put le n v))) = bytes_of n v"
  using mem_put_get [of le "bytes_of n v"] by (simp add: ProcByteOrder_host)

lemma mem_get_converted:
  "mem_get le (ProcByteOrder le (mem_put le (length bs) (mem_get le bs))) = nat_of bs"
  by (simp add: mem_put_get host_ProcByteOrder)

lemma mem_get_word:
  "LENGTH('a::len) = 8 * length x \<Longrightarrow> unat (of_nat (mem_get le x) :: 'a word) = mem_get le x"
proof -
  assume n: "LENGTH('a) = 8 * length x"
  have "mem_get le x < 256 ^ length x"
    using nat_of_less [of x] nat_of_less [of "rev x"] by (simp add: mem_get_def)
  then show ?thesis using n by (simp add: unat_of_nat take_bit_nat_def power_mult)
qed

lemma host_to_wire:
  "LENGTH('a::len) = 8 * n \<Longrightarrow>
     mem_put le n (unat (of_nat (mem_get le (ProcByteOrder le (mem_put le n (unat v)))) :: 'a word)) = bytes_of n (unat (v :: 'a word))"
  using mem_get_word [where 'a = 'a, of "bytes_of n (unat v)" le] mem_put_converted [of le n "unat v"]
  by (simp add: ProcByteOrder_host)

lemma wire_to_host:
  "LENGTH('a::len) = 8 * n \<Longrightarrow>
     (of_nat (mem_get le (ProcByteOrder le (mem_put le n (unat (of_nat (mem_get le (bytes_of n (unat v))) :: 'a word))))) :: 'a word) = v"
proof -
  assume n: "LENGTH('a) = 8 * n"
  have "unat v < 2 ^ LENGTH('a)" by (rule unsigned_less)
  then have "unat v mod 256 ^ n = unat v" using n by (simp add: power_mult)
  then show ?thesis
    using mem_get_word [where 'a = 'a, of "bytes_of n (unat v)" le] mem_get_converted [of le "bytes_of n (unat v)"] n
    by (simp add: nat_of_bytes_of)
qed

lemmas host_wire_defs = SoftBusHtoLs_def SoftBusHtoLl_def SoftBusHtoLll_def SoftBusLtoHs_def SoftBusLtoHl_def SoftBusLtoHll_def

lemma host_to_wire_words:
  "mem_put le 4 (unat (SoftBusHtoLl le v4)) = bytes_of 4 (unat v4)"
  "mem_put le 8 (unat (SoftBusHtoLll le v8)) = bytes_of 8 (unat v8)"
  "mem_put le 2 (unat (SoftBusHtoLs le v2)) = bytes_of 2 (unat v2)"
  unfolding host_wire_defs by (rule host_to_wire; simp)+

lemma wire_to_host_words:
  "SoftBusLtoHl le (of_nat (mem_get le (bytes_of 4 (unat v4)))) = v4"
  "SoftBusLtoHll le (of_nat (mem_get le (bytes_of 8 (unat v8)))) = v8"
  "SoftBusLtoHs le (of_nat (mem_get le (bytes_of 2 (unat v2)))) = v2"
  unfolding host_wire_defs by (rule wire_to_host; simp)+

subsection \<open>The head on the wire\<close>

text \<open>The wire format: every field in little endian order, whatever the host.\<close>

definition wire_head :: "ConnPktHead \<Rightarrow> bytes" where
  "wire_head h = bytes_of 4 (unat (pk_magic h)) @ bytes_of 4 (unat (pk_module h)) @ bytes_of 8 (unat (pk_seq h)) @
     bytes_of 4 (unat (pk_flag h)) @ bytes_of 4 (unat (pk_len h))"

lemma length_wire_head [simp]: "length (wire_head h) = 24"
  by (simp add: wire_head_def)

lemma length_head_bytes [simp]: "length (head_bytes le h) = 24"
  by (simp add: head_bytes_def)

lemma pack_wire:
  "\<exists>p. PackConnPktHead le (Some h) = Some p \<and> head_bytes le p = wire_head h"
  by (simp add: PackConnPktHead_def head_bytes_def wire_head_def host_to_wire_words)

lemma wire_unpack:
  "UnpackConnPktHead le (Some (head_of le (wire_head h @ rest))) = Some h"
  by (simp add: UnpackConnPktHead_def head_of_def wire_head_def wire_to_host_words)

lemma head_of_take: "24 \<le> n \<Longrightarrow> head_of le (take n bs) = head_of le bs"
  by (simp add: head_of_def drop_take min_def)

text \<open>C13. The packet head crosses between hosts of any byte order: packing it puts the same
  24 little endian bytes on the wire on a little and on a big endian host, and unpacking those
  bytes on a host of either order gives back every field.\<close>

theorem pkt_head_round_trip:
  "\<exists>p. PackConnPktHead le (Some h) = Some p \<and>
     head_bytes le p = wire_head h \<and> length (head_bytes le p) = 24 \<and>
     UnpackConnPktHead le' (Some (head_of le' (head_bytes le p))) = Some h"
  using pack_wire [of le h] wire_unpack [of le' h "[]"] by auto

end
