(* ===== verification/Br_Frame.thy ===== *)
theory Br_Frame
  imports Pkt_Head Conn_Common
begin

text \<open>
  The byte stream of a BR connection, \<^verbatim>\<open>core/connection/br/src/softbus_conn_br_trans.c\<close> and the
  read loop of \<^verbatim>\<open>softbus_conn_br_connection.c\<close>: cutting the received stream into packets,
  sending a packet in pieces of at most the MTU and packing control messages. The SPP socket
  driver and cJSON are parameters. \<open>le\<close> is the byte order of the host.
\<close>

abbreviation (input) MAGIC_NUMBER :: u32 where "MAGIC_NUMBER \<equiv> 0xBABEFACE"
abbreviation (input) SIZEOF_PKT_HEAD :: nat where "SIZEOF_PKT_HEAD \<equiv> 24"
abbreviation (input) BR_READ_SOCKET_CLOSED :: int where "BR_READ_SOCKET_CLOSED \<equiv> 0"

subsection \<open>Receiving\<close>

text \<open>The head is unpacked in place, in the buffer.\<close>

definition unpack_in_place :: "bool \<Rightarrow> bytes \<Rightarrow> ConnPktHead \<times> bytes" where
  "unpack_in_place le bs =
     (case UnpackConnPktHead le (Some (head_of le bs)) of
        None \<Rightarrow> (head_of le bs, bs)
      | Some h \<Rightarrow> (h, head_bytes le h @ drop SIZEOF_PKT_HEAD bs))"

definition BrRecvDataParse :: "bool \<Rightarrow> env \<Rightarrow> nat \<Rightarrow> LimitedBuffer \<Rightarrow> bytes option \<times> i32 \<times> LimitedBuffer" where
  "BrRecvDataParse le e k b =
     (let pktHeadLen = 24 :: u32 in
      if lb_length b < pktHeadLen then (None, 0, b)
      else let (hdr, buf) = unpack_in_place le (lb_buffer b); b = b\<lparr>lb_buffer := buf\<rparr> in
        if pk_magic hdr \<noteq> MAGIC_NUMBER then (None, 0, b\<lparr>lb_length := 0\<rparr>)
        else if lb_capacity b - pktHeadLen < pk_len hdr then (None, 0, b\<lparr>lb_length := 0\<rparr>)
        else let packLen = pk_len hdr + pktHeadLen in
          if lb_length b < packLen then (None, 0, b)
          else if \<not> SoftBusCalloc e k (unat packLen) then (None, 0, b)
          else if \<not> memcpy_ok e (unat packLen) (unat packLen) then (None, 0, b)
          else if lb_length b > packLen \<and> \<not> memcpy_ok e (unat (lb_length b)) (unat (lb_length b - packLen))
            then (None, 0, b)
          else let dataCopy = take (unat packLen) buf;
              moved = (if lb_length b > packLen
                then take (unat (lb_length b - packLen)) (drop (unat packLen) buf) @ drop (unat (lb_length b - packLen)) buf
                else buf)
            in (Some dataCopy, packLen, b\<lparr>lb_buffer := moved, lb_length := lb_length b - packLen\<rparr>))"

text \<open>
  The driver's \<open>Read\<close>, given the room: the value it returns, the bytes it stored and the
  state of the link after it.
\<close>

type_synonym 's spp_read = "'s \<Rightarrow> int \<Rightarrow> int \<times> bytes \<times> 's"

definition store_at :: "bytes \<Rightarrow> nat \<Rightarrow> bytes \<Rightarrow> bytes" where
  "store_at buf i w = take i buf @ w @ drop (i + length w) buf"

fun ConnBrTransReadOneFrame ::
  "bool \<Rightarrow> env \<Rightarrow> nat \<Rightarrow> 's spp_read \<Rightarrow> nat \<Rightarrow> LimitedBuffer \<Rightarrow> 's \<Rightarrow> (int \<times> bytes option \<times> LimitedBuffer \<times> 's) option" where
  "ConnBrTransReadOneFrame le e k read 0 b s = None"
| "ConnBrTransReadOneFrame le e k read (Suc n) b s =
     (case BrRecvDataParse le e k b of
        (Some data, dataLen, b) \<Rightarrow> Some (sint dataLen, Some data, b, s)
      | (None, _, b) \<Rightarrow>
          let (recvLen, w, s) = read s (sint (lb_capacity b - lb_length b)) in
          let b = b\<lparr>lb_buffer := store_at (lb_buffer b) (unat (lb_length b)) w\<rparr> in
          if recvLen = BR_READ_SOCKET_CLOSED then Some (SOFTBUS_CONN_BR_UNDERLAY_SOCKET_CLOSED, None, b, s)
          else if recvLen < 0 then Some (SOFTBUS_CONN_BR_UNDERLAY_READ_FAIL, None, b, s)
          else ConnBrTransReadOneFrame le e (Suc k) read n (b\<lparr>lb_length := lb_length b + of_int recvLen\<rparr>) s)"

text \<open>The loop of the reader; the value is its status and what it gave to \<open>onDataReceived\<close>.\<close>

fun read_frames ::
  "bool \<Rightarrow> env \<Rightarrow> nat \<Rightarrow> 's spp_read \<Rightarrow> nat \<Rightarrow> nat \<Rightarrow> LimitedBuffer \<Rightarrow> 's \<Rightarrow> (int \<times> bytes list \<times> 's) option" where
  "read_frames le e k read n 0 b s = None"
| "read_frames le e k read n (Suc m) b s =
     (case ConnBrTransReadOneFrame le e k read n b s of
        None \<Rightarrow> None
      | Some (dataLen, data, b, s) \<Rightarrow>
          if dataLen < 0 then Some (dataLen, [], s)
          else case read_frames le e (k + n) read n m b s of
            None \<Rightarrow> None
          | Some (status, ds, s) \<Rightarrow> Some (status, the data # ds, s))"

definition LoopRead ::
  "bool \<Rightarrow> env \<Rightarrow> 's spp_read \<Rightarrow> u32 \<Rightarrow> nat \<Rightarrow> nat \<Rightarrow> 's \<Rightarrow> (int \<times> bytes list \<times> 's) option" where
  "LoopRead le e read readBufferCapacity n m s =
     (case ConnNewLimitedBuffer e 0 None readBufferCapacity of
        (status, Some b) \<Rightarrow> if status \<noteq> SOFTBUS_OK then Some (status, [], s) else read_frames le e 2 read n m b s
      | (status, None) \<Rightarrow> Some (status, [], s))"

subsection \<open>Sending\<close>

type_synonym 's spp_write = "'s \<Rightarrow> bytes \<Rightarrow> int \<times> 's"

text \<open>\<open>None\<close>: still writing. A driver that reports more than it was given makes the loop run
  past the data.\<close>

fun BrTransSend :: "'s spp_write \<Rightarrow> u32 \<Rightarrow> nat \<Rightarrow> bytes \<Rightarrow> 's \<Rightarrow> (status \<times> 's) outcome option" where
  "BrTransSend write mtu 0 data s = None"
| "BrTransSend write mtu (Suc n) data s =
     (if data = [] then Some (Done (SOFTBUS_OK, s))
      else let len = (if length data > unat mtu then unat mtu else length data);
               (writeLen, s) = write s (take len data)
        in if writeLen < 0 then Some (Done (SOFTBUS_CONN_BR_UNDERLAY_WRITE_FAIL, s))
           else if nat writeLen > length data then Some Undef
           else BrTransSend write mtu n (drop (nat writeLen) data) s)"

subsection \<open>Control messages\<close>

text \<open>
  \<^verbatim>\<open>BrCtlMessageSerializationContext\<close>; the union is kept as separate fields, of which the
  method selects the ones that are read. A JSON object is its list of numeric members.
\<close>

record ctl_ctx =
  ctl_connectionId :: u32
  ctl_flag :: u32
  ctl_method :: int
  ctl_delta :: int
  ctl_referenceNumber :: int
  ctl_window :: int
  ctl_seq :: int

abbreviation (input) BR_METHOD_NOTIFY_REQUEST :: int where "BR_METHOD_NOTIFY_REQUEST \<equiv> 1"
abbreviation (input) BR_METHOD_NOTIFY_RESPONSE :: int where "BR_METHOD_NOTIFY_RESPONSE \<equiv> 2"
abbreviation (input) BR_METHOD_NOTIFY_ACK :: int where "BR_METHOD_NOTIFY_ACK \<equiv> 4"
abbreviation (input) BR_METHOD_ACK_RESPONSE :: int where "BR_METHOD_ACK_RESPONSE \<equiv> 5"
abbreviation (input) MODULE_CONNECTION :: int where "MODULE_CONNECTION \<equiv> 11"

type_synonym json = "(string \<times> int) list"

text \<open>cJSON: whether an object can be made, whether the \<open>k\<close>-th member can be added, and printing.\<close>

record cjson =
  create_ok :: bool
  add_ok :: "nat \<Rightarrow> bool"
  print_json :: "json \<Rightarrow> string option"

fun add_members :: "cjson \<Rightarrow> nat \<Rightarrow> json \<Rightarrow> json \<Rightarrow> json option" where
  "add_members j k obj [] = Some obj"
| "add_members j k obj (m # ms) = (if add_ok j k then add_members j (Suc k) (obj @ [m]) ms else None)"

definition ctl_members :: "ctl_ctx \<Rightarrow> json option" where
  "ctl_members ctx =
     (if ctl_method ctx = BR_METHOD_NOTIFY_REQUEST then
        Some [(''KEY_METHOD'', BR_METHOD_NOTIFY_REQUEST), (''KEY_DELTA'', ctl_delta ctx),
          (''KEY_REFERENCE_NUM'', ctl_referenceNumber ctx)]
      else if ctl_method ctx = BR_METHOD_NOTIFY_RESPONSE then
        Some [(''KEY_METHOD'', BR_METHOD_NOTIFY_RESPONSE), (''KEY_REFERENCE_NUM'', ctl_referenceNumber ctx)]
      else if ctl_method ctx = BR_METHOD_NOTIFY_ACK then
        Some [(''KEY_METHOD'', BR_METHOD_NOTIFY_ACK), (''KEY_WINDOWS'', ctl_window ctx), (''KEY_ACK_SEQ_NUM'', ctl_seq ctx)]
      else if ctl_method ctx = BR_METHOD_ACK_RESPONSE then
        Some [(''KEY_METHOD'', BR_METHOD_ACK_RESPONSE), (''KEY_WINDOWS'', ctl_window ctx), (''KEY_ACK_SEQ_NUM'', ctl_seq ctx)]
      else None)"

definition c_string :: "string \<Rightarrow> bytes" where
  "c_string s = map (\<lambda>c. of_nat (of_char c)) s @ [0]"

definition SerializeByJson :: "cjson \<Rightarrow> ctl_ctx \<Rightarrow> status \<times> bytes option" where
  "SerializeByJson j ctx =
     (if \<not> create_ok j then (SOFTBUS_CREATE_JSON_ERR, None)
      else case ctl_members ctx of
        None \<Rightarrow> (SOFTBUS_CONN_BR_INTERNAL_ERR, None)
      | Some ms \<Rightarrow>
          (case add_members j 0 [] ms of
             None \<Rightarrow> (SOFTBUS_CREATE_JSON_ERR, None)
           | Some obj \<Rightarrow>
               (case print_json j obj of
                  None \<Rightarrow> (SOFTBUS_CREATE_JSON_ERR, None)
                | Some data \<Rightarrow> (SOFTBUS_OK, Some (c_string data)))))"

text \<open>The value: the sequence number or the error, the message, and the static counter after.\<close>

definition ConnBrPackCtlMessage ::
  "bool \<Rightarrow> env \<Rightarrow> nat \<Rightarrow> cjson \<Rightarrow> ctl_ctx \<Rightarrow> i64 \<Rightarrow> int \<times> bytes option \<times> i64" where
  "ConnBrPackCtlMessage le e k j ctx ctlMsgSeqGenerator =
     (let seq = ctlMsgSeqGenerator; gen = ctlMsgSeqGenerator + 1 in
      case SerializeByJson j ctx of
        (ret, None) \<Rightarrow> (ret, None, gen)
      | (ret, Some data) \<Rightarrow>
          let dataLen = of_nat (length data) :: u32; bufLen = dataLen + 24 in
          if \<not> SoftBusCalloc e k (unat bufLen) then (SOFTBUS_MALLOC_ERR, None, gen)
          else let hdr = \<lparr>pk_magic = MAGIC_NUMBER, pk_module = of_int MODULE_CONNECTION, pk_seq = seq, pk_flag = ctl_flag ctx,
                  pk_len = dataLen\<rparr> in
            if \<not> memcpy_ok e (unat bufLen) SIZEOF_PKT_HEAD then (SOFTBUS_MEM_ERR, None, gen)
            else if \<not> memcpy_ok e (unat (bufLen - 24)) (unat dataLen) then (SOFTBUS_MEM_ERR, None, gen)
            else (sint seq, Some (head_bytes le (the (PackConnPktHead le (Some hdr))) @ data), gen))"

subsection \<open>Packets in the stream\<close>

type_synonym frame = "ConnPktHead \<times> bytes"

definition wire :: "frame \<Rightarrow> bytes" where
  "wire f = wire_head (fst f) @ snd f"

definition frame_ok :: "u32 \<Rightarrow> frame \<Rightarrow> bool" where
  "frame_ok cap f \<longleftrightarrow> pk_magic (fst f) = MAGIC_NUMBER \<and> unat (pk_len (fst f)) = length (snd f) \<and> length (snd f) + 24 \<le> unat cap"

definition lb_ok :: "LimitedBuffer \<Rightarrow> bool" where
  "lb_ok b \<longleftrightarrow> length (lb_buffer b) = unat (lb_capacity b) \<and> lb_length b \<le> lb_capacity b"

definition lb_content :: "LimitedBuffer \<Rightarrow> bytes" where
  "lb_content b = take (unat (lb_length b)) (lb_buffer b)"

lemma length_wire: "length (wire f) = 24 + length (snd f)"
  by (simp add: wire_def)

lemma length_lb_content: "lb_ok b \<Longrightarrow> length (lb_content b) = unat (lb_length b)"
  by (simp add: lb_ok_def lb_content_def word_le_nat_alt)

lemma head_bytes_le: "head_bytes True h = wire_head h"
  by (simp add: head_bytes_def wire_head_def mem_put_def)

lemma unpack_wire:
  "take 24 bs = wire_head h \<Longrightarrow> unpack_in_place True bs = (h, bs)"
proof -
  assume t: "take 24 bs = wire_head h"
  then have bs: "bs = wire_head h @ drop 24 bs" by (metis append_take_drop_id)
  then have "UnpackConnPktHead True (Some (head_of True bs)) = Some h"
    using wire_unpack [of True h "drop 24 bs"] by simp
  then show ?thesis using bs by (simp add: unpack_in_place_def head_bytes_le)
qed

lemma frame_lens:
  assumes "frame_ok cap f"
  shows "\<not> cap - 24 < pk_len (fst f)" "unat (pk_len (fst f) + 24) = length (wire f)"
proof -
  have a: "unat (pk_len (fst f)) + 24 \<le> unat cap" and b: "unat (pk_len (fst f)) = length (snd f)"
    using assms by (auto simp: frame_ok_def)
  have cap: "unat cap < 4294967296" using unsigned_less [of cap] by simp
  have "unat (cap - 24) = unat cap - 24" using a by (subst unat_sub) (simp_all add: word_le_nat_alt)
  then show "\<not> cap - 24 < pk_len (fst f)" using a by (simp add: word_less_nat_alt)
  show "unat (pk_len (fst f) + 24) = length (wire f)"
    using a b cap by (subst unat_add_lem [THEN iffD1]) (simp_all add: length_wire)
qed

lemma parse_head:
  assumes "frame_ok (lb_capacity b) f" "lb_ok b" "24 \<le> unat (lb_length b)" "take 24 (lb_content b) = wire_head (fst f)"
  shows "unpack_in_place True (lb_buffer b) = (fst f, lb_buffer b)"
proof -
  have "take 24 (lb_buffer b) = wire_head (fst f)"
    using assms(3,4) by (simp add: lb_content_def min_def)
  then show ?thesis by (rule unpack_wire)
qed

lemma parse_short:
  assumes f: "frame_ok (lb_capacity b) f" and ok: "lb_ok b"
    and pre: "length (lb_content b) < length (wire f)" "lb_content b = take (length (lb_content b)) (wire f)"
  shows "BrRecvDataParse True e k b = (None, 0, b)"
proof (cases "lb_length b < 24")
  case True
  then show ?thesis by (simp add: BrRecvDataParse_def)
next
  case False
  then have long: "24 \<le> unat (lb_length b)" by (simp add: word_less_nat_alt)
  then have "take 24 (lb_content b) = wire_head (fst f)"
    using pre(2) ok by (subst pre(2)) (simp add: length_lb_content wire_def min_def)
  from parse_head [OF f ok long this] have u: "unpack_in_place True (lb_buffer b) = (fst f, lb_buffer b)" .
  have "lb_length b < pk_len (fst f) + 24"
    using pre(1) ok frame_lens(2) [OF f] by (simp add: word_less_nat_alt length_lb_content)
  then show ?thesis
    using False u f frame_lens(1) [OF f] by (simp add: BrRecvDataParse_def Let_def frame_ok_def)
qed

lemma parse_whole:
  assumes f: "frame_ok (lb_capacity b) f" and ok: "lb_ok b" and c: "lb_content b = wire f @ rest"
    and e: "healthy e" "unat (lb_capacity b) \<le> MAX_MALLOC_SIZE"
  shows "\<exists>b'. BrRecvDataParse True e k b = (Some (wire f), of_nat (length (wire f)), b') \<and>
    lb_ok b' \<and> lb_capacity b' = lb_capacity b \<and> lb_content b' = rest"
proof -
  let ?p = "pk_len (fst f) + 24"
  have len: "unat (lb_length b) = length (wire f) + length rest"
    using arg_cong [OF c, of length] ok by (simp add: length_lb_content)
  have p: "unat ?p = length (wire f)" by (rule frame_lens(2) [OF f])
  then have pw: "?p = of_nat (length (wire f))" by (metis of_nat_unat ucast_id)
  have long: "24 \<le> unat (lb_length b)" using len by (simp add: length_wire)
  have capl: "unat (lb_length b) \<le> unat (lb_capacity b)" using ok by (simp add: lb_ok_def word_le_nat_alt)
  from c have "take 24 (lb_content b) = wire_head (fst f)" by (simp add: wire_def)
  from parse_head [OF f ok long this] have u: "unpack_in_place True (lb_buffer b) = (fst f, lb_buffer b)" .
  have sub: "unat (lb_length b - ?p) = length rest"
    using len p by (subst unat_sub) (simp_all add: word_le_nat_alt)
  have s1: "SoftBusCalloc e k (unat ?p)"
    using p len capl e by (intro healthy_SoftBusCalloc) (simp_all add: length_wire)
  have s2: "memcpy_ok e (unat ?p) (unat ?p)"
    using p len capl e by (intro securec_memcpy healthy_securec) (simp_all add: length_wire)
  have s3: "memcpy_ok e (unat (lb_length b)) (unat (lb_length b - ?p))"
    using sub len capl e by (intro securec_memcpy healthy_securec) (simp_all add: length_wire)
  define moved where "moved = (if ?p < lb_length b
     then take (unat (lb_length b - ?p)) (drop (unat ?p) (lb_buffer b)) @ drop (unat (lb_length b - ?p)) (lb_buffer b)
     else lb_buffer b)"
  have buf: "take (length (wire f) + length rest) (lb_buffer b) = wire f @ rest"
    using c len by (simp add: lb_content_def)
  have tk: "take (length (wire f)) (lb_buffer b) = wire f"
    using arg_cong [OF buf, of "take (length (wire f))"] by (simp add: min_def)
  have dr: "take (length rest) (drop (length (wire f)) (lb_buffer b)) = rest"
    using arg_cong [OF buf, of "drop (length (wire f))"] by (simp add: drop_take)
  have run: "BrRecvDataParse True e k b = (Some (wire f), ?p, b\<lparr>lb_buffer := moved, lb_length := lb_length b - ?p\<rparr>)"
    using u f frame_lens(1) [OF f] long len p s1 s2 s3 tk
    unfolding BrRecvDataParse_def Let_def moved_def
    by (simp add: frame_ok_def word_less_nat_alt not_less)
  have lm: "length moved = length (lb_buffer b)" and tm: "take (length rest) moved = rest"
  proof -
    show "length moved = length (lb_buffer b)"
      using sub p len ok capl by (auto simp: moved_def lb_ok_def)
    show "take (length rest) moved = rest"
      using sub p dr len by (auto simp: moved_def word_less_nat_alt)
  qed
  have "lb_length b - ?p \<le> lb_capacity b" using sub len capl by (simp add: word_le_nat_alt)
  then show ?thesis
    using run pw sub lm tm ok by (intro exI [of _ "b\<lparr>lb_buffer := moved, lb_length := lb_length b - ?p\<rparr>"])
      (auto simp: lb_ok_def lb_content_def)
qed

text \<open>
  What the driver promises of a stream whose bytes still to come are \<open>rem\<close>: a read into a
  non-empty room fails with a negative value, returns 0 at the end of the stream, or stores the
  next bytes, at least one and at most the room.
\<close>

definition spp_stream :: "'s spp_read \<Rightarrow> ('s \<Rightarrow> bytes) \<Rightarrow> bool" where
  "spp_stream read rem \<longleftrightarrow> (\<forall>s n. 0 < n \<longrightarrow> (case read s n of (r, w, s') \<Rightarrow>
     r < 0 \<and> w = [] \<or> r = 0 \<and> w = [] \<and> rem s = [] \<or> 0 < r \<and> r \<le> n \<and> int (length w) = r \<and> rem s = w @ rem s'))"

lemma spp_stream_cases:
  assumes "spp_stream read rem" "0 < n"
  obtains s' r where "read s n = (r, [], s')" "r < 0"
  | s' where "read s n = (0, [], s')" "rem s = []"
  | w s' where "read s n = (int (length w), w, s')" "w \<noteq> []" "int (length w) \<le> n" "rem s = w @ rem s'"
proof -
  obtain r w s' where rd: "read s n = (r, w, s')" by (cases "read s n")
  have "case read s n of (r, w, s') \<Rightarrow>
     r < 0 \<and> w = [] \<or> r = 0 \<and> w = [] \<and> rem s = [] \<or> 0 < r \<and> r \<le> n \<and> int (length w) = r \<and> rem s = w @ rem s'"
    using assms by (simp add: spp_stream_def)
  then consider "r < 0" "w = []" | "r = 0" "w = []" "rem s = []"
    | "0 < r" "r \<le> n" "int (length w) = r" "rem s = w @ rem s'"
    unfolding rd by auto
  then show thesis
  proof cases
    case 1
    then show thesis using that(1) rd by simp
  next
    case 2
    then show thesis using that(2) rd by simp
  next
    case 3
    then show thesis using that(3) [of w s'] rd by auto
  qed
qed

lemma sint_small: "n < 2147483648 \<Longrightarrow> sint (of_nat n :: u32) = int n"
  by (simp add: signed_of_nat signed_take_bit_int_eq_self)

lemma room:
  assumes "lb_ok b" "unat (lb_capacity b) \<le> MAX_MALLOC_SIZE"
  shows "sint (lb_capacity b - lb_length b) = int (unat (lb_capacity b) - unat (lb_length b))"
proof -
  have u: "unat (lb_capacity b - lb_length b) = unat (lb_capacity b) - unat (lb_length b)"
    using assms(1) by (intro unat_sub) (simp add: lb_ok_def)
  then have "unat (lb_capacity b - lb_length b) < 2147483648" using assms(2) by linarith
  then have "sint (lb_capacity b - lb_length b) = int (unat (lb_capacity b - lb_length b))"
    using sint_small [of "unat (lb_capacity b - lb_length b)"] by simp
  then show ?thesis using u by simp
qed

lemma store_content:
  assumes "lb_ok b" "int (length w) \<le> int (unat (lb_capacity b) - unat (lb_length b))"
  defines "b' \<equiv> b\<lparr>lb_buffer := store_at (lb_buffer b) (unat (lb_length b)) w,
    lb_length := lb_length b + of_int (int (length w))\<rparr>"
  shows "lb_ok b'" "lb_capacity b' = lb_capacity b" "lb_content b' = lb_content b @ w"
proof -
  have cl: "unat (lb_length b) \<le> unat (lb_capacity b)" using assms(1) by (simp add: lb_ok_def word_le_nat_alt)
  have le: "length w \<le> unat (lb_capacity b) - unat (lb_length b)" using assms(2) by (simp only: of_nat_le_iff)
  have cap: "unat (lb_capacity b) < 4294967296" using unsigned_less [of "lb_capacity b"] by simp
  have w: "unat (of_nat (length w) :: u32) = length w"
    using le cap by (simp add: unat_of_nat take_bit_nat_eq_self)
  have u: "unat (lb_length b + of_nat (length w)) = unat (lb_length b) + length w"
    using le cl cap w by (subst unat_add_lem [THEN iffD1]) simp_all
  show "lb_ok b'" using u cl assms(1) le by (simp add: b'_def lb_ok_def store_at_def word_le_nat_alt)
  show "lb_capacity b' = lb_capacity b" by (simp add: b'_def)
  show "lb_content b' = lb_content b @ w"
    using u cl assms(1) by (simp add: b'_def lb_content_def store_at_def lb_ok_def)
qed

definition partial_frame :: "u32 \<Rightarrow> bytes \<Rightarrow> bool" where
  "partial_frame cap part \<longleftrightarrow> (\<exists>g. frame_ok cap g \<and> length part < length (wire g) \<and> part = take (length part) (wire g))"

lemma content_cases:
  assumes whole: "c @ r = concat (map wire fs) @ part" and part: "partial_frame cap part"
    and fs: "list_all (frame_ok cap) fs"
  obtains f fs' rest where "fs = f # fs'" "c = wire f @ rest" "rest @ r = concat (map wire fs') @ part"
  | g where "frame_ok cap g" "length c < length (wire g)" "c = take (length c) (wire g)" "r = [] \<longrightarrow> fs = []"
proof (cases fs)
  case Nil
  from part obtain g where g: "frame_ok cap g" "length part < length (wire g)" "part = take (length part) (wire g)"
    unfolding partial_frame_def by blast
  have c: "c @ r = part" using whole Nil by simp
  then have "c = take (length c) part" by auto
  also have "\<dots> = take (length c) (wire g)" using c by (subst g(3)) (auto simp: min_def)
  finally show thesis using that(2) [of g] g Nil c by auto
next
  case (Cons f fs')
  have w: "c @ r = wire f @ concat (map wire fs') @ part" using whole Cons by simp
  show thesis
  proof (cases "length (wire f) \<le> length c")
    case True
    then obtain rest where "c = wire f @ rest" using w by (metis append_eq_append_conv_if append_take_drop_id)
    then show thesis using that(1) [of f fs' rest] Cons w by simp
  next
    case False
    then have "c = take (length c) (wire f)" using w by (auto simp: append_eq_append_conv_if)
    moreover have "r \<noteq> []" using w False by (metis append_Nil2 length_append not_le le_add1)
    ultimately show thesis using that(2) [of f] False Cons fs by simp
  qed
qed

text \<open>The possible results of reading one packet, with the packets \<open>fs\<close> and a partial one to come.\<close>

definition read_result ::
  "('s \<Rightarrow> bytes) \<Rightarrow> u32 \<Rightarrow> frame list \<Rightarrow> bytes \<Rightarrow> nat \<Rightarrow> int \<times> bytes option \<times> LimitedBuffer \<times> 's \<Rightarrow> bool" where
  "read_result rem cap fs part left res \<longleftrightarrow> (case res of (len, d, b', s') \<Rightarrow>
     (\<exists>f fs'. fs = f # fs' \<and> len = int (length (wire f)) \<and> d = Some (wire f) \<and> lb_ok b' \<and> lb_capacity b' = cap \<and>
        lb_content b' @ rem s' = concat (map wire fs') @ part \<and> length (rem s') \<le> left) \<or>
     len = SOFTBUS_CONN_BR_UNDERLAY_READ_FAIL \<or> len = SOFTBUS_CONN_BR_UNDERLAY_SOCKET_CLOSED \<and> fs = [])"

lemma read_result_mono: "read_result rem cap fs part m res \<Longrightarrow> m \<le> n \<Longrightarrow> read_result rem cap fs part n res"
  unfolding read_result_def by (auto split: prod.splits intro: le_trans)

lemma read_one:
  assumes str: "spp_stream read rem" and e: "healthy e" and cap: "unat cap \<le> MAX_MALLOC_SIZE"
    and part: "partial_frame cap part" and fs: "list_all (frame_ok cap) fs"
  shows "\<lbrakk>lb_ok b; lb_capacity b = cap; lb_content b @ rem s = concat (map wire fs) @ part; length (rem s) < n\<rbrakk> \<Longrightarrow>
     \<exists>res. ConnBrTransReadOneFrame True e k read n b s = Some res \<and> read_result rem cap fs part (length (rem s)) res"
proof (induction n arbitrary: k b s)
  case (Suc n)
  from content_cases [OF Suc.prems(3) part fs] consider
    (whole) f fs' rest where "fs = f # fs'" "lb_content b = wire f @ rest" "rest @ rem s = concat (map wire fs') @ part"
  | (short) g where "frame_ok cap g" "length (lb_content b) < length (wire g)"
      "lb_content b = take (length (lb_content b)) (wire g)" "rem s = [] \<longrightarrow> fs = []" by metis
  then show ?case
  proof cases
    case whole
    have f: "frame_ok (lb_capacity b) f" using fs whole(1) Suc.prems(2) by simp
    obtain b' where b': "BrRecvDataParse True e k b = (Some (wire f), of_nat (length (wire f)), b')"
      "lb_ok b'" "lb_capacity b' = lb_capacity b" "lb_content b' = rest"
      using parse_whole [OF f Suc.prems(1) whole(2) e] cap Suc.prems(2) by auto
    have "length (wire f) < 2147483648" using f cap Suc.prems(2) by (simp add: frame_ok_def length_wire)
    then show ?thesis using b' whole Suc.prems(2) by (simp add: read_result_def sint_small)
  next
    case short
    have g: "frame_ok (lb_capacity b) g" using short(1) Suc.prems(2) by simp
    have none: "BrRecvDataParse True e k b = (None, 0, b)" by (rule parse_short [OF g Suc.prems(1) short(2,3)])
    define n' where "n' = sint (lb_capacity b - lb_length b)"
    have n': "n' = int (unat (lb_capacity b) - unat (lb_length b))"
      unfolding n'_def using cap Suc.prems(2) by (intro room Suc.prems(1)) simp
    have "unat (lb_length b) < unat (lb_capacity b)"
      using short(2) g Suc.prems(1) by (simp add: frame_ok_def length_wire length_lb_content)
    then have pos: "0 < n'" unfolding n' of_nat_0_less_iff by (rule zero_less_diff [THEN iffD2])
    from str pos show ?thesis
    proof (cases rule: spp_stream_cases [where s = s])
      case (1 s' r)
      then show ?thesis using none by (simp add: read_result_def n'_def)
    next
      case (2 s')
      then show ?thesis using none short(4) by (simp add: read_result_def n'_def)
    next
      case (3 w s')
      define b' where "b' = b\<lparr>lb_buffer := store_at (lb_buffer b) (unat (lb_length b)) w,
        lb_length := lb_length b + of_int (int (length w))\<rparr>"
      have st: "lb_ok b'" "lb_capacity b' = lb_capacity b" "lb_content b' = lb_content b @ w"
        unfolding b'_def using Suc.prems(1) 3(3) n' by (intro store_content; simp)+
      have "length (rem s') < n" using Suc.prems(4) 3(2,4) by (cases w) auto
      then obtain res where res: "ConnBrTransReadOneFrame True e (Suc k) read n b' s' = Some res"
        "read_result rem cap fs part (length (rem s')) res"
        using Suc.IH [of b' s' "Suc k"] st Suc.prems(2,3) 3(4) by auto
      have "ConnBrTransReadOneFrame True e k read (Suc n) b s = Some res"
        using none 3(1,2) res(1) by (simp add: n'_def [symmetric] b'_def)
      moreover have "read_result rem cap fs part (length (rem s)) res"
        by (rule read_result_mono [OF res(2)]) (simp add: 3(4))
      ultimately show ?thesis by blast
    qed
  qed
qed simp

lemma read_all:
  assumes str: "spp_stream read rem" and e: "healthy e" and cap: "unat cap \<le> MAX_MALLOC_SIZE"
    and part: "partial_frame cap part"
  shows "\<lbrakk>list_all (frame_ok cap) fs; lb_ok b; lb_capacity b = cap; lb_content b @ rem s = concat (map wire fs) @ part;
      length (rem s) < n; length fs < m\<rbrakk> \<Longrightarrow>
     \<exists>status i s'. read_frames True e k read n m b s = Some (status, map wire (take i fs), s') \<and>
       (status = SOFTBUS_CONN_BR_UNDERLAY_READ_FAIL \<or>
        status = SOFTBUS_CONN_BR_UNDERLAY_SOCKET_CLOSED \<and> take i fs = fs)"
proof (induction m arbitrary: k b s fs)
  case (Suc m)
  obtain res where res: "ConnBrTransReadOneFrame True e k read n b s = Some res"
    "read_result rem cap fs part (length (rem s)) res"
    using read_one [OF str e cap part Suc.prems(1-5)] by blast
  obtain len d b' s' where r: "res = (len, d, b', s')" by (cases res)
  from res(2) consider
    (frame) f fs' where "fs = f # fs'" "len = int (length (wire f))" "d = Some (wire f)" "lb_ok b'" "lb_capacity b' = cap"
      "lb_content b' @ rem s' = concat (map wire fs') @ part" "length (rem s') \<le> length (rem s)"
  | (fail) "len = SOFTBUS_CONN_BR_UNDERLAY_READ_FAIL"
  | (closed) "len = SOFTBUS_CONN_BR_UNDERLAY_SOCKET_CLOSED" "fs = []"
    unfolding read_result_def r by auto
  then show ?case
  proof cases
    case frame
    obtain status i s'' where IH: "read_frames True e (k + n) read n m b' s' = Some (status, map wire (take i fs'), s'')"
      "status = SOFTBUS_CONN_BR_UNDERLAY_READ_FAIL \<or> status = SOFTBUS_CONN_BR_UNDERLAY_SOCKET_CLOSED \<and> take i fs' = fs'"
      using Suc.IH [of fs' b' s' "k + n"] frame Suc.prems by auto
    then show ?thesis using res(1) r frame
      by (intro exI [of _ status] exI [of _ "Suc i"] exI [of _ s'']) auto
  next
    case fail
    then show ?thesis using res(1) r by (intro exI [of _ len] exI [of _ 0]) simp
  next
    case closed
    then show ?thesis using res(1) r by (intro exI [of _ len] exI [of _ 0]) simp
  qed
qed simp

lemma loop_read_start:
  assumes "healthy e" "partial_frame cap part" "unat cap \<le> MAX_MALLOC_SIZE"
  shows "\<exists>b. LoopRead le e read cap n m s = read_frames le e 2 read n m b s \<and> lb_ok b \<and> lb_capacity b = cap \<and> lb_content b = []"
proof -
  have "24 \<le> unat cap" using assms(2) by (auto simp: partial_frame_def frame_ok_def)
  then have "SoftBusCalloc e 0 16" "SoftBusCalloc e 1 (unat cap)" using assms by (auto intro!: healthy_SoftBusCalloc)
  then have "ConnNewLimitedBuffer e 0 None cap =
      (SOFTBUS_OK, Some \<lparr>lb_buffer = replicate (unat cap) 0, lb_capacity = cap, lb_length = 0\<rparr>)"
    by (simp add: ConnNewLimitedBuffer_def)
  then show ?thesis unfolding LoopRead_def
    by (intro exI [of _ "\<lparr>lb_buffer = replicate (unat cap) 0, lb_capacity = cap, lb_length = 0\<rparr>"])
      (simp add: lb_ok_def lb_content_def)
qed

subsection \<open>Sending in pieces\<close>

text \<open>What the driver promises of \<open>Write\<close>: it fails with a negative value and sends nothing, or it
  takes a non-empty beginning of what it is given; \<open>out\<close> is what the link has taken so far.\<close>

definition spp_sink :: "'s spp_write \<Rightarrow> ('s \<Rightarrow> bytes) \<Rightarrow> bool" where
  "spp_sink write out \<longleftrightarrow> (\<forall>s d. d \<noteq> [] \<longrightarrow> (case write s d of (r, s') \<Rightarrow>
     r < 0 \<and> out s' = out s \<or> 0 < r \<and> r \<le> int (length d) \<and> out s' = out s @ take (nat r) d))"

lemma send_pieces:
  assumes sink: "spp_sink write out" and mtu: "0 < unat mtu"
  shows "length data < n \<Longrightarrow> \<exists>status s' i. BrTransSend write mtu n data s = Some (Done (status, s')) \<and>
     out s' = out s @ take i data \<and>
     (status = SOFTBUS_OK \<and> length data \<le> i \<or> status = SOFTBUS_CONN_BR_UNDERLAY_WRITE_FAIL \<and> i < length data)"
proof (induction n arbitrary: data s)
  case (Suc n)
  show ?case
  proof (cases "data = []")
    case True
    then show ?thesis by auto
  next
    case False
    define len where "len = (if length data > unat mtu then unat mtu else length data)"
    have len: "0 < len" "len \<le> length data" using False mtu by (auto simp: len_def)
    obtain r s1 where w: "write s (take len data) = (r, s1)" by (cases "write s (take len data)")
    have ne: "take len data \<noteq> []" using len False by simp
    have "case write s (take len data) of (r, s') \<Rightarrow> r < 0 \<and> out s' = out s \<or>
        0 < r \<and> r \<le> int (length (take len data)) \<and> out s' = out s @ take (nat r) (take len data)"
      by (rule sink [unfolded spp_sink_def, rule_format, OF ne])
    then consider "r < 0" "out s1 = out s"
      | "0 < r" "r \<le> int len" "out s1 = out s @ take (nat r) (take len data)"
      using len(2) unfolding w length_take min.absorb2 [OF len(2)] by auto
    then show ?thesis
    proof cases
      case 1
      then show ?thesis using False w by (intro exI [of _ SOFTBUS_CONN_BR_UNDERLAY_WRITE_FAIL] exI [of _ s1] exI [of _ 0])
          (simp add: len_def [symmetric])
    next
      case 2
      define d where "d = drop (nat r) data"
      have r: "0 < nat r" "nat r \<le> len" using 2 by auto
      then have dl: "length d + nat r = length data" using len by (simp add: d_def)
      then have "length d < n" using Suc.prems r by simp
      from Suc.IH [OF this, of s1] obtain status s' i where IH: "BrTransSend write mtu n d s1 = Some (Done (status, s'))"
        "out s' = out s1 @ take i d" "status = SOFTBUS_OK \<and> length d \<le> i \<or>
           status = SOFTBUS_CONN_BR_UNDERLAY_WRITE_FAIL \<and> i < length d" by blast
      have "BrTransSend write mtu (Suc n) data s = Some (Done (status, s'))"
        using False w 2(1) IH(1) dl by (simp add: len_def [symmetric] d_def)
      moreover have "out s' = out s @ take (nat r + i) data"
        using IH(2) 2(3) r by (simp add: d_def take_add min_def)
      ultimately show ?thesis using IH(3) dl by (intro exI [of _ status] exI [of _ s'] exI [of _ "nat r + i"]) auto
    qed
  qed
qed simp

subsection \<open>Big endian hosts\<close>

lemma unpack_wire_be:
  assumes "take 24 bs = wire_head h"
  shows "unpack_in_place False bs = (h, head_bytes False h @ drop 24 bs)"
proof -
  have bs: "bs = wire_head h @ drop 24 bs" using assms by (metis append_take_drop_id)
  have "UnpackConnPktHead False (Some (head_of False (wire_head h @ drop 24 bs))) = Some h" by (rule wire_unpack)
  then show ?thesis using bs by (simp add: unpack_in_place_def)
qed

lemma head_of_head_bytes: "head_of le (head_bytes le h @ rest) = h"
proof -
  have "unat x mod 256 ^ 4 = unat x" for x :: u32
  proof -
    have "unat x < 2 ^ LENGTH(32)" by (rule unsigned_less)
    then show ?thesis by simp
  qed
  moreover have "unat x mod 256 ^ 8 = unat x" for x :: u64
  proof -
    have "unat x < 2 ^ LENGTH(64)" by (rule unsigned_less)
    then show ?thesis by simp
  qed
  ultimately show ?thesis by (cases h) (simp add: head_of_def head_bytes_def mem_get_put)
qed

lemma bytes_of_magic: "bytes_of 4 3133078222 = [0xCE, 0xFA, 0xBE, 0xBA]"
proof -
  have four: "(4 :: nat) = Suc (Suc (Suc (Suc 0)))" by simp
  show ?thesis unfolding four by simp
qed

lemma swapped_magic: "SoftBusLtoHl False MAGIC_NUMBER \<noteq> MAGIC_NUMBER"
  by (simp add: SoftBusLtoHl_def ProcByteOrder_def ShiftByte_rev mem_put_def mem_get_def bytes_of_magic)

lemma unpack_twice_be:
  assumes "take 24 bs = head_bytes False h" "pk_magic h = MAGIC_NUMBER"
  shows "pk_magic (fst (unpack_in_place False bs)) \<noteq> MAGIC_NUMBER"
proof -
  have bs: "bs = head_bytes False h @ drop 24 bs" using assms(1) by (metis append_take_drop_id)
  then have "head_of False bs = h" using head_of_head_bytes [of False h "drop 24 bs"] by simp
  then show ?thesis using assms(2) swapped_magic by (simp add: unpack_in_place_def UnpackConnPktHead_def)
qed

subsection \<open>Concrete drivers\<close>

text \<open>A link that hands out at most \<open>c\<close> bytes at a time, and one that takes at most \<open>c\<close>.\<close>

definition chunk_read :: "nat \<Rightarrow> bytes spp_read" where
  "chunk_read c s n = (let m = min c (min (nat n) (length s)) in (int m, take m s, drop m s))"

definition chunk_write :: "nat \<Rightarrow> bytes spp_write" where
  "chunk_write c s d = (int (min c (length d)), s @ take (min c (length d)) d)"

lemma chunk_read_stream: "0 < c \<Longrightarrow> spp_stream (chunk_read c) (\<lambda>s. s)"
  unfolding spp_stream_def chunk_read_def Let_def by (auto simp: min_def)

lemma chunk_write_sink: "0 < c \<Longrightarrow> spp_sink (chunk_write c) (\<lambda>s. s)"
  unfolding spp_sink_def chunk_write_def by auto

definition sample_frame :: "bytes \<Rightarrow> frame" where
  "sample_frame d = (\<lparr>pk_magic = MAGIC_NUMBER, pk_module = 11, pk_seq = 7, pk_flag = 3, pk_len = of_nat (length d)\<rparr>, d)"

lemma sample_frame_ok: "length d + 24 \<le> unat cap \<Longrightarrow> frame_ok cap (sample_frame d)"
proof -
  assume a: "length d + 24 \<le> unat cap"
  moreover have "unat cap < 2 ^ LENGTH(32)" by (rule unsigned_less)
  ultimately have "length d < 2 ^ LENGTH(32)" by linarith
  then have "unat (of_nat (length d) :: u32) = length d" by (simp add: unat_of_nat take_bit_nat_eq_self)
  then show ?thesis using a by (simp add: frame_ok_def sample_frame_def)
qed

lemma loop_read_all:
  assumes "spp_stream read rem" "healthy e" "unat cap \<le> MAX_MALLOC_SIZE"
    and "list_all (frame_ok cap) fs" "partial_frame cap part" "rem s = concat (map wire fs) @ part"
    and "length (rem s) < n" "length fs < m"
  shows "\<exists>status i s'. LoopRead True e read cap n m s = Some (status, map wire (take i fs), s') \<and>
     (status = SOFTBUS_CONN_BR_UNDERLAY_READ_FAIL \<or>
      status = SOFTBUS_CONN_BR_UNDERLAY_SOCKET_CLOSED \<and> take i fs = fs)"
proof -
  obtain b where b: "LoopRead True e read cap n m s = read_frames True e 2 read n m b s"
    "lb_ok b" "lb_capacity b = cap" "lb_content b = []"
    using loop_read_start [OF assms(2,5,3), of True read n m s] by blast
  show ?thesis unfolding b(1) using assms b(2-4)
    by (intro read_all [of read rem e cap part fs]) simp_all
qed

subsection \<open>Properties\<close>

text \<open>C8. The reader of a BR connection cuts the stream back into the packets that were sent, however
  the link splits it: on a little endian host, for any driver that keeps the order of the bytes,
  the read loop returns; what it has handed over is a beginning of the sequence of packets, each
  whole and unchanged, and when it ends because the peer closed the socket it is all of them (a
  packet cut off by the end is never handed over).\<close>

theorem br_read_reassembles:
  assumes "spp_stream read rem" "healthy e" "unat cap \<le> MAX_MALLOC_SIZE"
    and "list_all (frame_ok cap) fs" "partial_frame cap part" "rem s = concat (map wire fs) @ part"
    and "length (rem s) < n" "length fs < m"
  shows "\<exists>status i s'. LoopRead True e read cap n m s = Some (status, map wire (take i fs), s') \<and>
     (status = SOFTBUS_CONN_BR_UNDERLAY_READ_FAIL \<or>
      status = SOFTBUS_CONN_BR_UNDERLAY_SOCKET_CLOSED \<and> take i fs = fs)"
  using assms by (rule loop_read_all)

theorem br_read_reassembles_witness:
  "\<exists>status i s'. LoopRead True ideal_env (chunk_read 7) 40 200 3
       (concat (map wire [sample_frame [1, 2, 3], sample_frame []]) @ take 9 (wire (sample_frame [5]))) =
       Some (status, map wire (take i [sample_frame [1, 2, 3], sample_frame []]), s') \<and>
     (status = SOFTBUS_CONN_BR_UNDERLAY_READ_FAIL \<or>
      status = SOFTBUS_CONN_BR_UNDERLAY_SOCKET_CLOSED \<and>
      take i [sample_frame [1, 2, 3], sample_frame []] = [sample_frame [1, 2, 3], sample_frame []])"
proof -
  have w: "length (wire (sample_frame d)) = 24 + length d" for d by (simp add: length_wire sample_frame_def)
  have p: "partial_frame 40 (take 9 (wire (sample_frame [5])))"
    unfolding partial_frame_def
    by (rule exI [of _ "sample_frame [5]"]) (simp add: w sample_frame_ok)
  show ?thesis
    by (rule br_read_reassembles [OF chunk_read_stream healthy_ideal_env _ _ p])
      (simp_all add: w sample_frame_ok)
qed

text \<open>C23. A packet goes out in order and without gaps: for a positive MTU and any driver that takes a
  beginning of what it is given, the send loop ends after at most as many writes as bytes; when it
  reports success the link has taken exactly the packet, and when it reports a write failure
  exactly a strict beginning of it.\<close>

theorem br_send_in_order:
  assumes "spp_sink write out" "mtu \<noteq> 0" "length data < n"
  shows "\<exists>status s' i. BrTransSend write mtu n data s = Some (Done (status, s')) \<and>
     out s' = out s @ take i data \<and>
     (status = SOFTBUS_OK \<and> length data \<le> i \<or> status = SOFTBUS_CONN_BR_UNDERLAY_WRITE_FAIL \<and> i < length data)"
  using assms by (intro send_pieces) (simp_all add: word_gt_0 unat_gt_0)

theorem br_send_in_order_witness:
  "\<exists>status s' i. BrTransSend (chunk_write 2) 3 6 [1, 2, 3, 4, 5] [9] = Some (Done (status, s')) \<and>
     s' = [9] @ take i [1, 2, 3, 4, 5] \<and>
     (status = SOFTBUS_OK \<and> length [1, 2, 3, 4, 5 :: u8] \<le> i \<or>
      status = SOFTBUS_CONN_BR_UNDERLAY_WRITE_FAIL \<and> i < length [1, 2, 3, 4, 5 :: u8])"
  by (rule br_send_in_order [OF chunk_write_sink]) simp_all

text \<open>On a big endian host a packet that does not arrive in one piece is lost. The parser converts
  the head in place each time it runs: once the head is in the buffer and the payload is not, the
  parse waits for more, but whatever comes next, the next parse converts the head a second time,
  no longer finds the magic number and empties the buffer.\<close>

theorem br_big_endian_loses_packet:
  assumes f: "frame_ok (lb_capacity b) f" and ok: "lb_ok b" and j: "24 \<le> j" "j < length (wire f)"
    and c: "lb_content b = take j (wire f)"
  shows "\<exists>b1. BrRecvDataParse False e k b = (None, 0, b1) \<and>
     (\<forall>w. j + length w \<le> unat (lb_capacity b) \<longrightarrow>
        lb_length (snd (snd (BrRecvDataParse False e' k'
          (b1\<lparr>lb_buffer := store_at (lb_buffer b1) j w, lb_length := of_nat (j + length w)\<rparr>)))) = 0)"
proof -
  have jl: "unat (lb_length b) = j" using arg_cong [OF c, of length] ok j by (simp add: length_lb_content)
  have "take 24 (lb_content b) = wire_head (fst f)" using c j by (simp add: wire_def min_def)
  then have t: "take 24 (lb_buffer b) = wire_head (fst f)" using jl j by (simp add: lb_content_def min_def)
  define b1 where "b1 = b\<lparr>lb_buffer := head_bytes False (fst f) @ drop 24 (lb_buffer b)\<rparr>"
  have "lb_length b < pk_len (fst f) + 24" using jl j frame_lens(2) [OF f] by (simp add: word_less_nat_alt)
  moreover have "\<not> lb_length b < 24" using jl j by (simp add: word_less_nat_alt)
  ultimately have p1: "BrRecvDataParse False e k b = (None, 0, b1)"
    using unpack_wire_be [OF t] f frame_lens(1) [OF f] by (simp add: BrRecvDataParse_def Let_def frame_ok_def b1_def)
  have "lb_length (snd (snd (BrRecvDataParse False e' k'
      (b1\<lparr>lb_buffer := store_at (lb_buffer b1) j w, lb_length := of_nat (j + length w)\<rparr>)))) = 0"
    if w: "j + length w \<le> unat (lb_capacity b)" for w
  proof -
    have "unat (lb_capacity b) < 2 ^ LENGTH(32)" by (rule unsigned_less)
    with w have "unat (of_nat (j + length w) :: u32) = j + length w"
      by (simp only: unat_of_nat) (simp add: take_bit_nat_eq_self)
    then have n: "\<not> (of_nat (j + length w) :: u32) < 24" using j by (simp only: word_less_nat_alt) simp
    have "take 24 (store_at (lb_buffer b1) j w) = head_bytes False (fst f)"
      using j by (simp add: store_at_def b1_def min_def)
    from unpack_twice_be [OF this] have m: "pk_magic (fst (unpack_in_place False (store_at (lb_buffer b1) j w))) \<noteq> MAGIC_NUMBER"
      using f by (simp add: frame_ok_def)
    show ?thesis using m n by (simp add: BrRecvDataParse_def Let_def split_beta)
  qed
  then show ?thesis using p1 by blast
qed

definition sample_buffer :: LimitedBuffer where
  "sample_buffer = \<lparr>lb_buffer = take 25 (wire (sample_frame [1, 2])) @ replicate 15 0, lb_capacity = 40, lb_length = 25\<rparr>"

theorem br_big_endian_loses_packet_witness:
  "\<exists>b1. BrRecvDataParse False ideal_env 0 sample_buffer = (None, 0, b1) \<and>
     (\<forall>w. 25 + length w \<le> unat (lb_capacity sample_buffer) \<longrightarrow>
        lb_length (snd (snd (BrRecvDataParse False ideal_env 1
          (b1\<lparr>lb_buffer := store_at (lb_buffer b1) 25 w, lb_length := of_nat (25 + length w)\<rparr>)))) = 0)"
proof -
  have w: "length (wire (sample_frame d)) = 24 + length d" for d by (simp add: length_wire sample_frame_def)
  show ?thesis
    by (rule br_big_endian_loses_packet [where f = "sample_frame [1, 2]"])
      (simp_all add: sample_buffer_def lb_ok_def lb_content_def w sample_frame_ok)
qed

end
