(* ===== verification/Br_Pending.thy ===== *)
theory Br_Pending
  imports Softbus_Prelude
begin

text \<open>
  The table of acknowledgements a BR connection waits for,
  \<^verbatim>\<open>core/connection/br/src/softbus_conn_br_pending_packet.c\<close>. The nodes of \<open>g_pendingList\<close> are kept
  with the address they were allocated at. \<open>pd_held\<close> says that \<open>g_pendingLock\<close> is held by a
  call that has already returned: a call that then tries to lock it never returns, which is the
  value \<open>None\<close>. Where the code has let go of the locks, what the other threads do is a parameter.
\<close>

subsection \<open>State\<close>

record 'd PendingPacket =
  pp_addr :: nat
  pp_id :: u32
  pp_seq :: int
  pp_data :: "'d option"
  pp_finded :: bool

record 'd pend_state =
  pd_list :: "'d PendingPacket list"
  pd_held :: bool
  pd_next :: nat

abbreviation (input) SIZEOF_PENDING_PACKET :: nat where "SIZEOF_PENDING_PACKET \<equiv> 64"

definition pp_key :: "'d PendingPacket \<Rightarrow> u32 \<times> int" where
  "pp_key p = (pp_id p, pp_seq p)"

subsection \<open>Operations\<close>

definition ConnBrInitBrPendingPacket :: "bool \<Rightarrow> status" where
  "ConnBrInitBrPendingPacket mutexInit = (if \<not> mutexInit then SOFTBUS_LOCK_ERR else SOFTBUS_OK)"

definition ConnBrCreateBrPendingPacket ::
  "env \<Rightarrow> bool \<Rightarrow> bool \<Rightarrow> u32 \<Rightarrow> int \<Rightarrow> 'd pend_state \<Rightarrow> (status \<times> 'd pend_state) option" where
  "ConnBrCreateBrPendingPacket e mutexInit condInit cid seq st =
     (if pd_held st then None
      else if \<not> lock_ok e 0 then Some (SOFTBUS_LOCK_ERR, st)
      else if find (\<lambda>p. pp_id p = cid \<and> pp_seq p = seq) (pd_list st) \<noteq> None then Some (SOFTBUS_ALREADY_EXISTED, st)
      else if \<not> SoftBusCalloc e 0 SIZEOF_PENDING_PACKET then Some (SOFTBUS_MALLOC_ERR, st)
      else let pending = \<lparr>pp_addr = pd_next st, pp_id = cid, pp_seq = seq, pp_data = None, pp_finded = False\<rparr>;
               st = st\<lparr>pd_next := pd_next st + 1\<rparr> in
        if \<not> mutexInit then Some (SOFTBUS_LOCK_ERR, st\<lparr>pd_held := True\<rparr>)
        else if \<not> condInit then Some (SOFTBUS_ERR, st\<lparr>pd_held := True\<rparr>)
        else Some (SOFTBUS_OK, st\<lparr>pd_list := pd_list st @ [pending]\<rparr>))"

fun del_first :: "u32 \<Rightarrow> int \<Rightarrow> 'd PendingPacket list \<Rightarrow> 'd PendingPacket list" where
  "del_first cid seq [] = []"
| "del_first cid seq (p # ps) = (if pp_id p = cid \<and> pp_seq p = seq then ps else p # del_first cid seq ps)"

definition ConnBrDelBrPendingPacket :: "env \<Rightarrow> u32 \<Rightarrow> int \<Rightarrow> 'd pend_state \<Rightarrow> 'd pend_state option" where
  "ConnBrDelBrPendingPacket e cid seq st =
     (if pd_held st then None
      else if \<not> lock_ok e 0 then Some st
      else Some (st\<lparr>pd_list := del_first cid seq (pd_list st)\<rparr>))"

fun set_first :: "u32 \<Rightarrow> int \<Rightarrow> 'd option \<Rightarrow> 'd PendingPacket list \<Rightarrow> 'd PendingPacket list option" where
  "set_first cid seq data [] = None"
| "set_first cid seq data (p # ps) =
     (if pp_seq p = seq \<and> pp_id p = cid then Some (p\<lparr>pp_finded := True, pp_data := data\<rparr> # ps)
      else map_option ((#) p) (set_first cid seq data ps))"

definition ConnBrSetBrPendingPacket ::
  "env \<Rightarrow> u32 \<Rightarrow> int \<Rightarrow> 'd option \<Rightarrow> 'd pend_state \<Rightarrow> (status \<times> 'd pend_state) option" where
  "ConnBrSetBrPendingPacket e cid seq data st =
     (if pd_held st then None
      else if \<not> lock_ok e 0 then Some (SOFTBUS_LOCK_ERR, st)
      else case set_first cid seq data (pd_list st) of
        Some ps \<Rightarrow> Some (SOFTBUS_OK, st\<lparr>pd_list := ps\<rparr>)
      | None \<Rightarrow> Some (SOFTBUS_ERR, st))"

text \<open>The absolute time a wait of \<open>waitMillis\<close> ends, from the present time in seconds and microseconds.\<close>

definition pending_deadline :: "int \<times> int \<Rightarrow> u32 \<Rightarrow> int \<times> int" where
  "pending_deadline now waitMillis =
     (let time = fst now * 1000 * 1000 + snd now + uint waitMillis * 1000
      in (time div 1000 div 1000, time mod (1000 * 1000)))"

text \<open>
  What the other threads do to the table while this one holds no lock: between the two locks, in
  the wait (given its deadline), and before the entry is taken out.
\<close>

record 'd others =
  before_lock :: "'d pend_state \<Rightarrow> 'd pend_state"
  in_wait :: "int \<times> int \<Rightarrow> 'd pend_state \<Rightarrow> 'd pend_state"
  before_exit :: "'d pend_state \<Rightarrow> 'd pend_state"

definition at_addr :: "nat \<Rightarrow> 'd pend_state \<Rightarrow> 'd PendingPacket option" where
  "at_addr a st = find (\<lambda>p. pp_addr p = a) (pd_list st)"

text \<open>From the label \<open>EXIT\<close> on: the entry leaves the table.\<close>

definition pending_exit ::
  "'d others \<Rightarrow> nat \<Rightarrow> status \<Rightarrow> 'd option \<Rightarrow> 'd pend_state \<Rightarrow> (status \<times> 'd option \<times> 'd pend_state) outcome option" where
  "pending_exit os a ret data st =
     (let st = before_exit os st in
      if pd_held st then None
      else case at_addr a st of
        None \<Rightarrow> Some Undef
      | Some _ \<Rightarrow> Some (Done (ret, data, st\<lparr>pd_list := filter (\<lambda>p. pp_addr p \<noteq> a) (pd_list st)\<rparr>)))"

definition ConnBrGetBrPendingPacket ::
  "env \<Rightarrow> 'd others \<Rightarrow> int \<times> int \<Rightarrow> u32 \<Rightarrow> int \<Rightarrow> u32 \<Rightarrow> bool \<Rightarrow> 'd pend_state \<Rightarrow>
     (status \<times> 'd option \<times> 'd pend_state) outcome option" where
  "ConnBrGetBrPendingPacket e os now cid seq waitMillis data st =
     (if \<not> data then Some (Done (SOFTBUS_ERR, None, st))
      else if pd_held st then None
      else if \<not> lock_ok e 0 then Some (Done (SOFTBUS_ERR, None, st))
      else case find (\<lambda>p. pp_id p = cid \<and> pp_seq p = seq) (rev (pd_list st)) of
        None \<Rightarrow> Some (Done (SOFTBUS_NOT_FIND, None, st))
      | Some p \<Rightarrow>
          let a = pp_addr p; st = before_lock os st in
          case at_addr a st of
            None \<Rightarrow> Some Undef
          | Some p \<Rightarrow>
              if \<not> lock_ok e 1 then pending_exit os a SOFTBUS_LOCK_ERR None st
              else if pp_finded p then pending_exit os a SOFTBUS_ALREADY_TRIGGERED (pp_data p) st
              else let st = in_wait os (pending_deadline now waitMillis) st in
                case at_addr a st of
                  None \<Rightarrow> Some Undef
                | Some p \<Rightarrow>
                    if pp_finded p then pending_exit os a SOFTBUS_OK (pp_data p) st
                    else pending_exit os a SOFTBUS_TIMOUT None st)"

subsection \<open>Invariant and contents\<close>

definition pend_ok :: "'d pend_state \<Rightarrow> bool" where
  "pend_ok st \<longleftrightarrow> distinct (map pp_key (pd_list st)) \<and> distinct (map pp_addr (pd_list st)) \<and>
     (\<forall>p \<in> set (pd_list st). pp_addr p < pd_next st)"

text \<open>The table as a map: what a key holds, \<open>Some None\<close> while nobody has answered.\<close>

definition answer :: "'d PendingPacket \<Rightarrow> 'd option option" where
  "answer p = (if pp_finded p then Some (pp_data p) else None)"

definition pend_view :: "'d pend_state \<Rightarrow> u32 \<times> int \<Rightarrow> 'd option option option" where
  "pend_view st = map_of (map (\<lambda>p. (pp_key p, answer p)) (pd_list st))"

lemma find_unique:
  "distinct (map pp_key ps) \<Longrightarrow>
     find (\<lambda>p. pp_id p = cid \<and> pp_seq p = seq) ps = Some p \<longleftrightarrow> p \<in> set ps \<and> pp_key p = (cid, seq)"
  by (induction ps) (auto simp: pp_key_def)

lemma find_rev:
  assumes "distinct (map pp_key ps)"
  shows "find (\<lambda>p. pp_id p = cid \<and> pp_seq p = seq) (rev ps) = find (\<lambda>p. pp_id p = cid \<and> pp_seq p = seq) ps"
proof -
  have "distinct (map pp_key (rev ps))" using assms by (simp add: rev_map [symmetric])
  note u = find_unique [OF this, of cid seq] find_unique [OF assms, of cid seq]
  show ?thesis
  proof (cases "find (\<lambda>p. pp_id p = cid \<and> pp_seq p = seq) ps")
    case None
    then have "find (\<lambda>p. pp_id p = cid \<and> pp_seq p = seq) (rev ps) = None" by (auto simp: find_None_iff)
    then show ?thesis using None by simp
  next
    case (Some p)
    then show ?thesis using u [of p] by simp
  qed
qed

lemma find_view: 
  "map_of (map (\<lambda>p. (pp_key p, answer p)) ps) (cid, seq) = map_option answer (find (\<lambda>p. pp_id p = cid \<and> pp_seq p = seq) ps)"
  by (induction ps) (auto simp: pp_key_def)

lemma del_first_spec:
  "distinct (map pp_key ps) \<Longrightarrow> del_first cid seq ps = filter (\<lambda>p. pp_key p \<noteq> (cid, seq)) ps"
proof (induction ps)
  case (Cons p ps)
  then have "pp_key p = (cid, seq) \<Longrightarrow> filter (\<lambda>p. pp_key p \<noteq> (cid, seq)) ps = ps"
    by (intro filter_True) (auto simp: image_iff)
  then show ?case using Cons by (auto simp: pp_key_def)
qed simp

lemma set_first_None: "set_first cid seq d ps = None \<longleftrightarrow> (cid, seq) \<notin> pp_key ` set ps"
  by (induction ps) (auto simp: pp_key_def)

lemma set_first_Some:
  "set_first cid seq d ps = Some ps' \<Longrightarrow> map pp_key ps' = map pp_key ps \<and> map pp_addr ps' = map pp_addr ps \<and>
     map_of (map (\<lambda>p. (pp_key p, answer p)) ps') = (map_of (map (\<lambda>p. (pp_key p, answer p)) ps))((cid, seq) \<mapsto> Some d)"
  by (induction ps arbitrary: ps') (auto simp: pp_key_def answer_def fun_upd_twist split: if_splits)

lemma find_addr:
  "distinct (map pp_addr ps) \<Longrightarrow> find (\<lambda>p. pp_addr p = a) ps = Some p \<longleftrightarrow> p \<in> set ps \<and> pp_addr p = a"
  by (induction ps) auto

lemma view_at_addr: "pend_ok st \<Longrightarrow> at_addr a st = Some p \<Longrightarrow> pend_view st (pp_key p) = Some (answer p)"
  unfolding pend_ok_def at_addr_def pend_view_def
  by (cases "pp_key p") (auto simp: find_view find_addr find_unique)

lemma view_filter_key:
  "map_of (map (\<lambda>p. (pp_key p, answer p)) (filter (\<lambda>q. pp_key q \<noteq> k) ps)) =
     (map_of (map (\<lambda>p. (pp_key p, answer p)) ps))(k := None)"
  by (induction ps) (auto simp: fun_eq_iff)

lemma view_filter:
  assumes "pend_ok st" "at_addr a st = Some p"
  shows "map_of (map (\<lambda>p. (pp_key p, answer p)) (filter (\<lambda>p. pp_addr p \<noteq> a) (pd_list st))) = (pend_view st)(pp_key p := None)"
proof -
  have p: "p \<in> set (pd_list st)" "pp_addr p = a"
    using assms by (auto simp: pend_ok_def at_addr_def find_addr)
  have iff: "pp_addr q \<noteq> a \<longleftrightarrow> pp_key q \<noteq> pp_key p" if "q \<in> set (pd_list st)" for q
    using assms(1) p that unfolding pend_ok_def distinct_map by (metis inj_on_eq_iff)
  then have "filter (\<lambda>p. pp_addr p \<noteq> a) (pd_list st) = filter (\<lambda>q. pp_key q \<noteq> pp_key p) (pd_list st)"
    by (intro filter_cong) auto
  then show ?thesis by (simp add: pend_view_def view_filter_key)
qed

lemma pend_ok_filter: "pend_ok st \<Longrightarrow> pend_ok (st\<lparr>pd_list := filter P (pd_list st)\<rparr>)"
  by (auto simp: pend_ok_def intro: distinct_map_filter)

lemma create_cases:
  assumes "pend_ok st" "ConnBrCreateBrPendingPacket e mi ci cid seq st = Some (ret, st')"
  shows "pend_ok st' \<and> (if ret = SOFTBUS_OK
     then pend_view st (cid, seq) = None \<and> pend_view st' = (pend_view st)((cid, seq) \<mapsto> None) \<and> \<not> pd_held st'
     else pend_view st' = pend_view st)"
proof -
  have "find (\<lambda>p. pp_id p = cid \<and> pp_seq p = seq) (pd_list st) = None \<longleftrightarrow> pend_view st (cid, seq) = None"
    by (simp add: pend_view_def find_view)
  moreover have "pend_view st (cid, seq) = None \<longleftrightarrow> (cid, seq) \<notin> pp_key ` set (pd_list st)"
    by (simp add: pend_view_def map_of_eq_None_iff image_image)
  moreover have "pd_next st \<notin> pp_addr ` set (pd_list st)" using assms(1) by (auto simp: pend_ok_def)
  ultimately show ?thesis using assms
    by (auto simp: ConnBrCreateBrPendingPacket_def Let_def pend_ok_def pend_view_def answer_def pp_key_def map_add_def
        fun_eq_iff less_Suc_eq split: if_splits option.splits)
qed

lemma set_cases:
  assumes "pend_ok st" "ConnBrSetBrPendingPacket e cid seq d st = Some (ret, st')"
  shows "pend_ok st' \<and> pd_held st' = pd_held st \<and> (if ret = SOFTBUS_OK
     then pend_view st (cid, seq) \<noteq> None \<and> pend_view st' = (pend_view st)((cid, seq) \<mapsto> Some d)
     else st' = st)"
proof (cases "pd_held st \<or> \<not> lock_ok e 0")
  case True
  then show ?thesis using assms by (auto simp: ConnBrSetBrPendingPacket_def split: if_splits)
next
  case False
  show ?thesis
  proof (cases "set_first cid seq d (pd_list st)")
    case None
    then show ?thesis using assms False by (auto simp: ConnBrSetBrPendingPacket_def)
  next
    case (Some ps)
    then have "(cid, seq) \<in> pp_key ` set (pd_list st)" using set_first_None [of cid seq d "pd_list st"] by auto
    then have v: "pend_view st (cid, seq) \<noteq> None" by (simp add: pend_view_def map_of_eq_None_iff image_image)
    from Some set_first_Some [OF Some] have k: "map pp_key ps = map pp_key (pd_list st)" "map pp_addr ps = map pp_addr (pd_list st)"
      "pend_view (st\<lparr>pd_list := ps\<rparr>) = (pend_view st)((cid, seq) \<mapsto> Some d)" by (simp_all add: pend_view_def)
    from k(2) have "set (map pp_addr ps) = set (map pp_addr (pd_list st))" by simp
    then have "\<forall>p\<in>set ps. pp_addr p < pd_next st" using assms(1) unfolding pend_ok_def set_map by (metis imageE imageI)
    then show ?thesis using assms False Some v k by (auto simp: ConnBrSetBrPendingPacket_def pend_ok_def)
  qed
qed

lemma del_cases:
  assumes "pend_ok st" "ConnBrDelBrPendingPacket e cid seq st = Some st'"
  shows "pend_ok st' \<and> pd_held st' = pd_held st \<and>
     pend_view st' = (if lock_ok e 0 then (pend_view st)((cid, seq) := None) else pend_view st)"
  using assms pend_ok_filter [OF assms(1), of "\<lambda>p. pp_key p \<noteq> (cid, seq)"]
  by (auto simp: ConnBrDelBrPendingPacket_def pend_view_def view_filter_key del_first_spec pend_ok_def split: if_splits)

subsection \<open>Answers arriving meanwhile\<close>

text \<open>The other threads only answer: each answer is a call of \<open>ConnBrSetBrPendingPacket\<close>.\<close>

definition run_ack :: "env \<Rightarrow> u32 \<times> int \<times> 'd option \<Rightarrow> 'd pend_state \<Rightarrow> 'd pend_state" where
  "run_ack e ack st =
     (case ConnBrSetBrPendingPacket e (fst ack) (fst (snd ack)) (snd (snd ack)) st of None \<Rightarrow> st | Some (_, st') \<Rightarrow> st')"

definition run_acks :: "env \<Rightarrow> (u32 \<times> int \<times> 'd option) list \<Rightarrow> 'd pend_state \<Rightarrow> 'd pend_state" where
  "run_acks e acks st = fold (run_ack e) acks st"

definition answering :: "env \<Rightarrow> (u32 \<times> int \<times> 'd option) list \<Rightarrow> (u32 \<times> int \<times> 'd option) list \<Rightarrow>
    (u32 \<times> int \<times> 'd option) list \<Rightarrow> 'd others" where
  "answering e as bs cs = \<lparr>before_lock = run_acks e as, in_wait = (\<lambda>_. run_acks e bs), before_exit = run_acks e cs\<rparr>"

lemma set_first_ids:
  "set_first cid seq d ps = Some ps' \<Longrightarrow> map (\<lambda>p. (pp_addr p, pp_key p)) ps' = map (\<lambda>p. (pp_addr p, pp_key p)) ps"
  by (induction ps arbitrary: ps') (auto simp: pp_key_def split: if_splits)

definition same_entries :: "'d pend_state \<Rightarrow> 'd pend_state \<Rightarrow> bool" where
  "same_entries st st' \<longleftrightarrow> map (\<lambda>p. (pp_addr p, pp_key p)) (pd_list st') = map (\<lambda>p. (pp_addr p, pp_key p)) (pd_list st) \<and>
     pd_held st' = pd_held st \<and> (pend_ok st \<longrightarrow> pend_ok st')"

lemma run_ack_same: "same_entries st (run_ack e ack st)"
proof (cases "ConnBrSetBrPendingPacket e (fst ack) (fst (snd ack)) (snd (snd ack)) st")
  case None
  then show ?thesis by (simp add: run_ack_def same_entries_def)
next
  case (Some r)
  obtain ret st' where r: "r = (ret, st')" by (cases r)
  have "map (\<lambda>p. (pp_addr p, pp_key p)) (pd_list st') = map (\<lambda>p. (pp_addr p, pp_key p)) (pd_list st) \<and> pd_held st' = pd_held st"
    using Some r by (auto simp: ConnBrSetBrPendingPacket_def dest: set_first_ids split: if_splits option.splits)
  then show ?thesis using Some r set_cases [of st e] by (simp add: run_ack_def same_entries_def)
qed

lemma run_acks_same: "same_entries st (run_acks e acks st)"
proof (induction acks arbitrary: st)
  case (Cons a acks)
  then show ?case using run_ack_same [of st e a] unfolding run_acks_def same_entries_def fold_Cons o_apply by metis
qed (simp add: run_acks_def same_entries_def)

lemma same_at_addr:
  assumes "same_entries st st'" "at_addr a st = Some p"
  shows "\<exists>p'. at_addr a st' = Some p' \<and> pp_key p' = pp_key p"
proof -
  have "map_option pp_key (find (\<lambda>p. pp_addr p = a) ps) = map_of (map (\<lambda>p. (pp_addr p, pp_key p)) ps) a" for ps :: "'a PendingPacket list"
    by (induction ps) auto
  then have "map_option pp_key (at_addr a st') = map_option pp_key (at_addr a st)"
    using assms(1) by (simp add: at_addr_def same_entries_def)
  then show ?thesis using assms(2) by auto
qed

lemma exit_result:
  assumes "pend_ok st" "\<not> pd_held st" "at_addr a st = Some p" "before_exit os = run_acks e cs"
  shows "\<exists>st'. pending_exit os a ret d st = Some (Done (ret, d, st')) \<and> pend_ok st' \<and> \<not> pd_held st' \<and>
     pend_view st' = (pend_view (run_acks e cs st))(pp_key p := None)"
proof -
  define s1 where "s1 = run_acks e cs st"
  have same: "same_entries st s1" unfolding s1_def by (rule run_acks_same)
  then have s1: "pend_ok s1" "\<not> pd_held s1" using assms by (auto simp: same_entries_def)
  obtain p' where p': "at_addr a s1 = Some p'" "pp_key p' = pp_key p" using same_at_addr [OF same assms(3)] by blast
  show ?thesis
    using s1 p' view_filter [OF s1(1) p'(1)] pend_ok_filter [OF s1(1), of "\<lambda>p. pp_addr p \<noteq> a"] assms(4)
    by (simp add: pending_exit_def Let_def s1_def pend_view_def)
qed

subsection \<open>Reachable tables\<close>

text \<open>Every operation, in any environment, by any thread, as a step on the table.\<close>

inductive pend_reach :: "'d pend_state \<Rightarrow> bool" where
  start: "pend_reach \<lparr>pd_list = [], pd_held = False, pd_next = 0\<rparr>"
| create: "pend_reach st \<Longrightarrow> ConnBrCreateBrPendingPacket e mi ci cid seq st = Some (ret, st') \<Longrightarrow> pend_reach st'"
| ack: "pend_reach st \<Longrightarrow> ConnBrSetBrPendingPacket e cid seq d st = Some (ret, st') \<Longrightarrow> pend_reach st'"
| del: "pend_reach st \<Longrightarrow> ConnBrDelBrPendingPacket e cid seq st = Some st' \<Longrightarrow> pend_reach st'"
| take_out: "pend_reach st \<Longrightarrow> at_addr a st = Some p \<Longrightarrow> \<not> pd_held st \<Longrightarrow>
    pending_exit \<lparr>before_lock = (\<lambda>s. s), in_wait = (\<lambda>_ s. s), before_exit = (\<lambda>s. s)\<rparr> a ret d st = Some (Done (ret', d', st')) \<Longrightarrow>
    pend_reach st'"

lemma pend_reach_ok: "pend_reach st \<Longrightarrow> pend_ok st"
proof (induction rule: pend_reach.induct)
  case start
  then show ?case by (simp add: pend_ok_def)
next
  case (create st e mi ci cid seq ret st')
  then show ?case using create_cases by blast
next
  case (ack st e cid seq d ret st')
  then show ?case using set_cases by blast
next
  case (del st e cid seq st')
  then show ?case using del_cases by blast
next
  case (take_out st a p ret d ret' d' st')
  then show ?case by (auto simp: pending_exit_def Let_def pend_ok_filter)
qed

lemma pending_wait:
  fixes st :: "'d pend_state"
  assumes "pend_ok st" "\<not> pd_held st" "healthy e"
  shows "case pend_view st (cid, seq) of
      None \<Rightarrow> ConnBrGetBrPendingPacket e (answering e' as bs cs) now cid seq ms True st = Some (Done (SOFTBUS_NOT_FIND, None, st))
    | Some _ \<Rightarrow>
        (let s1 = run_acks e' as st; s2 = run_acks e' bs s1;
             (ret, d, s) = (case the (pend_view s1 (cid, seq)) of
                Some d \<Rightarrow> (SOFTBUS_ALREADY_TRIGGERED, d, s1)
              | None \<Rightarrow> (case the (pend_view s2 (cid, seq)) of
                  Some d \<Rightarrow> (SOFTBUS_OK, d, s2)
                | None \<Rightarrow> (SOFTBUS_TIMOUT, None, s2)))
         in \<exists>st'. ConnBrGetBrPendingPacket e (answering e' as bs cs) now cid seq ms True st = Some (Done (ret, d, st')) \<and>
              pend_ok st' \<and> \<not> pd_held st' \<and> pend_view st' = (pend_view (run_acks e' cs s))((cid, seq) := None))"
proof (cases "find (\<lambda>p. pp_id p = cid \<and> pp_seq p = seq) (pd_list st)")
  case None
  then show ?thesis using assms find_rev [of "pd_list st" cid seq]
    by (simp add: pend_view_def find_view ConnBrGetBrPendingPacket_def pend_ok_def)
next
  case (Some p)
  then have rv: "find (\<lambda>p. pp_id p = cid \<and> pp_seq p = seq) (rev (pd_list st)) = Some p"
    using assms(1) find_rev [of "pd_list st" cid seq] by (simp add: pend_ok_def)
  from Some assms(1) have p: "p \<in> set (pd_list st)" "pp_key p = (cid, seq)" by (simp_all add: pend_ok_def find_unique)
  then have at: "at_addr (pp_addr p) st = Some p" using assms(1) by (simp add: at_addr_def pend_ok_def find_addr)
  define s1 where "s1 = run_acks e' as st"
  define s2 where "s2 = run_acks e' bs s1"
  have same: "same_entries st s1" "same_entries s1 s2" unfolding s1_def s2_def by (rule run_acks_same)+
  then have ok: "pend_ok s1" "\<not> pd_held s1" "pend_ok s2" "\<not> pd_held s2" using assms by (auto simp: same_entries_def)
  obtain p1 where p1: "at_addr (pp_addr p) s1 = Some p1" "pp_key p1 = (cid, seq)"
    using same_at_addr [OF same(1) at] p(2) by auto
  obtain p2 where p2: "at_addr (pp_addr p) s2 = Some p2" "pp_key p2 = (cid, seq)"
    using same_at_addr [OF same(2) p1(1)] p1(2) by auto
  have v: "pend_view s1 (cid, seq) = Some (answer p1)" "pend_view s2 (cid, seq) = Some (answer p2)"
    using view_at_addr [OF ok(1) p1(1)] view_at_addr [OF ok(3) p2(1)] p1(2) p2(2) by simp_all
  have os: "before_lock (answering e' as bs cs) st = s1" "in_wait (answering e' as bs cs) t s1 = s2"
    "before_exit (answering e' as bs cs) = run_acks e' cs" for t
    by (simp_all add: answering_def s1_def s2_def)
  have vs: "pend_view st (cid, seq) = Some (answer p)" using view_at_addr [OF assms(1) at] p(2) by simp
  let ?exit = "pending_exit (answering e' as bs cs) (pp_addr p)"
  have run: "ConnBrGetBrPendingPacket e (answering e' as bs cs) now cid seq ms True st =
      (if pp_finded p1 then ?exit SOFTBUS_ALREADY_TRIGGERED (pp_data p1) s1
       else if pp_finded p2 then ?exit SOFTBUS_OK (pp_data p2) s2 else ?exit SOFTBUS_TIMOUT None s2)"
    using rv assms(2,3) p1(1) p2(1) os by (simp add: ConnBrGetBrPendingPacket_def Let_def)
  note ex = exit_result [OF ok(1,2) p1(1) os(3), unfolded p1(2)] exit_result [OF ok(3,4) p2(1) os(3), unfolded p2(2)]
  consider "pp_finded p1" | "\<not> pp_finded p1" "pp_finded p2" | "\<not> pp_finded p1" "\<not> pp_finded p2" by blast
  then show ?thesis
  proof cases
    case 1
    then show ?thesis unfolding vs run s1_def [symmetric] using ex(1) v by (simp add: answer_def)
  next
    case 2
    then show ?thesis unfolding vs run s1_def [symmetric] s2_def [symmetric] using ex(2) v
      by (simp add: answer_def Let_def s2_def [symmetric])
  next
    case 3
    then show ?thesis unfolding vs run s1_def [symmetric] s2_def [symmetric] using ex(2) v
      by (simp add: answer_def Let_def s2_def [symmetric])
  qed
qed

subsection \<open>Properties\<close>

text \<open>C29. Whatever calls create, answer, delete and take out entries, in whatever order and however the
  allocator and the locks behave, no two entries of the table have the same connection and
  sequence number; so the entry a waiter finds (the last match) is the one an answer is written
  to (the first match).\<close>

theorem pending_keys_unique:
  assumes "pend_reach st"
  shows "distinct (map pp_key (pd_list st)) \<and>
    find (\<lambda>p. pp_id p = cid \<and> pp_seq p = seq) (rev (pd_list st)) = find (\<lambda>p. pp_id p = cid \<and> pp_seq p = seq) (pd_list st)"
  using pend_reach_ok [OF assms] find_rev [of "pd_list st"] by (simp add: pend_ok_def)

definition sample_table :: "nat pend_state" where
  "sample_table = \<lparr>pd_list = [\<lparr>pp_addr = 0, pp_id = 5, pp_seq = 20, pp_data = None, pp_finded = False\<rparr>],
     pd_held = False, pd_next = 1\<rparr>"

lemma calloc_ideal: "0 < n \<Longrightarrow> n \<le> MAX_MALLOC_SIZE \<Longrightarrow> SoftBusCalloc ideal_env k n"
  by (simp add: SoftBusCalloc_def SoftBusMalloc_def)

theorem pending_keys_unique_witness:
  "pend_reach sample_table \<and> distinct (map pp_key (pd_list sample_table)) \<and>
    find (\<lambda>p. pp_id p = 5 \<and> pp_seq p = 20) (rev (pd_list sample_table)) =
      find (\<lambda>p. pp_id p = 5 \<and> pp_seq p = 20) (pd_list sample_table)"
proof -
  have "ConnBrCreateBrPendingPacket ideal_env True True 5 20 \<lparr>pd_list = [], pd_held = False, pd_next = 0\<rparr> =
      Some (SOFTBUS_OK, sample_table)"
    by (simp add: ConnBrCreateBrPendingPacket_def sample_table_def calloc_ideal)
  then have "pend_reach sample_table" by (rule pend_reach.create [OF pend_reach.start])
  then show ?thesis using pending_keys_unique [of sample_table 5 20] by blast
qed

text \<open>C30. The wait for an acknowledgement. While the other threads only answer (before the wait, in
  it, and after it), the wait on an entry of the table always ends and takes the entry out:
  it reports ``already triggered'' with the answer if one was there first, success with the answer
  if one came during the wait, and a time-out otherwise. Without an entry it reports ``not found''
  and changes nothing.\<close>

theorem pending_wait_outcome:
  fixes st :: "'d pend_state"
  assumes "pend_ok st" "\<not> pd_held st" "healthy e"
  shows "case pend_view st (cid, seq) of
      None \<Rightarrow> ConnBrGetBrPendingPacket e (answering e' as bs cs) now cid seq ms True st = Some (Done (SOFTBUS_NOT_FIND, None, st))
    | Some _ \<Rightarrow>
        (let s1 = run_acks e' as st; s2 = run_acks e' bs s1;
             (ret, d, s) = (case the (pend_view s1 (cid, seq)) of
                Some d \<Rightarrow> (SOFTBUS_ALREADY_TRIGGERED, d, s1)
              | None \<Rightarrow> (case the (pend_view s2 (cid, seq)) of
                  Some d \<Rightarrow> (SOFTBUS_OK, d, s2)
                | None \<Rightarrow> (SOFTBUS_TIMOUT, None, s2)))
         in \<exists>st'. ConnBrGetBrPendingPacket e (answering e' as bs cs) now cid seq ms True st = Some (Done (ret, d, st')) \<and>
              pend_ok st' \<and> \<not> pd_held st' \<and> pend_view st' = (pend_view (run_acks e' cs s))((cid, seq) := None))"
  by (rule pending_wait [OF assms])

theorem pending_wait_outcome_witness:
  "case pend_view sample_table (5, 20) of
      None \<Rightarrow> ConnBrGetBrPendingPacket ideal_env (answering ideal_env [] [(5, 20, Some 1)] []) (10, 999999) 5 20 100 True sample_table =
        Some (Done (SOFTBUS_NOT_FIND, None, sample_table))
    | Some _ \<Rightarrow>
        (let s1 = run_acks ideal_env [] sample_table; s2 = run_acks ideal_env [(5, 20, Some 1)] s1;
             (ret, d, s) = (case the (pend_view s1 (5, 20)) of
                Some d \<Rightarrow> (SOFTBUS_ALREADY_TRIGGERED, d, s1)
              | None \<Rightarrow> (case the (pend_view s2 (5, 20)) of
                  Some d \<Rightarrow> (SOFTBUS_OK, d, s2)
                | None \<Rightarrow> (SOFTBUS_TIMOUT, None, s2)))
         in \<exists>st'. ConnBrGetBrPendingPacket ideal_env (answering ideal_env [] [(5, 20, Some 1)] []) (10, 999999) 5 20 100 True sample_table =
                Some (Done (ret, d, st')) \<and>
              pend_ok st' \<and> \<not> pd_held st' \<and> pend_view st' = (pend_view (run_acks ideal_env [] s))((5, 20) := None))"
  by (rule pending_wait_outcome) (simp_all add: sample_table_def pend_ok_def)

text \<open>A failed creation can stop the table for good. When the mutex or the condition of a new entry
  cannot be initialised, creating it returns an error without releasing the table's lock, and
  from then on no call that creates, answers, deletes or waits for any entry ever returns.\<close>

theorem pending_create_leaks_lock:
  assumes "\<not> pd_held st" "healthy e" "pend_view st (cid, seq) = None" "\<not> (mutexInit \<and> condInit)"
  shows "\<exists>ret st'. ConnBrCreateBrPendingPacket e mutexInit condInit cid seq st = Some (ret, st') \<and> ret \<noteq> SOFTBUS_OK \<and>
    (\<forall>e' mi ci c s d os now ms.
       ConnBrCreateBrPendingPacket e' mi ci c s st' = None \<and> ConnBrSetBrPendingPacket e' c s d st' = None \<and>
       ConnBrDelBrPendingPacket e' c s st' = None \<and> ConnBrGetBrPendingPacket e' os now c s ms True st' = None)"
proof -
  have "find (\<lambda>p. pp_id p = cid \<and> pp_seq p = seq) (pd_list st) = None"
    using assms(3) by (simp add: pend_view_def find_view)
  moreover have "SoftBusCalloc e 0 64" using assms(2) by (intro healthy_SoftBusCalloc) simp_all
  ultimately have "\<exists>ret st'. ConnBrCreateBrPendingPacket e mutexInit condInit cid seq st = Some (ret, st') \<and>
      ret \<noteq> SOFTBUS_OK \<and> pd_held st'"
    using assms(1,2,4) by (auto simp: ConnBrCreateBrPendingPacket_def Let_def)
  then show ?thesis
    by (fastforce simp: ConnBrCreateBrPendingPacket_def ConnBrSetBrPendingPacket_def ConnBrDelBrPendingPacket_def
        ConnBrGetBrPendingPacket_def)
qed

theorem pending_create_leaks_lock_witness:
  "\<exists>ret st'. ConnBrCreateBrPendingPacket ideal_env True False 5 40 sample_table = Some (ret, st') \<and> ret \<noteq> SOFTBUS_OK \<and>
    (\<forall>e' mi ci c s d os now ms.
       ConnBrCreateBrPendingPacket e' mi ci c s st' = None \<and> ConnBrSetBrPendingPacket e' c s d st' = None \<and>
       ConnBrDelBrPendingPacket e' c s st' = None \<and> ConnBrGetBrPendingPacket e' os now c s ms True st' = None)"
  by (rule pending_create_leaks_lock) (simp_all add: sample_table_def pend_view_def pp_key_def)

end
