(* ===== verification/Br_Connection.thy ===== *)
theory Br_Connection
  imports Br_Frame Br_Pending Send_Queue "HOL-Library.Signed_Division"
begin

text \<open>
  BR connections: \<^verbatim>\<open>core/connection/br/src/softbus_conn_br_connection.c\<close> (the connection object, the
  negotiation of its reference counts, its timers), the sender of \<^verbatim>\<open>softbus_conn_br_trans.c\<close> (posting,
  the flow control by acknowledgements, the send loop) and, of \<^verbatim>\<open>softbus_conn_br_manager.c\<close>, the
  table of connections and the reception of control messages. The state of the module is one
  record; each operation is a function on it. \<open>es k\<close> is the environment of the \<open>k\<close>-th call an
  operation makes that can run out of memory or fail to lock. A result \<open>Done None\<close> is a call
  that has not returned (it waits for room in a queue, for a lock that is never released, or
  on a driver that takes no bytes).
\<close>

subsection \<open>State\<close>

datatype br_state = BR_CONNECTING | BR_CONNECTED | BR_EXCEPTION | BR_NEGOTIATION_CLOSING | BR_CLOSING | BR_CLOSED | BR_INVALID

datatype side = CONN_SIDE_ANY | CONN_SIDE_CLIENT | CONN_SIDE_SERVER

text \<open>\<open>bc_addr\<close> is the address of the object, \<open>bc_listed\<close> whether it is in the manager's list.\<close>

record ConnBrConnection =
  bc_addr :: nat
  bc_listed :: bool
  bc_connectionId :: u32
  bc_side :: side
  bc_mac :: string
  bc_mtu :: u32
  bc_socketHandle :: int
  bc_state :: br_state
  bc_connectionRc :: int
  bc_objectRc :: int
  bc_window :: int
  bc_sequence :: int
  bc_waitSequence :: int
  bc_ackTimeoutCount :: int

datatype br_event =
  PostByteFinished u32 nat int int int int status
  | ConnectionResume u32
  | Disconnected int
  | DataToUpper u32 int bytes

record timer =
  tm_what :: int
  tm_arg1 :: u64
  tm_arg2 :: u64
  tm_obj :: bool
  tm_delay :: nat

record 's br_world =
  bw_conns :: "ConnBrConnection list"
  bw_nextId :: u16
  bw_nextAddr :: nat
  bw_queue :: "SendBrQueueNode send_state"
  bw_pending :: "unit pend_state"
  bw_gen :: i64
  bw_link :: 's
  bw_timers :: "timer list"
  bw_log :: "br_event list"

record 's platform =
  es :: "nat \<Rightarrow> env"
  host_le :: bool
  cj :: cjson
  parse_json :: "bytes \<Rightarrow> json option"
  spp_write :: "int \<Rightarrow> 's spp_write"
  spp_disconnect :: "int \<Rightarrow> 's \<Rightarrow> status \<times> 's"
  queue_waiter :: "SendBrQueueNode send_state waiter"
  fuel :: nat
  ack_others :: "unit others"
  now :: "int \<times> int"
  mutex_init :: bool
  cond_init :: bool

abbreviation (input) INVALID_SOCKET_HANDLE :: int where "INVALID_SOCKET_HANDLE \<equiv> - 1"
abbreviation (input) DEFAULT_WINDOW :: int where "DEFAULT_WINDOW \<equiv> 20"
abbreviation (input) MIN_WINDOW :: int where "MIN_WINDOW \<equiv> 10"
abbreviation (input) MAX_WINDOW :: int where "MAX_WINDOW \<equiv> 80"
abbreviation (input) ACK_FAILED_TIMES :: int where "ACK_FAILED_TIMES \<equiv> 3"
abbreviation (input) TIMEOUT_TIMES :: int where "TIMEOUT_TIMES \<equiv> 2"
abbreviation (input) WAIT_ACK_TIMEOUT_MILLS :: u32 where "WAIT_ACK_TIMEOUT_MILLS \<equiv> 100"
abbreviation (input) MAX_DATA_LEN :: nat where "MAX_DATA_LEN \<equiv> 40000"
abbreviation (input) MSG_NEGOTIATION_CLOSING_TIMEOUT :: int where "MSG_NEGOTIATION_CLOSING_TIMEOUT \<equiv> 100"
abbreviation (input) MSG_RETRY_NOTIFY_REFERENCE :: int where "MSG_RETRY_NOTIFY_REFERENCE \<equiv> 101"
abbreviation (input) SIZEOF_BR_CONNECTION :: nat where "SIZEOF_BR_CONNECTION \<equiv> 112"
abbreviation (input) SIZEOF_SOFTBUS_LIST :: nat where "SIZEOF_SOFTBUS_LIST \<equiv> 32"
abbreviation (input) SIZEOF_MESSAGE :: nat where "SIZEOF_MESSAGE \<equiv> 56"
abbreviation (input) SIZEOF_SEND_NODE :: nat where "SIZEOF_SEND_NODE \<equiv> 48"
abbreviation (input) BT_MAC_LEN :: nat where "BT_MAC_LEN \<equiv> 18"

definition conn_at :: "nat \<Rightarrow> 's br_world \<Rightarrow> ConnBrConnection option" where
  "conn_at a w = find (\<lambda>c. bc_addr c = a) (bw_conns w)"

definition upd_conn :: "nat \<Rightarrow> (ConnBrConnection \<Rightarrow> ConnBrConnection) \<Rightarrow> 's br_world \<Rightarrow> 's br_world" where
  "upd_conn a f w = w\<lparr>bw_conns := map (\<lambda>c. if bc_addr c = a then f c else c) (bw_conns w)\<rparr>"

definition log_event :: "br_event \<Rightarrow> 's br_world \<Rightarrow> 's br_world" where
  "log_event ev w = w\<lparr>bw_log := bw_log w @ [ev]\<rparr>"

subsection \<open>The table of connections\<close>

text \<open>The connection type is in the upper half of an identifier, a 16-bit counter in the lower.\<close>

definition AllocateConnectionIdUnsafe :: "'s br_world \<Rightarrow> u32 \<times> 's br_world" where
  "AllocateConnectionIdUnsafe w =
     (let nextId = bw_nextId w + 1; connectionId = push_bit 16 2 + ucast nextId; w = w\<lparr>bw_nextId := nextId\<rparr>
      in if find (\<lambda>c. bc_listed c \<and> connectionId = bc_connectionId c) (bw_conns w) \<noteq> None then (0, w) else (connectionId, w))"

fun allocate_loop :: "nat \<Rightarrow> 's br_world \<Rightarrow> (u32 \<times> 's br_world) option" where
  "allocate_loop 0 w = None"
| "allocate_loop (Suc n) w =
     (let (connectionId, w) = AllocateConnectionIdUnsafe w
      in if connectionId = 0 then allocate_loop n w else Some (connectionId, w))"

text \<open>New connections are linked at the head of the list, which is the order of \<open>bw_conns\<close>.\<close>

definition ConnBrSaveConnection :: "env \<Rightarrow> nat \<Rightarrow> nat option \<Rightarrow> 's br_world \<Rightarrow> (status \<times> 's br_world) option outcome" where
  "ConnBrSaveConnection e n connection w =
     (case connection of
        None \<Rightarrow> ret_call (SOFTBUS_INVALID_PARAM, w)
      | Some a \<Rightarrow>
          if \<not> lock_ok e 0 then ret_call (SOFTBUS_LOCK_ERR, w)
          else case allocate_loop n w of
            None \<Rightarrow> Done None
          | Some (connectionId, w) \<Rightarrow>
              (case conn_at a w of
                 None \<Rightarrow> Undef
               | Some c \<Rightarrow>
                   ret_call (SOFTBUS_OK, w\<lparr>bw_conns := c\<lparr>bc_connectionId := connectionId, bc_objectRc := bc_objectRc c + 1,
                       bc_listed := True\<rparr> # filter (\<lambda>c. bc_addr c \<noteq> a) (bw_conns w)\<rparr>)))"

definition ConnBrGetConnectionById :: "env \<Rightarrow> u32 \<Rightarrow> 's br_world \<Rightarrow> nat option \<times> 's br_world" where
  "ConnBrGetConnectionById e connectionId w =
     (if \<not> lock_ok e 0 then (None, w)
      else case find (\<lambda>c. bc_listed c \<and> bc_connectionId c = connectionId) (bw_conns w) of
        None \<Rightarrow> (None, w)
      | Some target \<Rightarrow>
          if \<not> lock_ok e 1 then (None, w)
          else (Some (bc_addr target), upd_conn (bc_addr target) (\<lambda>c. c\<lparr>bc_objectRc := bc_objectRc c + 1\<rparr>) w))"

text \<open>Freeing removes the object.\<close>

definition ConnBrFreeConnection :: "nat \<Rightarrow> 's br_world \<Rightarrow> 's br_world" where
  "ConnBrFreeConnection a w = w\<lparr>bw_conns := filter (\<lambda>c. bc_addr c \<noteq> a) (bw_conns w)\<rparr>"

definition ConnBrReturnConnection :: "env \<Rightarrow> nat option \<Rightarrow> 's br_world \<Rightarrow> 's br_world outcome" where
  "ConnBrReturnConnection e connection w =
     (case connection of
        None \<Rightarrow> Done w
      | Some a \<Rightarrow>
          (case conn_at a w of
             None \<Rightarrow> Undef
           | Some c \<Rightarrow>
               if \<not> lock_ok e 0 then Done w
               else let w = upd_conn a (\<lambda>c. c\<lparr>bc_objectRc := bc_objectRc c - 1\<rparr>) w
                 in if bc_objectRc c - 1 \<le> 0 then Done (ConnBrFreeConnection a w) else Done w))"

definition ConnBrRemoveConnection :: "(nat \<Rightarrow> env) \<Rightarrow> nat option \<Rightarrow> 's br_world \<Rightarrow> 's br_world outcome" where
  "ConnBrRemoveConnection ev connection w =
     (case connection of
        None \<Rightarrow> Done w
      | Some a \<Rightarrow>
          (case conn_at a w of
             None \<Rightarrow> Undef
           | Some c \<Rightarrow>
               if \<not> lock_ok (ev 0) 0 then Done w
               else if find (\<lambda>d. bc_listed d \<and> bc_connectionId d = bc_connectionId c) (bw_conns w) \<noteq> None then
                 ConnBrReturnConnection (ev 1) (Some a) (upd_conn a (\<lambda>c. c\<lparr>bc_listed := False\<rparr>) w)
               else Done w))"

definition ConnBrCreateConnection ::
  "env \<Rightarrow> (nat \<Rightarrow> bool) \<Rightarrow> int \<Rightarrow> string option \<Rightarrow> side \<Rightarrow> int \<Rightarrow> 's br_world \<Rightarrow> nat option \<times> 's br_world" where
  "ConnBrCreateConnection e mutexInit mtuSize addr sd socketHandle w =
     (case addr of
        None \<Rightarrow> (None, w)
      | Some mac \<Rightarrow>
          if \<not> SoftBusCalloc e 0 SIZEOF_BR_CONNECTION then (None, w)
          else if \<not> SoftBusMalloc e 1 SIZEOF_SOFTBUS_LIST \<or> \<not> mutexInit 0 then (None, w)
          else if \<not> memcpy_ok e BT_MAC_LEN (length mac + 1) then (None, w)
          else if \<not> mutexInit 1 then (None, w)
          else (Some (bw_nextAddr w), w\<lparr>bw_nextAddr := bw_nextAddr w + 1, bw_conns := bw_conns w @
            [\<lparr>bc_addr = bw_nextAddr w, bc_listed = False, bc_connectionId = 0, bc_side = sd, bc_mac = mac,
              bc_mtu = of_int mtuSize, bc_socketHandle = socketHandle,
              bc_state = (if sd = CONN_SIDE_CLIENT then BR_CONNECTING else BR_CONNECTED), bc_connectionRc = 1, bc_objectRc = 1,
              bc_window = DEFAULT_WINDOW, bc_sequence = 0, bc_waitSequence = 0, bc_ackTimeoutCount = 0\<rparr>]\<rparr>))"

subsection \<open>Timers\<close>

text \<open>The messages of this module in the looper. \<open>BrCompareConnectionLooperEventFunc\<close> decides which
  ones a removal takes out.\<close>

definition BrCompareConnectionLooperEventFunc :: "timer \<Rightarrow> timer \<Rightarrow> bool" where
  "BrCompareConnectionLooperEventFunc msg ctx =
     (if tm_what msg \<noteq> tm_what ctx then False
      else if tm_what ctx = MSG_NEGOTIATION_CLOSING_TIMEOUT then tm_arg1 msg = tm_arg1 ctx
      else if tm_arg1 ctx \<noteq> 0 \<or> tm_arg2 ctx \<noteq> 0 \<or> tm_obj ctx then False
      else True)"

definition post_timer :: "env \<Rightarrow> timer \<Rightarrow> 's br_world \<Rightarrow> 's br_world" where
  "post_timer e t w = (if \<not> SoftBusCalloc e 0 SIZEOF_MESSAGE then w else w\<lparr>bw_timers := bw_timers w @ [t]\<rparr>)"

definition remove_timer :: "timer \<Rightarrow> 's br_world \<Rightarrow> 's br_world" where
  "remove_timer ctx w = w\<lparr>bw_timers := filter (\<lambda>t. \<not> BrCompareConnectionLooperEventFunc t ctx) (bw_timers w)\<rparr>"

definition conn_timer :: "int \<Rightarrow> u32 \<Rightarrow> nat \<Rightarrow> timer" where
  "conn_timer what connectionId delay = \<lparr>tm_what = what, tm_arg1 = ucast connectionId, tm_arg2 = 0, tm_obj = False, tm_delay = delay\<rparr>"

subsection \<open>Posting\<close>

definition ConnBrPostBytes ::
  "'s platform \<Rightarrow> nat \<Rightarrow> u32 \<Rightarrow> bytes option \<Rightarrow> int \<Rightarrow> int \<Rightarrow> int \<Rightarrow> int \<Rightarrow> 's br_world \<Rightarrow> (status \<times> 's br_world) option outcome" where
  "ConnBrPostBytes p k connectionId data pid flag module seq w =
     (case data of
        None \<Rightarrow> ret_call (SOFTBUS_INVALID_PARAM, w)
      | Some bs \<Rightarrow>
          if length bs = 0 \<or> length bs > MAX_DATA_LEN then ret_call (SOFTBUS_INVALID_PARAM, w)
          else case ConnBrGetConnectionById (es p k) connectionId w of
            (None, w) \<Rightarrow> ret_call (SOFTBUS_CONN_BR_CONNECTION_NOT_EXIST_ERR, w)
          | (Some a, w) \<Rightarrow>
              (case conn_at a w of
                 None \<Rightarrow> Undef
               | Some connection \<Rightarrow>
                   let locked = lock_ok (es p (k + 1)) 0 in
                   bind_outcome (ConnBrReturnConnection (es p (k + 2)) (Some a) w) (\<lambda>w.
                   if \<not> locked then ret_call (SOFTBUS_LOCK_ERR, w)
                   else if bc_state connection \<noteq> BR_CONNECTED \<and> module \<noteq> MODULE_CONNECTION then
                     ret_call (SOFTBUS_CONN_BR_CONNECTION_NOT_READY_ERR, w)
                   else if \<not> SoftBusCalloc (es p (k + 3)) 0 SIZEOF_SEND_NODE then ret_call (SOFTBUS_MEM_ERR, w)
                   else let node = \<lparr>sb_connectionId = connectionId, sb_pid = pid, sb_flag = flag, sb_isInner = (pid = 0),
                          sb_module = module, sb_seq = seq, sb_data = bs\<rparr> in
                     seq_call (ConnBrEnqueueNonBlock (es p (k + 4)) (queue_waiter p) (fuel p) (Some node) (bw_queue w)) (\<lambda>(status, q).
                     let w = w\<lparr>bw_queue := q\<rparr> in
                     if status \<noteq> SOFTBUS_OK then ret_call (status, w) else ret_call (SOFTBUS_OK, w)))))"

text \<open>Packing a control message and posting it: the common end of the handlers below.\<close>

definition post_ctl :: "'s platform \<Rightarrow> nat \<Rightarrow> ctl_ctx \<Rightarrow> 's br_world \<Rightarrow> (status \<times> 's br_world) option outcome" where
  "post_ctl p k ctx w =
     (let (seq, data, gen) = ConnBrPackCtlMessage (host_le p) (es p k) 0 (cj p) ctx (bw_gen w); w = w\<lparr>bw_gen := gen\<rparr> in
      if seq < 0 then ret_call (seq, w)
      else ConnBrPostBytes p (k + 1) (ctl_connectionId ctx) data 0 (sint (ctl_flag ctx)) MODULE_CONNECTION seq w)"

definition plain_ctx :: "u32 \<Rightarrow> int \<Rightarrow> int \<Rightarrow> ctl_ctx" where
  "plain_ctx connectionId flag method = \<lparr>ctl_connectionId = connectionId, ctl_flag = of_int flag, ctl_method = method,
     ctl_delta = 0, ctl_referenceNumber = 0, ctl_window = 0, ctl_seq = 0\<rparr>"

subsection \<open>Reference counts\<close>

definition int32 :: "int \<Rightarrow> bool" where
  "int32 i \<longleftrightarrow> - 2147483648 \<le> i \<and> i \<le> 2147483647"

definition ConnBrUpdateConnectionRc :: "'s platform \<Rightarrow> nat \<Rightarrow> int \<Rightarrow> 's br_world \<Rightarrow> (status \<times> 's br_world) option outcome" where
  "ConnBrUpdateConnectionRc p a delta w =
     (case conn_at a w of
        None \<Rightarrow> Undef
      | Some c \<Rightarrow>
          if \<not> lock_ok (es p 0) 0 then ret_call (SOFTBUS_LOCK_ERR, w)
          else let localRc = bc_connectionRc c + delta in
            if \<not> int32 localRc then Undef
            else let w = upd_conn a (\<lambda>c. c\<lparr>bc_connectionRc := localRc\<rparr>) w;
                w = (if localRc \<le> 0
                  then post_timer (es p 1) (conn_timer MSG_NEGOTIATION_CLOSING_TIMEOUT (bc_connectionId c) 3000)
                    (upd_conn a (\<lambda>c. c\<lparr>bc_state := BR_NEGOTIATION_CLOSING\<rparr>) w)
                  else w);
                flag = (if delta \<ge> 0 then CONN_HIGH else CONN_LOW)
              in post_ctl p 2 ((plain_ctx (bc_connectionId c) flag BR_METHOD_NOTIFY_REQUEST)
                   \<lparr>ctl_delta := delta, ctl_referenceNumber := localRc\<rparr>) w)"

definition ConnBrDisconnectNow :: "'s platform \<Rightarrow> env \<Rightarrow> nat \<Rightarrow> 's br_world \<Rightarrow> (status \<times> 's br_world) outcome" where
  "ConnBrDisconnectNow p e a w =
     (case conn_at a w of
        None \<Rightarrow> Undef
      | Some c \<Rightarrow>
          if \<not> lock_ok e 0 then Done (SOFTBUS_LOCK_ERR, w)
          else let (status, w) = (if bc_socketHandle c \<noteq> INVALID_SOCKET_HANDLE
              then let (status, link) = spp_disconnect p (bc_socketHandle c) (bw_link w) in
                (status, upd_conn a (\<lambda>c. c\<lparr>bc_socketHandle := INVALID_SOCKET_HANDLE\<rparr>)
                  (log_event (Disconnected (bc_socketHandle c)) (w\<lparr>bw_link := link\<rparr>)))
              else (SOFTBUS_OK, w))
            in Done (status, upd_conn a (\<lambda>c. c\<lparr>bc_state := BR_CLOSED\<rparr>) w))"

definition BrPostReplyMessage :: "'s platform \<Rightarrow> nat \<Rightarrow> u32 \<Rightarrow> int \<Rightarrow> 's br_world \<Rightarrow> (status \<times> 's br_world) option outcome" where
  "BrPostReplyMessage p k connectionId localRc w =
     post_ctl p k ((plain_ctx connectionId CONN_HIGH BR_METHOD_NOTIFY_RESPONSE)\<lparr>ctl_referenceNumber := localRc\<rparr>) w"

text \<open>\<open>GetJsonObjectSignedNumberItem\<close> and \<open>GetJsonObjectNumber64Item\<close>; a number of a control message fits.\<close>

definition get_signed :: "json \<Rightarrow> string \<Rightarrow> int option" where
  "get_signed j key = map_of j key"

definition get_number64 :: "json \<Rightarrow> string \<Rightarrow> int option" where
  "get_number64 j key = (case map_of j key of None \<Rightarrow> None | Some v \<Rightarrow> if v < 0 then None else Some v)"

definition resume_conn :: "nat \<Rightarrow> ConnBrConnection \<Rightarrow> 's br_world \<Rightarrow> 's br_world" where
  "resume_conn a c w =
     log_event (ConnectionResume (bc_connectionId c)) (upd_conn a (\<lambda>c. c\<lparr>bc_state := BR_CONNECTED\<rparr>)
       (remove_timer (conn_timer MSG_NEGOTIATION_CLOSING_TIMEOUT (bc_connectionId c) 0) w))"

definition ConnBrOnReferenceRequest :: "'s platform \<Rightarrow> nat \<Rightarrow> json \<Rightarrow> 's br_world \<Rightarrow> (status \<times> 's br_world) option outcome" where
  "ConnBrOnReferenceRequest p a json w =
     (case (get_signed json ''KEY_DELTA'', get_signed json ''KEY_REFERENCE_NUM'', conn_at a w) of
        (_, _, None) \<Rightarrow> Undef
      | (Some delta, Some peerRc, Some c) \<Rightarrow>
          if \<not> lock_ok (es p 0) 0 then ret_call (SOFTBUS_LOCK_ERR, w)
          else let localRc = bc_connectionRc c + delta in
            if \<not> int32 localRc then Undef
            else let w = upd_conn a (\<lambda>c. c\<lparr>bc_connectionRc := localRc\<rparr>) w in
              if peerRc > 0 then
                (if localRc = 0
                 then ret_call (SOFTBUS_OK, post_timer (es p 1) (conn_timer MSG_RETRY_NOTIFY_REFERENCE (bc_connectionId c) 1000) w)
                 else ret_call (SOFTBUS_OK, w))
              else let w = (if bc_state c = BR_NEGOTIATION_CLOSING then resume_conn a c w else w) in
                if localRc \<le> 0 then
                  bind_outcome (ConnBrDisconnectNow p (es p 2) a (upd_conn a (\<lambda>c. c\<lparr>bc_state := BR_CLOSING\<rparr>) w)) (\<lambda>(_, w).
                    ret_call (SOFTBUS_OK, w))
                else BrPostReplyMessage p 3 (bc_connectionId c) localRc w
      | _ \<Rightarrow> ret_call (SOFTBUS_PARSE_JSON_ERR, w))"

definition ConnBrOnReferenceResponse :: "'s platform \<Rightarrow> nat \<Rightarrow> json \<Rightarrow> 's br_world \<Rightarrow> (status \<times> 's br_world) option outcome" where
  "ConnBrOnReferenceResponse p a json w =
     (case (get_signed json ''KEY_REFERENCE_NUM'', conn_at a w) of
        (_, None) \<Rightarrow> Undef
      | (None, Some _) \<Rightarrow> ret_call (SOFTBUS_PARSE_JSON_ERR, w)
      | (Some peerRc, Some c) \<Rightarrow>
          if \<not> lock_ok (es p 0) 0 then ret_call (SOFTBUS_LOCK_ERR, w)
          else if peerRc > 0 \<and> bc_state c = BR_NEGOTIATION_CLOSING then ret_call (SOFTBUS_OK, resume_conn a c w)
          else ret_call (SOFTBUS_OK, w))"

subsection \<open>Timer handlers\<close>

definition WaitNegotiationClosingTimeoutHandler :: "'s platform \<Rightarrow> u32 \<Rightarrow> 's br_world \<Rightarrow> 's br_world outcome" where
  "WaitNegotiationClosingTimeoutHandler p connectionId w =
     (case ConnBrGetConnectionById (es p 0) connectionId w of
        (None, w) \<Rightarrow> Done w
      | (Some a, w) \<Rightarrow>
          (case conn_at a w of
             None \<Rightarrow> Undef
           | Some c \<Rightarrow>
               if \<not> lock_ok (es p 1) 0 then ConnBrReturnConnection (es p 2) (Some a) w
               else bind_outcome
                 (if bc_state c = BR_NEGOTIATION_CLOSING then bind_outcome (ConnBrDisconnectNow p (es p 3) a w) (\<lambda>(_, w). Done w) else Done w)
                 (\<lambda>w. ConnBrReturnConnection (es p 4) (Some a) w)))"

definition RetryNotifyReferenceHandler :: "'s platform \<Rightarrow> u32 \<Rightarrow> 's br_world \<Rightarrow> 's br_world option outcome" where
  "RetryNotifyReferenceHandler p connectionId w =
     (case ConnBrGetConnectionById (es p 20) connectionId w of
        (None, w) \<Rightarrow> ret_call w
      | (Some a, w) \<Rightarrow>
          seq_call (ConnBrUpdateConnectionRc p a 0 w) (\<lambda>(_, w).
          bind_outcome (ConnBrReturnConnection (es p 21) (Some a) w) ret_call))"

subsection \<open>Acknowledgements\<close>

definition ConnBrOnAckRequest :: "'s platform \<Rightarrow> nat \<Rightarrow> json \<Rightarrow> 's br_world \<Rightarrow> (status \<times> 's br_world) option outcome" where
  "ConnBrOnAckRequest p a json w =
     (case (get_signed json ''KEY_WINDOWS'', get_number64 json ''KEY_ACK_SEQ_NUM'', conn_at a w) of
        (_, _, None) \<Rightarrow> Undef
      | (Some peerWindows, Some peerSeq, Some c) \<Rightarrow>
          if \<not> lock_ok (es p 0) 0 then ret_call (SOFTBUS_LOCK_ERR, w)
          else post_ctl p 1 ((plain_ctx (bc_connectionId c) CONN_HIGH BR_METHOD_ACK_RESPONSE)
                 \<lparr>ctl_window := bc_window c, ctl_seq := peerSeq\<rparr>) w
      | _ \<Rightarrow> ret_call (SOFTBUS_PARSE_JSON_ERR, w))"

definition ConnBrOnAckResponse :: "'s platform \<Rightarrow> nat \<Rightarrow> json \<Rightarrow> 's br_world \<Rightarrow> (status \<times> 's br_world) option outcome" where
  "ConnBrOnAckResponse p a json w =
     (case (get_signed json ''KEY_WINDOWS'', get_number64 json ''KEY_ACK_SEQ_NUM'', conn_at a w) of
        (_, _, None) \<Rightarrow> Undef
      | (Some peerWindows, Some seq, Some c) \<Rightarrow>
          (case ConnBrSetBrPendingPacket (es p 0) (bc_connectionId c) seq None (bw_pending w) of
             None \<Rightarrow> Done None
           | Some (status, pend) \<Rightarrow> ret_call (status, w\<lparr>bw_pending := pend\<rparr>))
      | _ \<Rightarrow> ret_call (SOFTBUS_PARSE_JSON_ERR, w))"

definition SendAckUnsafe :: "'s platform \<Rightarrow> nat \<Rightarrow> 's br_world \<Rightarrow> (status \<times> 's br_world) option outcome" where
  "SendAckUnsafe p a w =
     (case conn_at a w of
        None \<Rightarrow> Undef
      | Some c \<Rightarrow>
          let ctx = (plain_ctx (bc_connectionId c) CONN_HIGH BR_METHOD_NOTIFY_ACK)
                \<lparr>ctl_window := bc_window c, ctl_seq := bc_sequence c\<rparr>;
              (ctrlMsgSeq, data, gen) = ConnBrPackCtlMessage (host_le p) (es p 30) 0 (cj p) ctx (bw_gen w);
              w = w\<lparr>bw_gen := gen\<rparr> in
          if ctrlMsgSeq < 0 then ret_call (ctrlMsgSeq, w)
          else case ConnBrCreateBrPendingPacket (es p 31) (mutex_init p) (cond_init p) (bc_connectionId c) (bc_sequence c) (bw_pending w) of
            None \<Rightarrow> Done None
          | Some (status, pend) \<Rightarrow>
              let w = w\<lparr>bw_pending := pend\<rparr> in
              if status \<noteq> SOFTBUS_OK then ret_call (status, w)
              else seq_call (flip_call (BrTransSend (spp_write p (bc_socketHandle c)) (bc_mtu c) (fuel p) (the data) (bw_link w))) (\<lambda>(status, link).
                let w = w\<lparr>bw_link := link\<rparr> in
                if status \<noteq> SOFTBUS_OK then
                  (case ConnBrDelBrPendingPacket (es p 32) (bc_connectionId c) (bc_sequence c) (bw_pending w) of
                     None \<Rightarrow> Done None
                   | Some pend \<Rightarrow> ret_call (status, w\<lparr>bw_pending := pend\<rparr>))
                else ret_call (status, w)))"

text \<open>The effect of the result of the wait on the window.\<close>

definition ack_result :: "status \<Rightarrow> ConnBrConnection \<Rightarrow> ConnBrConnection" where
  "ack_result ret c =
     (let c = (if ret = SOFTBUS_ALREADY_TRIGGERED then
            c\<lparr>bc_ackTimeoutCount := 0, bc_window := (if bc_window c < MAX_WINDOW then bc_window c + 1 else MAX_WINDOW)\<rparr>
          else if ret = SOFTBUS_OK then c\<lparr>bc_ackTimeoutCount := 0\<rparr>
          else if ret = SOFTBUS_TIMOUT then
            (let c = c\<lparr>bc_ackTimeoutCount := bc_ackTimeoutCount c + 1\<rparr>;
                 c = (if bc_window c > MIN_WINDOW \<and> bc_ackTimeoutCount c smod TIMEOUT_TIMES = 0
                   then c\<lparr>bc_window := bc_window c - 1\<rparr> else c)
             in if bc_window c < DEFAULT_WINDOW \<and> bc_ackTimeoutCount c > ACK_FAILED_TIMES
                then c\<lparr>bc_window := DEFAULT_WINDOW\<rparr> else c)
          else c\<lparr>bc_ackTimeoutCount := 0\<rparr>)
      in c\<lparr>bc_waitSequence := 0\<rparr>)"

definition WaitAck :: "'s platform \<Rightarrow> nat \<Rightarrow> 's br_world \<Rightarrow> 's br_world option outcome" where
  "WaitAck p a w =
     (case conn_at a w of
        None \<Rightarrow> Undef
      | Some c \<Rightarrow>
          if \<not> lock_ok (es p 40) 0 then ret_call w
          else seq_call (flip_call (ConnBrGetBrPendingPacket (es p 41) (ack_others p) (now p) (bc_connectionId c) (bc_waitSequence c)
              WAIT_ACK_TIMEOUT_MILLS True (bw_pending w))) (\<lambda>(ret, _, pend).
            let w = w\<lparr>bw_pending := pend\<rparr> in
            if \<not> lock_ok (es p 42) 0 then ret_call w
            else ret_call (upd_conn a (ack_result ret) w)))"

subsection \<open>The send loop\<close>

text \<open>\<open>OnPostByteFinshed\<close> of the manager: a failed transmission closes the connection.\<close>

definition OnPostByteFinshed :: "'s platform \<Rightarrow> SendBrQueueNode \<Rightarrow> status \<Rightarrow> 's br_world \<Rightarrow> 's br_world outcome" where
  "OnPostByteFinshed p n err w =
     (let w = log_event (PostByteFinished (sb_connectionId n) (length (sb_data n)) (sb_pid n) (sb_flag n) (sb_module n) (sb_seq n) err) w in
      if err \<noteq> SOFTBUS_OK then
        (case ConnBrGetConnectionById (es p 50) (sb_connectionId n) w of
           (None, w) \<Rightarrow> Done w
         | (Some a, w) \<Rightarrow>
             bind_outcome (ConnBrDisconnectNow p (es p 51) a w) (\<lambda>(_, w).
             ConnBrReturnConnection (es p 52) (Some a) w))
      else Done w)"

text \<open>The body of the loop for a message taken from the queue; \<open>send_connected\<close> is the part from the
  counting of the message on, where the connection has a socket.\<close>

definition send_connected :: "'s platform \<Rightarrow> SendBrQueueNode \<Rightarrow> nat \<Rightarrow> ConnBrConnection \<Rightarrow> 's br_world \<Rightarrow> 's br_world option outcome" where
  "send_connected p n a c w =
     (let w = upd_conn a (\<lambda>c. c\<lparr>bc_sequence := bc_sequence c + 1\<rparr>) w; seq = bc_sequence c + 1 in
      if bc_window c = 0 then Undef
      else seq_call
        (if seq smod bc_window c = 0 then
           seq_call (SendAckUnsafe p a w) (\<lambda>(status, w).
             if status = SOFTBUS_OK then ret_call (upd_conn a (\<lambda>c. c\<lparr>bc_waitSequence := seq\<rparr>) w) else ret_call w)
         else ret_call w) (\<lambda>w.
      case conn_at a w of
        None \<Rightarrow> Undef
      | Some c1 \<Rightarrow>
          seq_call
            (if bc_window c1 > 1 \<and> bc_sequence c1 smod bc_window c1 = bc_window c1 - 1 \<and> bc_waitSequence c1 \<noteq> 0
             then WaitAck p a w else ret_call w) (\<lambda>w.
          seq_call (flip_call (BrTransSend (spp_write p (bc_socketHandle c)) (bc_mtu c) (fuel p) (sb_data n) (bw_link w)))
            (\<lambda>(status, link).
          bind_outcome (ConnBrReturnConnection (es p 62) (Some a) (w\<lparr>bw_link := link\<rparr>)) (\<lambda>w.
          bind_outcome (OnPostByteFinshed p n status w) ret_call)))))"

definition send_node :: "'s platform \<Rightarrow> SendBrQueueNode \<Rightarrow> 's br_world \<Rightarrow> 's br_world option outcome" where
  "send_node p n w =
     (case ConnBrGetConnectionById (es p 60) (sb_connectionId n) w of
        (None, w) \<Rightarrow> bind_outcome (OnPostByteFinshed p n SOFTBUS_CONN_BR_CONNECTION_NOT_EXIST_ERR w) ret_call
      | (Some a, w) \<Rightarrow>
          (case conn_at a w of
             None \<Rightarrow> Undef
           | Some c \<Rightarrow>
               if \<not> lock_ok (es p 61) 0 then
                 bind_outcome (OnPostByteFinshed p n SOFTBUS_LOCK_ERR w) (\<lambda>w.
                 bind_outcome (ConnBrReturnConnection (es p 62) (Some a) w) ret_call)
               else if bc_socketHandle c = INVALID_SOCKET_HANDLE then
                 bind_outcome (ConnBrReturnConnection (es p 62) (Some a) w) (\<lambda>w.
                 bind_outcome (OnPostByteFinshed p n SOFTBUS_CONN_BR_CONNECTION_INVALID_SOCKET w) ret_call)
               else send_connected p n a c w))"

definition SendHandlerLoop_step :: "'s platform \<Rightarrow> 's br_world \<Rightarrow> 's br_world option outcome" where
  "SendHandlerLoop_step p w =
     seq_call (ConnBrDequeueBlock (es p 70) (queue_waiter p) (fuel p) (Some None) (bw_queue w)) (\<lambda>(status, msg, q).
       let w = w\<lparr>bw_queue := q\<rparr> in
       if status \<noteq> SOFTBUS_OK then ret_call w
       else case msg of
         Some (Some n) \<Rightarrow> send_node p n w
       | _ \<Rightarrow> ret_call w)"

fun SendHandlerLoop :: "(nat \<Rightarrow> 's platform) \<Rightarrow> nat \<Rightarrow> 's br_world \<Rightarrow> 's br_world option outcome" where
  "SendHandlerLoop ps 0 w = ret_call w"
| "SendHandlerLoop ps (Suc n) w = seq_call (SendHandlerLoop_step (ps n) w) (SendHandlerLoop ps n)"

subsection \<open>Received packets\<close>

definition control_method :: "'s platform \<Rightarrow> nat \<Rightarrow> int \<Rightarrow> json \<Rightarrow> 's br_world \<Rightarrow> (status \<times> 's br_world) option outcome" where
  "control_method p a method json w =
     (if method = BR_METHOD_NOTIFY_REQUEST then ConnBrOnReferenceRequest p a json w
      else if method = BR_METHOD_NOTIFY_RESPONSE then ConnBrOnReferenceResponse p a json w
      else if method = BR_METHOD_NOTIFY_ACK then ConnBrOnAckRequest p a json w
      else if method = BR_METHOD_ACK_RESPONSE then ConnBrOnAckResponse p a json w
      else ret_call (SOFTBUS_OK, w))"

definition ReceivedControlData :: "'s platform \<Rightarrow> nat \<Rightarrow> bytes \<Rightarrow> 's br_world \<Rightarrow> 's br_world option outcome" where
  "ReceivedControlData p a data w =
     (case parse_json p data of
        None \<Rightarrow> ret_call w
      | Some json \<Rightarrow>
          (case get_number64 json ''KEY_METHOD'' of
             None \<Rightarrow> ret_call w
           | Some method \<Rightarrow> seq_call (control_method p a method json w) (\<lambda>(_, w). ret_call w)))"

abbreviation (input) MODULE_NIP_BR_CHANNEL :: int where "MODULE_NIP_BR_CHANNEL \<equiv> 201"
abbreviation (input) BR_NIP_SEQ :: u64 where "BR_NIP_SEQ \<equiv> 0xeaddeaddeaddeadd"

text \<open>The packet is in host byte order, as the reader left it. The weak \<open>NipRecvDataFromBr\<close> does nothing.\<close>

definition DataReceived :: "'s platform \<Rightarrow> u32 \<Rightarrow> bytes \<Rightarrow> 's br_world \<Rightarrow> 's br_world option outcome" where
  "DataReceived p connectionId data w =
     (let hdr = head_of (host_le p) data in
      case ConnBrGetConnectionById (es p 80) connectionId w of
        (None, w) \<Rightarrow> ret_call w
      | (Some a, w) \<Rightarrow>
          seq_call
            (if sint (pk_module hdr) = MODULE_CONNECTION then ReceivedControlData p a (drop 24 data) w
             else if sint (pk_module hdr) = MODULE_NIP_BR_CHANNEL \<and> pk_seq hdr = BR_NIP_SEQ then ret_call w
             else ret_call (log_event (DataToUpper connectionId (sint (pk_module hdr)) data) w)) (\<lambda>w.
          bind_outcome (ConnBrReturnConnection (es p 81) (Some a) w) ret_call))"

subsection \<open>Invariant\<close>

definition conn_ok :: "ConnBrConnection \<Rightarrow> bool" where
  "conn_ok c \<longleftrightarrow> MIN_WINDOW \<le> bc_window c \<and> bc_window c \<le> MAX_WINDOW \<and> 0 \<le> bc_sequence c \<and> bc_mtu c \<noteq> 0 \<and> 1 \<le> bc_objectRc c"

definition world_ok :: "'s br_world \<Rightarrow> bool" where
  "world_ok w \<longleftrightarrow> distinct (map bc_addr (bw_conns w)) \<and> list_all conn_ok (bw_conns w) \<and>
     pend_ok (bw_pending w) \<and> \<not> pd_held (bw_pending w)"

text \<open>What is asked of the platform: nothing fails, the driver takes a beginning of what it is given and
  closing a socket sends nothing, the other threads answer acknowledgements, and the bound on the
  loops is above the length of a control message.\<close>

definition platform_ok :: "'s platform \<Rightarrow> ('s \<Rightarrow> bytes) \<Rightarrow> bool" where
  "platform_ok p out \<longleftrightarrow> (\<forall>k. healthy (es p k)) \<and> mutex_init p \<and> cond_init p \<and>
     (\<forall>h. spp_sink (spp_write p h) out) \<and> (\<forall>h l. out (snd (spp_disconnect p h l)) = out l) \<and>
     (\<exists>e as bs cs. ack_others p = answering e as bs cs) \<and>
     (\<forall>obj s. print_json (cj p) obj = Some s \<longrightarrow> length s + 25 < fuel p)"

lemma platform_healthy [simp]: "platform_ok p out \<Longrightarrow> healthy (es p k)"
  by (simp add: platform_ok_def)

lemma find_conn:
  "distinct (map bc_addr cs) \<Longrightarrow> find (\<lambda>c. bc_addr c = a) cs = Some c \<longleftrightarrow> c \<in> set cs \<and> bc_addr c = a"
  by (induction cs) auto

lemma conn_at_Some:
  "world_ok w \<Longrightarrow> conn_at a w = Some c \<longleftrightarrow> c \<in> set (bw_conns w) \<and> bc_addr c = a"
  by (simp add: conn_at_def world_ok_def find_conn)

lemma conn_at_ok: "world_ok w \<Longrightarrow> conn_at a w = Some c \<Longrightarrow> conn_ok c"
  by (auto simp: conn_at_Some) (auto simp: world_ok_def list_all_iff)

lemma upd_conn_simps [simp]:
  "bw_pending (upd_conn a f w) = bw_pending w" "bw_link (upd_conn a f w) = bw_link w"
  "bw_log (upd_conn a f w) = bw_log w" "bw_queue (upd_conn a f w) = bw_queue w"
  "bw_gen (upd_conn a f w) = bw_gen w" "bw_timers (upd_conn a f w) = bw_timers w"
  by (simp_all add: upd_conn_def)

lemma log_event_simps [simp]:
  "bw_pending (log_event ev w) = bw_pending w" "bw_link (log_event ev w) = bw_link w"
  "bw_log (log_event ev w) = bw_log w @ [ev]" "bw_conns (log_event ev w) = bw_conns w"
  "conn_at a (log_event ev w) = conn_at a w" "world_ok (log_event ev w) = world_ok w"
  by (simp_all add: log_event_def conn_at_def world_ok_def)

lemma conn_at_frame [simp]:
  "conn_at a (w\<lparr>bw_link := l\<rparr>) = conn_at a w" "conn_at a (w\<lparr>bw_pending := pe\<rparr>) = conn_at a w"
  "conn_at a (w\<lparr>bw_gen := g\<rparr>) = conn_at a w" "conn_at a (w\<lparr>bw_queue := q\<rparr>) = conn_at a w"
  "world_ok (w\<lparr>bw_link := l\<rparr>) = world_ok w" "world_ok (w\<lparr>bw_gen := g\<rparr>) = world_ok w"
  "world_ok (w\<lparr>bw_queue := q\<rparr>) = world_ok w"
  by (simp_all add: conn_at_def world_ok_def)

lemma conn_at_upd:
  "(\<And>c. bc_addr (f c) = bc_addr c) \<Longrightarrow> conn_at b (upd_conn a f w) = (if b = a then map_option f (conn_at a w) else conn_at b w)"
proof -
  assume f: "\<And>c. bc_addr (f c) = bc_addr c"
  have "find (\<lambda>c. bc_addr c = b) (map (\<lambda>c. if bc_addr c = a then f c else c) cs) =
      (if b = a then map_option f (find (\<lambda>c. bc_addr c = a) cs) else find (\<lambda>c. bc_addr c = b) cs)" for cs
    by (induction cs) (auto simp: f)
  then show ?thesis by (simp add: conn_at_def upd_conn_def)
qed

lemma world_ok_upd:
  assumes "world_ok w" "\<And>c. bc_addr (f c) = bc_addr c" "\<And>c. conn_at a w = Some c \<Longrightarrow> conn_ok (f c)"
  shows "world_ok (upd_conn a f w)"
proof -
  define cs where "cs = map (\<lambda>c. if bc_addr c = a then f c else c) (bw_conns w)"
  have "map bc_addr cs = map bc_addr (bw_conns w)" using assms(2) by (simp add: cs_def)
  moreover have "\<forall>c\<in>set cs. conn_ok c"
    using assms(1,3) by (auto simp: cs_def conn_at_Some) (auto simp: world_ok_def list_all_iff)
  ultimately show ?thesis using assms(1) by (simp add: world_ok_def upd_conn_def cs_def [symmetric] list_all_iff)
qed

lemma get_by_id:
  assumes "world_ok w" "healthy e"
  obtains "ConnBrGetConnectionById e cid w = (None, w)"
      "\<not> (\<exists>c\<in>set (bw_conns w). bc_listed c \<and> bc_connectionId c = cid)"
  | a c where "ConnBrGetConnectionById e cid w = (Some a, upd_conn a (\<lambda>c. c\<lparr>bc_objectRc := bc_objectRc c + 1\<rparr>) w)"
      "conn_at a w = Some c" "bc_listed c" "bc_connectionId c = cid"
proof (cases "find (\<lambda>c. bc_listed c \<and> bc_connectionId c = cid) (bw_conns w)")
  case None
  then have "\<not> (\<exists>c\<in>set (bw_conns w). bc_listed c \<and> bc_connectionId c = cid)" by (auto simp: find_None_iff)
  then show ?thesis using None assms that(1) by (simp add: ConnBrGetConnectionById_def)
next
  case (Some c)
  then have "c \<in> set (bw_conns w)" "bc_listed c" "bc_connectionId c = cid"
    by (auto simp: find_Some_iff)
  then show ?thesis using Some assms that(2) [of "bc_addr c" c] by (simp add: ConnBrGetConnectionById_def conn_at_Some)
qed

lemma return_conn:
  assumes "conn_at a w = Some c" "healthy e" "2 \<le> bc_objectRc c"
  shows "ConnBrReturnConnection e (Some a) w = Done (upd_conn a (\<lambda>c. c\<lparr>bc_objectRc := bc_objectRc c - 1\<rparr>) w)"
  using assms by (simp add: ConnBrReturnConnection_def)

lemma upd_rc_ok:
  assumes "world_ok w" "conn_at a w = Some c" "1 \<le> bc_objectRc c + d"
  shows "world_ok (upd_conn a (\<lambda>c. c\<lparr>bc_objectRc := bc_objectRc c + d\<rparr>) w)"
  using assms conn_at_ok [OF assms(1,2)] by (intro world_ok_upd) (auto simp: conn_ok_def)

subsection \<open>Sending an acknowledgement request\<close>

lemma pack_ctl_length:
  assumes "ConnBrPackCtlMessage le e k j ctx g = (seq, data, g')" "0 \<le> seq"
  shows "\<exists>d obj s. data = Some d \<and> print_json j obj = Some s \<and> length d = length s + 25"
  using assms unfolding ConnBrPackCtlMessage_def Let_def SerializeByJson_def
  by (auto simp: c_string_def split: if_splits option.splits) blast

lemma create_total:
  assumes "\<not> pd_held st" "pend_ok st"
  shows "\<exists>ret st'. ConnBrCreateBrPendingPacket e True True cid seq st = Some (ret, st') \<and> \<not> pd_held st' \<and> pend_ok st'"
proof -
  have "\<exists>ret st'. ConnBrCreateBrPendingPacket e True True cid seq st = Some (ret, st') \<and> \<not> pd_held st'"
    using assms(1) by (simp add: ConnBrCreateBrPendingPacket_def Let_def)
  then obtain ret st' where r: "ConnBrCreateBrPendingPacket e True True cid seq st = Some (ret, st')" "\<not> pd_held st'"
    by blast
  then show ?thesis using create_cases [OF assms(2) r(1)] by blast
qed

lemma world_ok_pending: "world_ok w \<Longrightarrow> pend_ok pe \<Longrightarrow> \<not> pd_held pe \<Longrightarrow> world_ok (w\<lparr>bw_pending := pe\<rparr>)"
  by (simp add: world_ok_def)

lemma send_total:
  assumes "platform_ok p out" "mtu \<noteq> 0" "length d < fuel p"
  shows "\<exists>status l' i. BrTransSend (spp_write p h) mtu (fuel p) d l = Some (Done (status, l')) \<and> out l' = out l @ take i d \<and>
     (status = SOFTBUS_OK \<longrightarrow> take i d = d)"
proof -
  have "spp_sink (spp_write p h) out" "0 < unat mtu" using assms by (simp_all add: platform_ok_def word_gt_0 unat_gt_0)
  from send_pieces [OF this assms(3), of l] show ?thesis by auto
qed

lemma send_ack_total:
  assumes p: "platform_ok p out" and w: "world_ok w" and c: "conn_at a w = Some c"
  shows "\<exists>status w' x. SendAckUnsafe p a w = ret_call (status, w') \<and> world_ok w' \<and> bw_conns w' = bw_conns w \<and>
     bw_log w' = bw_log w \<and> out (bw_link w') = out (bw_link w) @ x"
proof -
  define ctx where "ctx = (plain_ctx (bc_connectionId c) CONN_HIGH BR_METHOD_NOTIFY_ACK)\<lparr>ctl_window := bc_window c, ctl_seq := bc_sequence c\<rparr>"
  obtain seq data gen where pack: "ConnBrPackCtlMessage (host_le p) (es p 30) 0 (cj p) ctx (bw_gen w) = (seq, data, gen)"
    by (metis prod_cases3)
  have init: "mutex_init p" "cond_init p" using p by (simp_all add: platform_ok_def)
  show ?thesis
  proof (cases "seq < 0")
    case True
    then show ?thesis using c pack w
      by (intro exI [of _ seq] exI [of _ "w\<lparr>bw_gen := gen\<rparr>"] exI [of _ "[]"]) (simp add: SendAckUnsafe_def ctx_def [symmetric])
  next
    case False
    then obtain d obj s where d: "data = Some d" "print_json (cj p) obj = Some s" "length d = length s + 25"
      using pack_ctl_length [OF pack] by auto
    then have dl: "length d < fuel p" using p by (auto simp: platform_ok_def)
    obtain ret pe where cr: "ConnBrCreateBrPendingPacket (es p 31) True True (bc_connectionId c) (bc_sequence c) (bw_pending w) = Some (ret, pe)"
      "\<not> pd_held pe" "pend_ok pe" using create_total w unfolding world_ok_def by metis
    show ?thesis
    proof (cases "ret = SOFTBUS_OK")
      case False
      then show ?thesis using \<open>\<not> seq < 0\<close> c pack w init cr
        by (intro exI [of _ ret] exI [of _ "w\<lparr>bw_gen := gen, bw_pending := pe\<rparr>"] exI [of _ "[]"])
          (simp add: SendAckUnsafe_def ctx_def [symmetric] world_ok_pending)
    next
      case True
      have "bc_mtu c \<noteq> 0" using conn_at_ok [OF w c] by (simp add: conn_ok_def)
      from send_total [OF p this dl, of "bc_socketHandle c" "bw_link w"] obtain status l' i where
        snd: "BrTransSend (spp_write p (bc_socketHandle c)) (bc_mtu c) (fuel p) d (bw_link w) = Some (Done (status, l'))"
          "out l' = out (bw_link w) @ take i d" by blast
      obtain pe' where del: "ConnBrDelBrPendingPacket (es p 32) (bc_connectionId c) (bc_sequence c) pe = Some pe'"
        using cr(2) unfolding ConnBrDelBrPendingPacket_def by (cases "lock_ok (es p 32) 0") auto
      have pe': "pend_ok pe'" "\<not> pd_held pe'" using del_cases [OF cr(3) del] cr(2) by auto
      define w' where "w' = (if status = SOFTBUS_OK then w\<lparr>bw_gen := gen, bw_pending := pe, bw_link := l'\<rparr>
        else w\<lparr>bw_gen := gen, bw_link := l', bw_pending := pe'\<rparr>)"
      have "SendAckUnsafe p a w = ret_call (status, w')"
        using \<open>\<not> seq < 0\<close> c pack init cr(1) True snd(1) del d(1)
        by (simp add: SendAckUnsafe_def ctx_def [symmetric] w'_def)
      moreover have "world_ok w'" using w cr pe' by (auto simp: w'_def world_ok_def)
      ultimately show ?thesis using snd(2)
        by (intro exI [of _ status] exI [of _ w'] exI [of _ "take i d"]) (simp add: w'_def)
    qed
  qed
qed

subsection \<open>The window\<close>

lemma ack_result_ok: "conn_ok c \<Longrightarrow> conn_ok (ack_result ret c)"
  by (auto simp: ack_result_def Let_def conn_ok_def)

lemma ack_result_frame [simp]:
  "bc_addr (ack_result ret c) = bc_addr c" "bc_objectRc (ack_result ret c) = bc_objectRc c"
  by (simp_all add: ack_result_def Let_def)

lemma get_pending_total:
  assumes "pend_ok st" "\<not> pd_held st" "healthy e"
  shows "\<exists>ret d st'. ConnBrGetBrPendingPacket e (answering e' as bs cs) t cid seq ms True st = Some (Done (ret, d, st')) \<and>
    pend_ok st' \<and> \<not> pd_held st'"
proof (cases "pend_view st (cid, seq)")
  case None
  then show ?thesis using assms pending_wait [OF assms, where cid = cid and seq = seq and e' = e' and as = as and bs = bs and cs = cs and now = t and ms = ms] by simp
next
  case (Some x)
  then show ?thesis using pending_wait [OF assms, where cid = cid and seq = seq and e' = e' and as = as and bs = bs and cs = cs and now = t and ms = ms]
    by (auto simp: Let_def split: option.splits)
qed

lemma wait_ack_total:
  assumes p: "platform_ok p out" and w: "world_ok w" and c: "conn_at a w = Some c"
  shows "\<exists>w'. WaitAck p a w = ret_call w' \<and> world_ok w' \<and> bw_log w' = bw_log w \<and> bw_link w' = bw_link w \<and>
     (\<exists>c'. conn_at a w' = Some c' \<and> bc_objectRc c' = bc_objectRc c)"
proof -
  obtain e as bs cs where o: "ack_others p = answering e as bs cs" using p by (auto simp: platform_ok_def)
  obtain ret d pe where g: "ConnBrGetBrPendingPacket (es p 41) (ack_others p) (now p) (bc_connectionId c) (bc_waitSequence c)
      WAIT_ACK_TIMEOUT_MILLS True (bw_pending w) = Some (Done (ret, d, pe))" "pend_ok pe" "\<not> pd_held pe"
    using get_pending_total [of "bw_pending w" "es p 41" e as bs cs "now p" "bc_connectionId c" "bc_waitSequence c" 100] w p
    unfolding o world_ok_def by auto
  define w' where "w' = upd_conn a (ack_result ret) (w\<lparr>bw_pending := pe\<rparr>)"
  have "world_ok (w\<lparr>bw_pending := pe\<rparr>)" by (rule world_ok_pending [OF w g(2,3)])
  then have "world_ok w'" unfolding w'_def
    by (rule world_ok_upd) (use c conn_at_ok [OF w] ack_result_ok in auto)
  moreover have "conn_at a w' = Some (ack_result ret c)" using c by (simp add: w'_def conn_at_upd)
  moreover have "WaitAck p a w = ret_call w'" using p c g(1) by (simp add: WaitAck_def w'_def)
  ultimately show ?thesis by (intro exI [of _ w']) (simp add: w'_def)
qed

lemma disconnect_total:
  assumes p: "platform_ok p out" and w: "world_ok w" and c: "conn_at a w = Some c"
  shows "\<exists>status w' evs. ConnBrDisconnectNow p (es p k) a w = Done (status, w') \<and> world_ok w' \<and> bw_log w' = bw_log w @ evs \<and>
     (\<forall>ev\<in>set evs. \<exists>h. ev = Disconnected h) \<and> out (bw_link w') = out (bw_link w) \<and>
     conn_at a w' = Some (c\<lparr>bc_socketHandle := INVALID_SOCKET_HANDLE, bc_state := BR_CLOSED\<rparr>)"
proof (cases "bc_socketHandle c = INVALID_SOCKET_HANDLE")
  case True
  define w' where "w' = upd_conn a (\<lambda>c. c\<lparr>bc_state := BR_CLOSED\<rparr>) w"
  have "world_ok w'" unfolding w'_def
    by (rule world_ok_upd [OF w]) (use c conn_at_ok [OF w] in \<open>auto simp: conn_ok_def\<close>)
  moreover have "c\<lparr>bc_socketHandle := INVALID_SOCKET_HANDLE, bc_state := BR_CLOSED\<rparr> = c\<lparr>bc_state := BR_CLOSED\<rparr>"
    using True by (cases c) simp
  ultimately show ?thesis using True p c
    by (intro exI [of _ SOFTBUS_OK] exI [of _ w'] exI [of _ "[]"]) (simp add: ConnBrDisconnectNow_def w'_def conn_at_upd)
next
  case False
  obtain status l where d: "spp_disconnect p (bc_socketHandle c) (bw_link w) = (status, l)"
    by (cases "spp_disconnect p (bc_socketHandle c) (bw_link w)")
  then have l: "out l = out (bw_link w)" using p unfolding platform_ok_def by (metis snd_conv)
  define w1 where "w1 = upd_conn a (\<lambda>c. c\<lparr>bc_socketHandle := INVALID_SOCKET_HANDLE\<rparr>) (log_event (Disconnected (bc_socketHandle c)) (w\<lparr>bw_link := l\<rparr>))"
  define w' where "w' = upd_conn a (\<lambda>c. c\<lparr>bc_state := BR_CLOSED\<rparr>) w1"
  have "world_ok w1" unfolding w1_def
    by (rule world_ok_upd) (use w c conn_at_ok [OF w] in \<open>auto simp: conn_ok_def\<close>)
  moreover have c1: "conn_at a w1 = Some (c\<lparr>bc_socketHandle := INVALID_SOCKET_HANDLE\<rparr>)" using c by (simp add: w1_def conn_at_upd)
  ultimately have "world_ok w'" unfolding w'_def
    by (intro world_ok_upd) (use conn_at_ok [OF w c] in \<open>auto simp: conn_ok_def\<close>)
  then show ?thesis using False p c d l c1
    by (intro exI [of _ status] exI [of _ w'] exI [of _ "[Disconnected (bc_socketHandle c)]"])
      (simp add: ConnBrDisconnectNow_def w'_def w1_def conn_at_upd)
qed

subsection \<open>One message of the send loop\<close>

abbreviation finished :: "SendBrQueueNode \<Rightarrow> status \<Rightarrow> br_event" where
  "finished n st \<equiv> PostByteFinished (sb_connectionId n) (length (sb_data n)) (sb_pid n) (sb_flag n) (sb_module n) (sb_seq n) st"

definition closing_events :: "br_event list \<Rightarrow> bool" where
  "closing_events evs \<longleftrightarrow> (\<forall>ev\<in>set evs. \<exists>h. ev = Disconnected h)"

lemma finish_total:
  assumes p: "platform_ok p out" and w: "world_ok w"
  shows "\<exists>w' evs. OnPostByteFinshed p n st w = Done w' \<and> world_ok w' \<and> bw_log w' = bw_log w @ finished n st # evs \<and>
     closing_events evs \<and> (st = SOFTBUS_OK \<longrightarrow> evs = []) \<and> out (bw_link w') = out (bw_link w) \<and>
     (\<forall>a c. conn_at a w = Some c \<longrightarrow> (\<exists>c'. conn_at a w' = Some c' \<and> bc_objectRc c' = bc_objectRc c))"
proof (cases "st = SOFTBUS_OK")
  case True
  then show ?thesis using w by (intro exI [of _ "log_event (finished n st) w"] exI [of _ "[]"])
      (simp add: OnPostByteFinshed_def closing_events_def)
next
  case False
  define w0 where "w0 = log_event (finished n st) w"
  have w0: "world_ok w0" using w by (simp add: w0_def)
  have h: "healthy (es p 50)" using p by simp
  from w0 h show ?thesis
  proof (cases rule: get_by_id [where cid = "sb_connectionId n"])
    case 1
    then show ?thesis using False w0 by (intro exI [of _ w0] exI [of _ "[]"])
        (simp add: OnPostByteFinshed_def closing_events_def w0_def)
  next
    case (2 a c)
    define w1 where "w1 = upd_conn a (\<lambda>c. c\<lparr>bc_objectRc := bc_objectRc c + 1\<rparr>) w0"
    have rc: "1 \<le> bc_objectRc c" using conn_at_ok [OF w0 2(2)] by (simp add: conn_ok_def)
    then have w1: "world_ok w1" unfolding w1_def by (intro upd_rc_ok [OF w0 2(2)]) simp
    have c1: "conn_at a w1 = Some (c\<lparr>bc_objectRc := bc_objectRc c + 1\<rparr>)" using 2(2) by (simp add: w1_def conn_at_upd)
    from disconnect_total [OF p w1 c1, of 51] obtain s2 w2 evs where d: "ConnBrDisconnectNow p (es p 51) a w1 = Done (s2, w2)"
      "world_ok w2" "bw_log w2 = bw_log w1 @ evs" "\<forall>ev\<in>set evs. \<exists>h. ev = Disconnected h" "out (bw_link w2) = out (bw_link w1)"
      "conn_at a w2 = Some (c\<lparr>bc_objectRc := bc_objectRc c + 1, bc_socketHandle := INVALID_SOCKET_HANDLE, bc_state := BR_CLOSED\<rparr>)"
      by auto
    have oth: "b \<noteq> a \<Longrightarrow> conn_at b w2 = conn_at b w1" for b
      using d(1) c1 p by (auto simp: ConnBrDisconnectNow_def Let_def conn_at_upd split: if_splits prod.splits)
    define w3 where "w3 = upd_conn a (\<lambda>c. c\<lparr>bc_objectRc := bc_objectRc c - 1\<rparr>) w2"
    have "world_ok w3" unfolding w3_def using upd_rc_ok [OF d(2,6), of "- 1"] rc by simp
    moreover have "ConnBrReturnConnection (es p 52) (Some a) w2 = Done w3"
      unfolding w3_def using rc p by (intro return_conn [OF d(6)]) auto
    ultimately show ?thesis using False 2(1,2) d rc oth
      by (intro exI [of _ w3] exI [of _ evs])
        (auto simp: OnPostByteFinshed_def w0_def [symmetric] w1_def [symmetric] closing_events_def w3_def conn_at_upd,
         auto simp: w1_def w0_def conn_at_upd)
  qed
qed

lemma ack_step_total:
  assumes p: "platform_ok p out" and w: "world_ok w" and c: "conn_at a w = Some c"
  shows "\<exists>w' x. (if q then seq_call (SendAckUnsafe p a w) (\<lambda>(status, w).
        if status = SOFTBUS_OK then ret_call (upd_conn a (\<lambda>c. c\<lparr>bc_waitSequence := s\<rparr>) w) else ret_call w) else ret_call w) = ret_call w' \<and>
     world_ok w' \<and> bw_log w' = bw_log w \<and> out (bw_link w') = out (bw_link w) @ x \<and>
     (\<exists>c'. conn_at a w' = Some c' \<and> bc_objectRc c' = bc_objectRc c)"
proof (cases q)
  case False
  then show ?thesis using w c by (intro exI [of _ w] exI [of _ "[]"]) simp
next
  case True
  obtain status w1 x where s: "SendAckUnsafe p a w = ret_call (status, w1)" "world_ok w1" "bw_conns w1 = bw_conns w"
    "bw_log w1 = bw_log w" "out (bw_link w1) = out (bw_link w) @ x" using send_ack_total [OF p w c] by blast
  have c1: "conn_at a w1 = Some c" using s(3) c by (simp add: conn_at_def)
  have "world_ok (upd_conn a (\<lambda>c. c\<lparr>bc_waitSequence := s\<rparr>) w1)"
    by (rule world_ok_upd [OF s(2)]) (use c1 conn_at_ok [OF s(2)] in \<open>auto simp: conn_ok_def\<close>)
  then show ?thesis using True s c1
    by (intro exI [of _ "if status = SOFTBUS_OK then upd_conn a (\<lambda>c. c\<lparr>bc_waitSequence := s\<rparr>) w1 else w1"] exI [of _ x])
      (simp add: conn_at_upd)
qed

lemma counted_total:
  assumes p: "platform_ok p out" and w: "world_ok w" and c: "conn_at a w = Some c"
  shows "\<exists>w2. w2 = upd_conn a (\<lambda>c. c\<lparr>bc_sequence := bc_sequence c + 1\<rparr>) w \<and> world_ok w2 \<and>
    conn_at a w2 = Some (c\<lparr>bc_sequence := bc_sequence c + 1\<rparr>) \<and> bw_log w2 = bw_log w \<and> bw_link w2 = bw_link w"
proof -
  have "world_ok (upd_conn a (\<lambda>c. c\<lparr>bc_sequence := bc_sequence c + 1\<rparr>) w)"
    by (rule world_ok_upd [OF w]) (use c conn_at_ok [OF w] in \<open>auto simp: conn_ok_def\<close>)
  then show ?thesis using c by (simp add: conn_at_upd)
qed

lemma send_connected_total:
  assumes p: "platform_ok p out" and w: "world_ok w" and c: "conn_at a w = Some c" and rc: "2 \<le> bc_objectRc c"
    and n: "length (sb_data n) < fuel p"
  shows "\<exists>w' status evs x i. send_connected p n a c w = ret_call w' \<and> world_ok w' \<and> bw_log w' = bw_log w @ finished n status # evs \<and>
     closing_events evs \<and> out (bw_link w') = out (bw_link w) @ x @ take i (sb_data n) \<and>
     (status = SOFTBUS_OK \<longrightarrow> evs = [] \<and> take i (sb_data n) = sb_data n)"
proof -
  define s where "s = bc_sequence c + 1"
  obtain w2 where w2: "w2 = upd_conn a (\<lambda>c. c\<lparr>bc_sequence := bc_sequence c + 1\<rparr>) w" "world_ok w2"
    "conn_at a w2 = Some (c\<lparr>bc_sequence := bc_sequence c + 1\<rparr>)" "bw_log w2 = bw_log w" "bw_link w2 = bw_link w"
    using counted_total [OF p w c] by blast
  obtain w3 x c3 where w3: "(if s smod bc_window c = 0 then seq_call (SendAckUnsafe p a w2) (\<lambda>(status, w).
        if status = SOFTBUS_OK then ret_call (upd_conn a (\<lambda>c. c\<lparr>bc_waitSequence := s\<rparr>) w) else ret_call w) else ret_call w2) = ret_call w3"
    "world_ok w3" "bw_log w3 = bw_log w2" "out (bw_link w3) = out (bw_link w2) @ x" "conn_at a w3 = Some c3"
    "bc_objectRc c3 = bc_objectRc c"
    using ack_step_total [OF p w2(2,3), of "s smod bc_window c = 0" s] by auto
  define q where "q = (bc_window c3 > 1 \<and> bc_sequence c3 smod bc_window c3 = bc_window c3 - 1 \<and> bc_waitSequence c3 \<noteq> 0)"
  have "\<exists>w4. (if q then WaitAck p a w3 else ret_call w3) = ret_call w4 \<and> world_ok w4 \<and> bw_log w4 = bw_log w3 \<and>
      bw_link w4 = bw_link w3 \<and> (\<exists>c4. conn_at a w4 = Some c4 \<and> bc_objectRc c4 = bc_objectRc c)"
    using wait_ack_total [OF p w3(2,5)] w3 by (cases q) auto
  then obtain w4 c4 where w4: "(if q then WaitAck p a w3 else ret_call w3) = ret_call w4" "world_ok w4" "bw_log w4 = bw_log w3"
      "bw_link w4 = bw_link w3" "conn_at a w4 = Some c4" "bc_objectRc c4 = bc_objectRc c" by blast
  have cok: "bc_mtu c \<noteq> 0" "bc_window c \<noteq> 0" using conn_at_ok [OF w c] by (auto simp: conn_ok_def)
  from send_total [OF p cok(1) n, of "bc_socketHandle c" "bw_link w4"] obtain status l' i where
    snd: "BrTransSend (spp_write p (bc_socketHandle c)) (bc_mtu c) (fuel p) (sb_data n) (bw_link w4) = Some (Done (status, l'))"
      "out l' = out (bw_link w4) @ take i (sb_data n)" "status = SOFTBUS_OK \<longrightarrow> take i (sb_data n) = sb_data n" by blast
  define w5 where "w5 = upd_conn a (\<lambda>c. c\<lparr>bc_objectRc := bc_objectRc c - 1\<rparr>) (w4\<lparr>bw_link := l'\<rparr>)"
  have c5: "conn_at a (w4\<lparr>bw_link := l'\<rparr>) = Some c4" "world_ok (w4\<lparr>bw_link := l'\<rparr>)" using w4 by simp_all
  have r: "ConnBrReturnConnection (es p 62) (Some a) (w4\<lparr>bw_link := l'\<rparr>) = Done w5"
    unfolding w5_def using p w4(6) rc by (intro return_conn [OF c5(1)]) auto
  have w5: "world_ok w5" unfolding w5_def using upd_rc_ok [OF c5(2,1), of "- 1"] w4(6) rc by simp
  from finish_total [OF p w5, of n status] obtain w' evs where
    fin: "OnPostByteFinshed p n status w5 = Done w'" "world_ok w'" "closing_events evs"
      "bw_log w' = bw_log w5 @ finished n status # evs" "status = SOFTBUS_OK \<longrightarrow> evs = []" "out (bw_link w') = out (bw_link w5)" by blast
  have "send_connected p n a c w = ret_call w'"
    using cok(2) w3(1,5) w4(1) snd(1) r fin(1)
    by (simp add: send_connected_def s_def [symmetric] w2(1) [symmetric] q_def Let_def)
  then show ?thesis using fin w4(3,4) w3(3,4) w2(4,5) snd(2,3)
    by (intro exI [of _ w'] exI [of _ status] exI [of _ evs] exI [of _ x] exI [of _ i]) (simp add: w5_def)
qed

lemma send_invalid_total:
  assumes p: "platform_ok p out" and w: "world_ok w" and c: "conn_at a w = Some c" and rc: "2 \<le> bc_objectRc c"
  shows "\<exists>w' evs. bind_outcome (ConnBrReturnConnection (es p 62) (Some a) w) (\<lambda>w. bind_outcome (OnPostByteFinshed p n st w) ret_call) =
       ret_call w' \<and> world_ok w' \<and> bw_log w' = bw_log w @ finished n st # evs \<and> closing_events evs"
proof -
  define w2 where "w2 = upd_conn a (\<lambda>c. c\<lparr>bc_objectRc := bc_objectRc c - 1\<rparr>) w"
  have r: "ConnBrReturnConnection (es p 62) (Some a) w = Done w2"
    unfolding w2_def using p by (intro return_conn [OF c _ rc]) simp
  have w2: "world_ok w2" unfolding w2_def using upd_rc_ok [OF w c, of "- 1"] rc by simp
  from finish_total [OF p w2, of n st] obtain w' evs where
    "OnPostByteFinshed p n st w2 = Done w'" "world_ok w'" "closing_events evs" "bw_log w' = bw_log w2 @ finished n st # evs" by blast
  then show ?thesis using r by (intro exI [of _ w'] exI [of _ evs]) (simp add: w2_def)
qed

lemma send_node_total:
  assumes p: "platform_ok p out" and w: "world_ok w" and n: "length (sb_data n) < fuel p"
  shows "\<exists>w' status evs. send_node p n w = ret_call w' \<and> world_ok w' \<and> bw_log w' = bw_log w @ finished n status # evs \<and>
     closing_events evs \<and>
     (status = SOFTBUS_OK \<longrightarrow> evs = [] \<and> (\<exists>x. out (bw_link w') = out (bw_link w) @ x @ sb_data n)) \<and>
     ((\<nexists>c. c \<in> set (bw_conns w) \<and> bc_listed c \<and> bc_connectionId c = sb_connectionId n) \<longrightarrow>
        status = SOFTBUS_CONN_BR_CONNECTION_NOT_EXIST_ERR)"
proof -
  have h: "healthy (es p 60)" using p by simp
  from w h show ?thesis
  proof (cases rule: get_by_id [where cid = "sb_connectionId n"])
    case 1
    from finish_total [OF p w, of n SOFTBUS_CONN_BR_CONNECTION_NOT_EXIST_ERR] obtain w' evs where
      "OnPostByteFinshed p n SOFTBUS_CONN_BR_CONNECTION_NOT_EXIST_ERR w = Done w'" "world_ok w'" "closing_events evs"
      "bw_log w' = bw_log w @ finished n SOFTBUS_CONN_BR_CONNECTION_NOT_EXIST_ERR # evs" by blast
    then show ?thesis using 1
      by (intro exI [of _ w'] exI [of _ SOFTBUS_CONN_BR_CONNECTION_NOT_EXIST_ERR] exI [of _ evs]) (simp add: send_node_def)
  next
    case (2 a c)
    have ex: "\<exists>c. c \<in> set (bw_conns w) \<and> bc_listed c \<and> bc_connectionId c = sb_connectionId n"
      using 2 w by (auto simp: conn_at_Some)
    define w1 where "w1 = upd_conn a (\<lambda>c. c\<lparr>bc_objectRc := bc_objectRc c + 1\<rparr>) w"
    define c1 where "c1 = c\<lparr>bc_objectRc := bc_objectRc c + 1\<rparr>"
    have cok: "conn_ok c" by (rule conn_at_ok [OF w 2(2)])
    then have rc: "2 \<le> bc_objectRc c1" by (simp add: conn_ok_def c1_def)
    have w1: "world_ok w1" "conn_at a w1 = Some c1" "bw_log w1 = bw_log w" "bw_link w1 = bw_link w"
      unfolding w1_def using 2(2) upd_rc_ok [OF w 2(2), of 1] cok by (simp_all add: conn_at_upd c1_def conn_ok_def)
    note start = 2(1) [folded w1_def] w1(2)
    show ?thesis
    proof (cases "bc_socketHandle c1 = INVALID_SOCKET_HANDLE")
      case True
      with send_invalid_total [OF p w1(1,2) rc, of n SOFTBUS_CONN_BR_CONNECTION_INVALID_SOCKET] obtain w' evs where
        "send_node p n w = ret_call w'" "world_ok w'" "closing_events evs"
        "bw_log w' = bw_log w1 @ finished n SOFTBUS_CONN_BR_CONNECTION_INVALID_SOCKET # evs"
        using start p by (auto simp: send_node_def)
      then show ?thesis using ex w1(3)
        by (intro exI [of _ w'] exI [of _ SOFTBUS_CONN_BR_CONNECTION_INVALID_SOCKET] exI [of _ evs]) simp
    next
      case False
      then have "send_node p n w = send_connected p n a c1 w1" using start p by (simp add: send_node_def)
      with send_connected_total [OF p w1(1,2) rc n] obtain w' status evs x i where
        "send_node p n w = ret_call w'" "world_ok w'" "bw_log w' = bw_log w1 @ finished n status # evs" "closing_events evs"
        "out (bw_link w') = out (bw_link w1) @ x @ take i (sb_data n)"
        "status = SOFTBUS_OK \<longrightarrow> evs = [] \<and> take i (sb_data n) = sb_data n" by metis
      then show ?thesis using ex w1(3,4) by (intro exI [of _ w'] exI [of _ status] exI [of _ evs]) auto
    qed
  qed
qed

subsection \<open>Identifiers\<close>

definition listed_ids :: "'s br_world \<Rightarrow> u32 set" where
  "listed_ids w = bc_connectionId ` {c \<in> set (bw_conns w). bc_listed c}"

definition candidate :: "u16 \<Rightarrow> u32" where
  "candidate i = push_bit 16 2 + ucast i"

lemma candidate_unat: "unat (candidate i) = 131072 + unat i"
proof -
  have "unat i < 2 ^ LENGTH(16)" by (rule unsigned_less)
  moreover have "unat (ucast i :: u32) = unat i" by (rule unat_ucast_up) simp
  ultimately show ?thesis unfolding candidate_def by (subst unat_add_lem [THEN iffD1]) simp_all
qed

lemma candidate_inj: "candidate i = candidate j \<longleftrightarrow> i = j"
  using candidate_unat [of i] candidate_unat [of j] by (metis add_left_cancel unsigned_word_eqI)

lemma candidate_nonzero: "candidate i \<noteq> 0"
  using candidate_unat [of i] by (metis add_eq_0_iff_both_eq_0 unsigned_0 zero_neq_numeral)

lemma allocate_spec:
  "AllocateConnectionIdUnsafe w = (let i = bw_nextId w + 1 in
     (if candidate i \<in> listed_ids w then 0 else candidate i, w\<lparr>bw_nextId := i\<rparr>))"
proof -
  have "(find (\<lambda>c. bc_listed c \<and> x = bc_connectionId c) (bw_conns w) \<noteq> None) = (x \<in> listed_ids w)" for x
    unfolding listed_ids_def by (simp only: find_None_iff) auto
  then show ?thesis by (simp add: AllocateConnectionIdUnsafe_def Let_def candidate_def)
qed

lemma listed_ids_next [simp]: "listed_ids (w\<lparr>bw_nextId := i\<rparr>) = listed_ids w"
  by (simp add: listed_ids_def)

lemma allocate_loop_Some:
  "allocate_loop n w = Some (cid, w') \<Longrightarrow> cid \<noteq> 0 \<and> cid \<notin> listed_ids w \<and> (\<exists>i. cid = candidate i \<and> w' = w\<lparr>bw_nextId := i\<rparr>)"
proof (induction n arbitrary: w)
  case (Suc n)
  show ?case
  proof (cases "candidate (bw_nextId w + 1) \<in> listed_ids w")
    case True
    then have "allocate_loop n (w\<lparr>bw_nextId := bw_nextId w + 1\<rparr>) = Some (cid, w')"
      using Suc.prems by (simp add: allocate_spec Let_def)
    from Suc.IH [OF this] show ?thesis by simp
  next
    case False
    then show ?thesis using Suc.prems by (auto simp: allocate_spec Let_def candidate_nonzero)
  qed
qed simp

lemma allocate_loop_None:
  "allocate_loop n w = None \<Longrightarrow> k < n \<Longrightarrow> candidate (bw_nextId w + of_nat (Suc k)) \<in> listed_ids w"
proof (induction n arbitrary: w k)
  case (Suc n)
  define w1 where "w1 = w\<lparr>bw_nextId := bw_nextId w + 1\<rparr>"
  from Suc.prems(1) have c: "candidate (bw_nextId w + 1) \<in> listed_ids w" "allocate_loop n w1 = None"
    by (auto simp: allocate_spec Let_def candidate_nonzero w1_def split: if_splits)
  show ?case
  proof (cases k)
    case 0
    then show ?thesis using c by simp
  next
    case (Suc j)
    have "candidate (bw_nextId w1 + of_nat (Suc j)) \<in> listed_ids w1" using Suc.IH [OF c(2), of j] Suc.prems(2) Suc by simp
    then show ?thesis using Suc by (simp add: w1_def ac_simps)
  qed
qed simp

lemma allocate_terminates:
  assumes "card (listed_ids w) < n" "n \<le> 65536"
  shows "\<exists>cid w'. allocate_loop n w = Some (cid, w')"
proof (rule ccontr)
  assume "\<not> ?thesis"
  then have none: "allocate_loop n w = None" by (cases "allocate_loop n w") auto
  let ?f = "\<lambda>k. candidate (bw_nextId w + of_nat (Suc k))"
  have "inj_on ?f {..<n}"
  proof (rule inj_onI)
    fix i j assume ij: "i \<in> {..<n}" "j \<in> {..<n}" and e: "?f i = ?f j"
    from e have "(of_nat i :: u16) = of_nat j" by (simp only: candidate_inj add_left_cancel of_nat_Suc)
    then have "unat (of_nat i :: u16) = unat (of_nat j :: u16)" by (rule arg_cong)
    then show "i = j" using ij assms(2) by (simp only: unat_of_nat) (simp add: take_bit_nat_eq_self)
  qed
  then have "card (?f ` {..<n}) = n" by (simp add: card_image)
  moreover have "?f ` {..<n} \<subseteq> listed_ids w" using allocate_loop_None [OF none] by auto
  then have "card (?f ` {..<n}) \<le> card (listed_ids w)" by (rule card_mono [rotated]) (simp add: listed_ids_def)
  ultimately show False using assms(1) by linarith
qed

subsection \<open>Control messages end to end\<close>

text \<open>What is asked of cJSON for an object: it can be built and printed to a short text, and parsing the
  text on the peer gives it back.\<close>

definition json_carried :: "'s platform \<Rightarrow> 't platform \<Rightarrow> json \<Rightarrow> bool" where
  "json_carried p q ms \<longleftrightarrow> create_ok (cj p) \<and> (\<forall>k. add_ok (cj p) k) \<and>
     (\<exists>s. print_json (cj p) ms = Some s \<and> length s + 25 \<le> MAX_DATA_LEN \<and> parse_json q (c_string s) = Some ms)"

definition carries :: "'t platform \<Rightarrow> bytes \<Rightarrow> json \<Rightarrow> bool" where
  "carries q data ms \<longleftrightarrow> (\<exists>h s. data = wire (h, s) \<and> pk_module h = 11 \<and> parse_json q s = Some ms)"

lemma add_members_ok: "(\<And>k. add_ok j k) \<Longrightarrow> add_members j k obj ms = Some (obj @ ms)"
  by (induction ms arbitrary: k obj) auto

lemma pack_ctl_ok:
  assumes e: "healthy e" and j: "json_carried p q ms" and ctx: "ctl_members ctx = Some ms"
  shows "\<exists>d. ConnBrPackCtlMessage le e k (cj p) ctx g = (sint g, Some d, g + 1) \<and> carries q d ms \<and>
     0 < length d \<and> length d \<le> MAX_DATA_LEN"
proof -
  obtain s where s: "print_json (cj p) ms = Some s" "length s + 25 \<le> MAX_DATA_LEN" "parse_json q (c_string s) = Some ms"
    using j by (auto simp: json_carried_def)
  have ser: "SerializeByJson (cj p) ctx = (SOFTBUS_OK, Some (c_string s))"
    using j s(1) ctx by (simp add: SerializeByJson_def json_carried_def add_members_ok)
  define dl where "dl = (of_nat (length (c_string s)) :: u32)"
  have dl: "unat dl = length s + 1"
    unfolding dl_def c_string_def length_append length_map list.size using s(2)
    by (simp only: unat_of_nat) (simp add: take_bit_nat_eq_self)
  then have bl: "unat (dl + 24) = length s + 25" using s(2) by (subst unat_add_lem [THEN iffD1]) simp_all
  define h where "h = \<lparr>pk_magic = MAGIC_NUMBER, pk_module = of_int MODULE_CONNECTION, pk_seq = g, pk_flag = ctl_flag ctx, pk_len = dl\<rparr>"
  obtain pk where pk: "PackConnPktHead le (Some h) = Some pk" "head_bytes le pk = wire_head h" using pack_wire by blast
  have "SoftBusCalloc e k (unat (dl + 24))" "memcpy_ok e (unat (dl + 24)) SIZEOF_PKT_HEAD" "memcpy_ok e (unat (dl + 24 - 24)) (unat dl)"
    using e dl bl s(2) by (auto intro!: healthy_SoftBusCalloc securec_memcpy healthy_securec)
  then have "ConnBrPackCtlMessage le e k (cj p) ctx g = (sint g, Some (wire (h, c_string s)), g + 1)"
    using ser pk unfolding ConnBrPackCtlMessage_def Let_def dl_def h_def by (simp add: wire_def)
  moreover have "carries q (wire (h, c_string s)) ms" unfolding carries_def using s(3)
    by (intro exI [of _ h] exI [of _ "c_string s"]) (simp add: h_def)
  moreover have "length (wire (h, c_string s)) = length s + 25" by (simp add: length_wire c_string_def)
  ultimately show ?thesis using s(2) by (intro exI [of _ "wire (h, c_string s)"]) (simp del: length_greater_0_conv)
qed

definition conn_by_id :: "u32 \<Rightarrow> 's br_world \<Rightarrow> ConnBrConnection option" where
  "conn_by_id cid w = find (\<lambda>c. bc_listed c \<and> bc_connectionId c = cid) (bw_conns w)"

lemma conn_by_id_at: "world_ok w \<Longrightarrow> conn_by_id cid w = Some c \<Longrightarrow> conn_at (bc_addr c) w = Some c \<and> bc_listed c \<and> bc_connectionId c = cid"
  by (auto simp: conn_by_id_def find_Some_iff conn_at_Some)

lemma upd_rc_cancel:
  "upd_conn a (\<lambda>c. c\<lparr>bc_objectRc := bc_objectRc c - 1\<rparr>) (upd_conn a (\<lambda>c. c\<lparr>bc_objectRc := bc_objectRc c + 1\<rparr>) w) = w"
  by (simp add: upd_conn_def comp_def if_distrib cong: if_cong)

lemma get_return:
  assumes "world_ok w" "healthy e" "healthy e'" "conn_by_id cid w = Some c"
  defines "w1 \<equiv> upd_conn (bc_addr c) (\<lambda>c. c\<lparr>bc_objectRc := bc_objectRc c + 1\<rparr>) w"
  shows "ConnBrGetConnectionById e cid w = (Some (bc_addr c), w1)" "conn_at (bc_addr c) w1 = Some (c\<lparr>bc_objectRc := bc_objectRc c + 1\<rparr>)"
    "ConnBrReturnConnection e' (Some (bc_addr c)) w1 = Done w"
proof -
  have c: "conn_at (bc_addr c) w = Some c" using conn_by_id_at [OF assms(1,4)] by simp
  show "ConnBrGetConnectionById e cid w = (Some (bc_addr c), w1)"
    using assms(2,4) by (simp add: ConnBrGetConnectionById_def conn_by_id_def w1_def)
  show c1: "conn_at (bc_addr c) w1 = Some (c\<lparr>bc_objectRc := bc_objectRc c + 1\<rparr>)" using c by (simp add: w1_def conn_at_upd)
  have "1 \<le> bc_objectRc c" using conn_at_ok [OF assms(1) c] by (simp add: conn_ok_def)
  then show "ConnBrReturnConnection e' (Some (bc_addr c)) w1 = Done w"
    using return_conn [OF c1 assms(3)] upd_rc_cancel [of "bc_addr c" w] by (simp add: w1_def)
qed

definition queued :: "int \<Rightarrow> SendBrQueueNode \<Rightarrow> 's br_world \<Rightarrow> 's br_world \<Rightarrow> bool" where
  "queued flag m w w' \<longleftrightarrow> send_ok (bw_queue w') \<and>
     inner_view (bw_queue w') = append_at (GetPriority flag) m (inner_view (bw_queue w)) \<and> sq_list (bw_queue w') = sq_list (bw_queue w)"

lemma post_bytes_ok:
  assumes p: "platform_ok p out" "0 < fuel p" and w: "world_ok w" "send_ok (bw_queue w)" and c: "conn_by_id cid w = Some c"
    and d: "0 < length d" "length d \<le> MAX_DATA_LEN" and room: "length (inner_view (bw_queue w) ! GetPriority flag) < 30"
  shows "\<exists>w' m. ConnBrPostBytes p k cid (Some d) 0 flag MODULE_CONNECTION seq w = ret_call (SOFTBUS_OK, w') \<and>
     (\<exists>q. w' = w\<lparr>bw_queue := q\<rparr>) \<and> queued flag m w w' \<and> sb_data m = d"
proof -
  define m where "m = \<lparr>sb_connectionId = cid, sb_pid = 0, sb_flag = flag, sb_isInner = True, sb_module = MODULE_CONNECTION, sb_seq = seq, sb_data = d\<rparr>"
  have h: "healthy (es p i)" for i using p by simp
  note g = get_return [OF w(1) h [of k] h [of "k + 2"] c]
  obtain f where f: "fuel p = Suc f" using p(2) by (cases "fuel p") auto
  obtain q where q: "ConnBrEnqueueNonBlock (es p (k + 4)) (queue_waiter p) (fuel p) (Some m) (bw_queue w) = Done (Some (SOFTBUS_OK, q))"
    "send_ok q" "inner_view q = append_at (GetPriority flag) m (inner_view (bw_queue w))" "sq_list q = sq_list (bw_queue w)"
    using br_enqueue_inner [OF h [of "k + 4"] w(2), of m "queue_waiter p" f] room by (auto simp: m_def f)
  have "SoftBusCalloc (es p (k + 3)) 0 SIZEOF_SEND_NODE" by (intro healthy_SoftBusCalloc h) simp_all
  then have "ConnBrPostBytes p k cid (Some d) 0 flag MODULE_CONNECTION seq w = ret_call (SOFTBUS_OK, w\<lparr>bw_queue := q\<rparr>)"
    using d g h q(1) by (simp add: ConnBrPostBytes_def m_def)
  then show ?thesis using q by (intro exI [of _ "w\<lparr>bw_queue := q\<rparr>"] exI [of _ m]) (auto simp: queued_def m_def)
qed

lemma post_ctl_ok:
  assumes p: "platform_ok p out" "0 < fuel p" and w: "world_ok w" "send_ok (bw_queue w)" "0 \<le> sint (bw_gen w)"
    and c: "conn_by_id (ctl_connectionId ctx) w = Some c"
    and j: "json_carried p q ms" "ctl_members ctx = Some ms"
    and room: "length (inner_view (bw_queue w) ! GetPriority (sint (ctl_flag ctx))) < 30"
  shows "\<exists>w' m. post_ctl p k ctx w = ret_call (SOFTBUS_OK, w') \<and> (\<exists>g qu. w' = w\<lparr>bw_gen := g, bw_queue := qu\<rparr>) \<and>
     queued (sint (ctl_flag ctx)) m w w' \<and> carries q (sb_data m) ms"
proof -
  have h: "healthy (es p k)" using p by simp
  obtain d where d: "ConnBrPackCtlMessage (host_le p) (es p k) 0 (cj p) ctx (bw_gen w) = (sint (bw_gen w), Some d, bw_gen w + 1)"
    "carries q d ms" "0 < length d" "length d \<le> MAX_DATA_LEN" using pack_ctl_ok [OF h j] by blast
  define w1 where "w1 = w\<lparr>bw_gen := bw_gen w + 1\<rparr>"
  have w1: "world_ok w1" "send_ok (bw_queue w1)" "conn_by_id (ctl_connectionId ctx) w1 = Some c"
    "length (inner_view (bw_queue w1) ! GetPriority (sint (ctl_flag ctx))) < 30"
    using w c room by (simp_all add: w1_def conn_by_id_def)
  from post_bytes_ok [OF p w1(1-3) d(3,4) w1(4), of "k + 1" "sint (bw_gen w)"] obtain w' m qu where
    "ConnBrPostBytes p (k + 1) (ctl_connectionId ctx) (Some d) 0 (sint (ctl_flag ctx)) MODULE_CONNECTION (sint (bw_gen w)) w1 =
       ret_call (SOFTBUS_OK, w')" "w' = w1\<lparr>bw_queue := qu\<rparr>" "queued (sint (ctl_flag ctx)) m w1 w'" "sb_data m = d" by blast
  then show ?thesis using d w(3) by (intro exI [of _ w'] exI [of _ m]) (auto simp: post_ctl_def w1_def queued_def)
qed

lemma conn_by_id_upd:
  assumes "\<And>c. bc_listed (f c) = bc_listed c" "\<And>c. bc_connectionId (f c) = bc_connectionId c"
  shows "conn_by_id cid (upd_conn a f w) = map_option (\<lambda>c. if bc_addr c = a then f c else c) (conn_by_id cid w)"
proof -
  have "find (\<lambda>c. bc_listed c \<and> bc_connectionId c = cid) (map (\<lambda>c. if bc_addr c = a then f c else c) cs) =
     map_option (\<lambda>c. if bc_addr c = a then f c else c) (find (\<lambda>c. bc_listed c \<and> bc_connectionId c = cid) cs)" for cs
    by (induction cs) (auto simp: assms)
  then show ?thesis by (simp add: conn_by_id_def upd_conn_def)
qed

lemma conn_by_id_frame [simp]:
  "conn_by_id cid (w\<lparr>bw_gen := g\<rparr>) = conn_by_id cid w" "conn_by_id cid (w\<lparr>bw_queue := q\<rparr>) = conn_by_id cid w"
  "conn_by_id cid (w\<lparr>bw_timers := ts\<rparr>) = conn_by_id cid w" "conn_at a (w\<lparr>bw_timers := ts\<rparr>) = conn_at a w"
  "world_ok (w\<lparr>bw_timers := ts\<rparr>) = world_ok w"
  by (simp_all add: conn_by_id_def conn_at_def world_ok_def)

abbreviation request_json :: "int \<Rightarrow> int \<Rightarrow> json" where
  "request_json delta rc \<equiv> [(''KEY_METHOD'', BR_METHOD_NOTIFY_REQUEST), (''KEY_DELTA'', delta), (''KEY_REFERENCE_NUM'', rc)]"

abbreviation response_json :: "int \<Rightarrow> json" where
  "response_json rc \<equiv> [(''KEY_METHOD'', BR_METHOD_NOTIFY_RESPONSE), (''KEY_REFERENCE_NUM'', rc)]"

text \<open>What the theorem below asks of each of the two devices.\<close>

definition device_ok :: "'s platform \<Rightarrow> ('s \<Rightarrow> bytes) \<Rightarrow> 's br_world \<Rightarrow> bool" where
  "device_ok p out w \<longleftrightarrow> platform_ok p out \<and> 0 < fuel p \<and> host_le p \<and> world_ok w \<and> send_ok (bw_queue w) \<and> 0 \<le> sint (bw_gen w) \<and>
     (\<forall>i<3. length (inner_view (bw_queue w) ! i) < 30)"

lemma post_timer_ok: "platform_ok p out \<Longrightarrow> post_timer (es p k) t v = v\<lparr>bw_timers := bw_timers v @ [t]\<rparr>"
  by (simp add: post_timer_def healthy_SoftBusCalloc)

lemma release_last:
  assumes d: "device_ok p out w" and c: "conn_by_id cid w = Some c" "bc_connectionRc c = 1"
    and j: "json_carried p q (request_json (- 1) 0)"
  shows "\<exists>w' m. ConnBrUpdateConnectionRc p (bc_addr c) (- 1) w = ret_call (SOFTBUS_OK, w') \<and> world_ok w' \<and>
     conn_by_id cid w' = Some (c\<lparr>bc_connectionRc := 0, bc_state := BR_NEGOTIATION_CLOSING\<rparr>) \<and>
     bw_timers w' = bw_timers w @ [conn_timer MSG_NEGOTIATION_CLOSING_TIMEOUT cid 3000] \<and>
     queued CONN_LOW m w w' \<and> carries q (sb_data m) (request_json (- 1) 0)"
proof -
  let ?a = "bc_addr c"
  have p: "platform_ok p out" "0 < fuel p" and w: "world_ok w" "send_ok (bw_queue w)" "0 \<le> sint (bw_gen w)"
    using d by (auto simp: device_ok_def)
  have room: "length (inner_view (bw_queue w) ! i) < 30" if "i < 3" for i using d that by (simp add: device_ok_def)
  have at: "conn_at ?a w = Some c" "bc_connectionId c = cid" using conn_by_id_at [OF w(1) c(1)] by simp_all
  define w0 where "w0 = upd_conn ?a (\<lambda>c. c\<lparr>bc_connectionRc := 0\<rparr>) w"
  define w1 where "w1 = (upd_conn ?a (\<lambda>c. c\<lparr>bc_state := BR_NEGOTIATION_CLOSING\<rparr>) w0)
    \<lparr>bw_timers := bw_timers w @ [conn_timer MSG_NEGOTIATION_CLOSING_TIMEOUT cid 3000]\<rparr>"
  have c1: "conn_by_id cid w1 = Some (c\<lparr>bc_connectionRc := 0, bc_state := BR_NEGOTIATION_CLOSING\<rparr>)"
    using c(1) by (simp add: w1_def w0_def conn_by_id_upd)
  have "world_ok w0" unfolding w0_def
    by (rule world_ok_upd [OF w(1)]) (use at conn_at_ok [OF w(1)] in \<open>auto simp: conn_ok_def\<close>)
  moreover have "conn_at ?a w0 = Some (c\<lparr>bc_connectionRc := 0\<rparr>)" using at by (simp add: w0_def conn_at_upd)
  ultimately have w1: "world_ok w1" unfolding w1_def
    using conn_at_ok [OF w(1) at(1)] by (auto intro!: world_ok_upd simp: conn_ok_def)
  define ctx where "ctx = (plain_ctx cid CONN_LOW BR_METHOD_NOTIFY_REQUEST)\<lparr>ctl_delta := - 1, ctl_referenceNumber := 0\<rparr>"
  have ctx: "ctl_members ctx = Some (request_json (- 1) 0)" "ctl_connectionId ctx = cid" "sint (ctl_flag ctx) = CONN_LOW"
    by (simp_all add: ctx_def plain_ctx_def ctl_members_def)
  have run: "ConnBrUpdateConnectionRc p ?a (- 1) w = post_ctl p 2 ctx w1"
    using at c(2) p by (simp add: ConnBrUpdateConnectionRc_def int32_def post_timer_ok Let_def ctx_def w1_def w0_def)
  have q1: "bw_queue w1 = bw_queue w" "bw_gen w1 = bw_gen w" "bw_timers w1 = bw_timers w @ [conn_timer MSG_NEGOTIATION_CLOSING_TIMEOUT cid 3000]"
    by (simp_all add: w1_def w0_def)
  have r: "length (inner_view (bw_queue w1) ! GetPriority (sint (ctl_flag ctx))) < 30"
    using room GetPriority_less unfolding q1 by blast
  obtain w' m g qu where "post_ctl p 2 ctx w1 = ret_call (SOFTBUS_OK, w')" "w' = w1\<lparr>bw_gen := g, bw_queue := qu\<rparr>"
    "queued CONN_LOW m w1 w'" "carries q (sb_data m) (request_json (- 1) 0)"
    using post_ctl_ok [OF p w1 _ _ _ j ctx(1) r, of _ 2] c1 w(2,3) unfolding ctx(2,3) q1 by blast
  then show ?thesis using run w1 c1 q1 by (intro exI [of _ w'] exI [of _ m]) (simp add: queued_def)
qed

lemma device_base: "device_ok p out w \<Longrightarrow> platform_ok p out \<and> host_le p \<and> world_ok w"
  by (simp add: device_ok_def)

lemma receive_ctl:
  assumes d: "platform_ok q out \<and> host_le q \<and> world_ok w" and c: "conn_by_id cid w = Some c" and data: "carries q data ms"
    and m: "get_number64 ms ''KEY_METHOD'' = Some method"
    and w1: "w1 = upd_conn (bc_addr c) (\<lambda>c. c\<lparr>bc_objectRc := bc_objectRc c + 1\<rparr>) w"
    and h: "control_method q (bc_addr c) method ms w1 = ret_call (status, w2)" "conn_at (bc_addr c) w2 = Some c2" "2 \<le> bc_objectRc c2"
  shows "DataReceived q cid data w = ret_call (upd_conn (bc_addr c) (\<lambda>c. c\<lparr>bc_objectRc := bc_objectRc c - 1\<rparr>) w2)"
proof -
  have p: "platform_ok q out" "host_le q" "world_ok w" using d by auto
  then have hl: "healthy (es q k)" for k by simp
  obtain hd s where hd: "data = wire (hd, s)" "pk_module hd = 11" "parse_json q s = Some ms" using data by (auto simp: carries_def)
  have "head_of True data = hd" using head_of_head_bytes [of True hd s] by (simp add: hd(1) wire_def head_bytes_le)
  moreover have "drop 24 data = s" by (simp add: hd(1) wire_def)
  ultimately show ?thesis
    using p(2) hd(2,3) m h(1) get_return(1) [OF p(3) hl [of 80] hl [of 81] c] return_conn [OF h(2) hl [of 81] h(3)]
    by (simp add: DataReceived_def ReceivedControlData_def w1 [symmetric] Let_def)
qed

text \<open>The peer holds no other reference: it closes the connection.\<close>

lemma request_closes:
  assumes d: "device_ok q out w" and c: "conn_by_id cid w = Some c" "bc_state c = BR_CONNECTED" "bc_connectionRc c \<le> 1" "int32 (bc_connectionRc c - 1)"
    and data: "carries q data (request_json (- 1) 0)"
  shows "\<exists>w'. DataReceived q cid data w = ret_call w' \<and>
    conn_at (bc_addr c) w' = Some (c\<lparr>bc_connectionRc := bc_connectionRc c - 1, bc_socketHandle := INVALID_SOCKET_HANDLE, bc_state := BR_CLOSED\<rparr>)"
proof -
  let ?a = "bc_addr c"
  have p: "platform_ok q out" and w: "world_ok w" using d by (auto simp: device_ok_def)
  have at: "conn_at ?a w = Some c" using conn_by_id_at [OF w c(1)] by simp
  define w1 where "w1 = upd_conn ?a (\<lambda>c. c\<lparr>bc_objectRc := bc_objectRc c + 1\<rparr>) w"
  define w2 where "w2 = upd_conn ?a (\<lambda>c. c\<lparr>bc_state := BR_CLOSING\<rparr>) (upd_conn ?a (\<lambda>d. d\<lparr>bc_connectionRc := bc_connectionRc c - 1\<rparr>) w1)"
  define c2 where "c2 = c\<lparr>bc_objectRc := bc_objectRc c + 1, bc_connectionRc := bc_connectionRc c - 1, bc_state := BR_CLOSING\<rparr>"
  have cok: "conn_ok c" by (rule conn_at_ok [OF w at])
  have w1: "world_ok w1" unfolding w1_def using upd_rc_ok [OF w at, of 1] cok by (simp add: conn_ok_def)
  have at1: "conn_at ?a w1 = Some (c\<lparr>bc_objectRc := bc_objectRc c + 1\<rparr>)" using at by (simp add: w1_def conn_at_upd)
  have at2: "conn_at ?a w2 = Some c2" using at1 by (simp add: w2_def c2_def conn_at_upd)
  have w2: "world_ok w2" unfolding w2_def
    by (intro world_ok_upd w1) (use at1 cok in \<open>auto simp: conn_ok_def conn_at_upd\<close>)
  obtain st w3 where w3: "ConnBrDisconnectNow q (es q 2) ?a w2 = Done (st, w3)"
    "conn_at ?a w3 = Some (c2\<lparr>bc_socketHandle := INVALID_SOCKET_HANDLE, bc_state := BR_CLOSED\<rparr>)"
    using disconnect_total [OF p w2 at2, of 2] by blast
  have "control_method q ?a BR_METHOD_NOTIFY_REQUEST (request_json (- 1) 0) w1 = ret_call (SOFTBUS_OK, w3)"
    using p at1 c(2-4) w3(1) by (simp add: control_method_def ConnBrOnReferenceRequest_def get_signed_def Let_def w2_def)
  from receive_ctl [OF device_base [OF d] c(1) data _ w1_def this w3(2)] cok
  have "DataReceived q cid data w = ret_call (upd_conn ?a (\<lambda>c. c\<lparr>bc_objectRc := bc_objectRc c - 1\<rparr>) w3)"
    by (simp add: get_number64_def c2_def conn_ok_def)
  moreover have "conn_at ?a (upd_conn ?a (\<lambda>c. c\<lparr>bc_objectRc := bc_objectRc c - 1\<rparr>) w3) =
      Some (c\<lparr>bc_connectionRc := bc_connectionRc c - 1, bc_socketHandle := INVALID_SOCKET_HANDLE, bc_state := BR_CLOSED\<rparr>)"
    using w3(2) by (cases c) (simp add: conn_at_upd c2_def)
  ultimately show ?thesis by blast
qed

text \<open>The peer holds other references: it answers with its count.\<close>

lemma request_replies:
  assumes d: "device_ok q out w" and c: "conn_by_id cid w = Some c" "bc_state c = BR_CONNECTED" "1 < bc_connectionRc c" "int32 (bc_connectionRc c)"
    and data: "carries q data (request_json (- 1) 0)" and j: "json_carried q p (response_json (bc_connectionRc c - 1))"
  shows "\<exists>w' m. DataReceived q cid data w = ret_call w' \<and> conn_at (bc_addr c) w' = Some (c\<lparr>bc_connectionRc := bc_connectionRc c - 1\<rparr>) \<and>
    queued CONN_HIGH m w w' \<and> carries p (sb_data m) (response_json (bc_connectionRc c - 1))"
proof -
  let ?a = "bc_addr c" and ?r = "bc_connectionRc c - 1"
  have p: "platform_ok q out" "0 < fuel q" and w: "world_ok w" "send_ok (bw_queue w)" "0 \<le> sint (bw_gen w)"
    using d by (auto simp: device_ok_def)
  have at: "conn_at ?a w = Some c" "bc_connectionId c = cid" using conn_by_id_at [OF w(1) c(1)] by simp_all
  define w1 where "w1 = upd_conn ?a (\<lambda>c. c\<lparr>bc_objectRc := bc_objectRc c + 1\<rparr>) w"
  define w2 where "w2 = upd_conn ?a (\<lambda>d. d\<lparr>bc_connectionRc := ?r\<rparr>) w1"
  define c2 where "c2 = c\<lparr>bc_objectRc := bc_objectRc c + 1, bc_connectionRc := ?r\<rparr>"
  have cok: "conn_ok c" by (rule conn_at_ok [OF w(1) at(1)])
  have w1: "world_ok w1" unfolding w1_def using upd_rc_ok [OF w(1) at(1), of 1] cok by (simp add: conn_ok_def)
  have at1: "conn_at ?a w1 = Some (c\<lparr>bc_objectRc := bc_objectRc c + 1\<rparr>)" using at by (simp add: w1_def conn_at_upd)
  have w2: "world_ok w2" unfolding w2_def
    by (intro world_ok_upd w1) (use at1 cok in \<open>auto simp: conn_ok_def\<close>)
  have at2: "conn_by_id cid w2 = Some c2" "conn_at ?a w2 = Some c2"
    using c(1) at(1) by (simp_all add: w2_def w1_def c2_def conn_by_id_upd conn_at_upd)
  define ctx where "ctx = (plain_ctx cid CONN_HIGH BR_METHOD_NOTIFY_RESPONSE)\<lparr>ctl_referenceNumber := ?r\<rparr>"
  have ctx: "ctl_members ctx = Some (response_json ?r)" "ctl_connectionId ctx = cid" "sint (ctl_flag ctx) = CONN_HIGH"
    by (simp_all add: ctx_def plain_ctx_def ctl_members_def)
  have q2: "bw_queue w2 = bw_queue w" "bw_gen w2 = bw_gen w" by (simp_all add: w2_def w1_def)
  have r: "length (inner_view (bw_queue w2) ! GetPriority (sint (ctl_flag ctx))) < 30"
    using d GetPriority_less unfolding q2 device_ok_def by blast
  obtain w3 m g qu where w3: "post_ctl q 3 ctx w2 = ret_call (SOFTBUS_OK, w3)" "w3 = w2\<lparr>bw_gen := g, bw_queue := qu\<rparr>"
    "queued CONN_HIGH m w2 w3" "carries p (sb_data m) (response_json ?r)"
    using post_ctl_ok [OF p w2 _ _ _ j ctx(1) r, of _ 3] at2 w(2,3) unfolding ctx(2,3) q2 by blast
  have "int32 ?r" using c(3,4) by (auto simp: int32_def)
  then have "control_method q ?a BR_METHOD_NOTIFY_REQUEST (request_json (- 1) 0) w1 = ret_call (SOFTBUS_OK, w3)"
    using p at at1 c(2,3) w3(1)
    by (simp add: control_method_def ConnBrOnReferenceRequest_def BrPostReplyMessage_def get_signed_def Let_def w2_def ctx_def)
  moreover have at3: "conn_at ?a w3 = Some c2" using at2 w3(2) by simp
  ultimately have "DataReceived q cid data w = ret_call (upd_conn ?a (\<lambda>c. c\<lparr>bc_objectRc := bc_objectRc c - 1\<rparr>) w3)"
    using receive_ctl [OF device_base [OF d] c(1) data _ w1_def] cok by (simp add: get_number64_def c2_def conn_ok_def)
  moreover have "conn_at ?a (upd_conn ?a (\<lambda>c. c\<lparr>bc_objectRc := bc_objectRc c - 1\<rparr>) w3) = Some (c\<lparr>bc_connectionRc := ?r\<rparr>)"
    using at3 by (cases c) (simp add: conn_at_upd c2_def)
  ultimately show ?thesis using w3(3,4) q2
    by (intro exI [of _ "upd_conn ?a (\<lambda>c. c\<lparr>bc_objectRc := bc_objectRc c - 1\<rparr>) w3"] exI [of _ m]) (simp add: queued_def)
qed

text \<open>The answer reaches the side that waits to close: it resumes and drops its timer.\<close>

lemma response_resumes:
  assumes d: "platform_ok p out \<and> host_le p \<and> world_ok w" and c: "conn_by_id cid w = Some c" "bc_state c = BR_NEGOTIATION_CLOSING" "0 < r"
    and data: "carries p data (response_json r)"
  shows "\<exists>w'. DataReceived p cid data w = ret_call w' \<and> conn_at (bc_addr c) w' = Some (c\<lparr>bc_state := BR_CONNECTED\<rparr>) \<and>
    (\<forall>t\<in>set (bw_timers w'). \<not> (tm_what t = MSG_NEGOTIATION_CLOSING_TIMEOUT \<and> tm_arg1 t = ucast cid))"
proof -
  let ?a = "bc_addr c"
  have p: "platform_ok p out" and w: "world_ok w" using d by auto
  have at: "conn_at ?a w = Some c" "bc_connectionId c = cid" using conn_by_id_at [OF w(1) c(1)] by simp_all
  define w1 where "w1 = upd_conn ?a (\<lambda>c. c\<lparr>bc_objectRc := bc_objectRc c + 1\<rparr>) w"
  define c1 where "c1 = c\<lparr>bc_objectRc := bc_objectRc c + 1\<rparr>"
  have at1: "conn_at ?a w1 = Some c1" using at by (simp add: w1_def c1_def conn_at_upd)
  have cok: "conn_ok c" by (rule conn_at_ok [OF w at(1)])
  define w2 where "w2 = resume_conn ?a c1 w1"
  have "conn_at ?a (remove_timer t v) = conn_at ?a v" for t and v :: "'a br_world" by (simp add: remove_timer_def)
  then have at2: "conn_at ?a w2 = Some (c1\<lparr>bc_state := BR_CONNECTED\<rparr>)"
    using at1 by (simp add: w2_def resume_conn_def conn_at_upd)
  have "control_method p ?a BR_METHOD_NOTIFY_RESPONSE (response_json r) w1 = ret_call (SOFTBUS_OK, w2)"
    using p at1 c(2,3) by (simp add: control_method_def ConnBrOnReferenceResponse_def get_signed_def w2_def c1_def)
  then have "DataReceived p cid data w = ret_call (upd_conn ?a (\<lambda>c. c\<lparr>bc_objectRc := bc_objectRc c - 1\<rparr>) w2)"
    using receive_ctl [OF d c(1) data _ w1_def _ at2] cok by (simp add: get_number64_def c1_def conn_ok_def)
  moreover have "conn_at ?a (upd_conn ?a (\<lambda>c. c\<lparr>bc_objectRc := bc_objectRc c - 1\<rparr>) w2) = Some (c\<lparr>bc_state := BR_CONNECTED\<rparr>)"
    using at2 by (cases c) (simp add: conn_at_upd c1_def)
  moreover have "bw_timers w2 = filter (\<lambda>t. \<not> BrCompareConnectionLooperEventFunc t (conn_timer MSG_NEGOTIATION_CLOSING_TIMEOUT cid 0)) (bw_timers w)"
    using at(2) by (simp add: w2_def resume_conn_def log_event_def remove_timer_def c1_def w1_def)
  ultimately show ?thesis by (auto simp: BrCompareConnectionLooperEventFunc_def conn_timer_def)
qed

subsection \<open>Sample devices\<close>

definition sample_json :: cjson where
  "sample_json = \<lparr>create_ok = True, add_ok = (\<lambda>_. True),
     print_json = (\<lambda>j. if j = request_json (- 1) 0 then Some ''release'' else if j = response_json 2 then Some ''two left'' else None)\<rparr>"

definition sample_parse :: "bytes \<Rightarrow> json option" where
  "sample_parse d = (if d = c_string ''release'' then Some (request_json (- 1) 0)
     else if d = c_string ''two left'' then Some (response_json 2) else None)"

definition sample_platform :: "bytes platform" where
  "sample_platform = \<lparr>es = (\<lambda>_. ideal_env), host_le = True, cj = sample_json, parse_json = sample_parse,
     spp_write = (\<lambda>_. chunk_write 512), spp_disconnect = (\<lambda>_ l. (SOFTBUS_OK, l)), queue_waiter = idle_waiter, fuel = 1000,
     ack_others = answering ideal_env [] [] [], now = (0, 0), mutex_init = True, cond_init = True\<rparr>"

definition sample_conn :: "int \<Rightarrow> ConnBrConnection" where
  "sample_conn rc = \<lparr>bc_addr = 0, bc_listed = True, bc_connectionId = 0x20001, bc_side = CONN_SIDE_CLIENT, bc_mac = ''11:22:33:44:55:66'',
     bc_mtu = 990, bc_socketHandle = 4, bc_state = BR_CONNECTED, bc_connectionRc = rc, bc_objectRc = 2,
     bc_window = 20, bc_sequence = 19, bc_waitSequence = 0, bc_ackTimeoutCount = 0\<rparr>"

definition sample_world :: "int \<Rightarrow> bytes br_world" where
  "sample_world rc = \<lparr>bw_conns = [sample_conn rc], bw_nextId = 1, bw_nextAddr = 1,
     bw_queue = snd (snd (ConnBrInnerQueueInit ideal_env (\<lambda>_. True) fresh_state)),
     bw_pending = \<lparr>pd_list = [], pd_held = False, pd_next = 0\<rparr>, bw_gen = 5, bw_link = [], bw_timers = [], bw_log = []\<rparr>"

lemma sample_queue:
  "send_ok (bw_queue (sample_world rc))" "inner_view (bw_queue (sample_world rc)) = [[], [], []]"
proof -
  obtain g :: "SendBrQueueNode ConnectionQueue" where g: "CreateBrQueue ideal_env 0 0 0 = Some g" "group_ok g" "group_content g = [[], [], []]"
    using create_group_ok [OF healthy_ideal_env, of 0 0 0] by blast
  then show "send_ok (bw_queue (sample_world rc))" "inner_view (bw_queue (sample_world rc)) = [[], [], []]"
    by (simp_all add: sample_world_def ConnBrInnerQueueInit_def fresh_state_def send_ok_def inner_view_def)
qed

lemma sample_platform_ok: "platform_ok sample_platform (\<lambda>l. l)"
  unfolding platform_ok_def by (auto simp: sample_platform_def sample_json_def chunk_write_sink)

lemma sample_world_ok: "world_ok (sample_world rc)"
  by (simp add: world_ok_def sample_world_def sample_conn_def conn_ok_def pend_ok_def)

lemma sample_device_ok: "device_ok sample_platform (\<lambda>l. l) (sample_world rc)"
proof -
  have "(\<forall>i<3. length (inner_view (bw_queue (sample_world rc)) ! i) < 30)"
    unfolding sample_queue(2) by (simp add: eval_nat_numeral less_Suc_eq)
  moreover have "0 \<le> sint (bw_gen (sample_world rc))" by (simp add: sample_world_def)
  ultimately show ?thesis using sample_platform_ok sample_world_ok sample_queue(1)
    by (simp add: device_ok_def sample_platform_def)
qed

lemma sample_json_carried:
  "json_carried sample_platform sample_platform (request_json (- 1) 0)" "json_carried sample_platform sample_platform (response_json 2)"
  by (auto simp: json_carried_def sample_platform_def sample_json_def sample_parse_def c_string_def)

subsection \<open>Properties\<close>

text \<open>C11. The sender handles every message to the end. On a platform where nothing fails and the driver
  takes at least a byte at a time, the loop body for a message taken from the queue returns: it
  never divides by a zero window and never waits for ever for an acknowledgement. It reports the
  message exactly once, closing sockets at most afterwards; when it reports success the link has
  taken the whole message as its last bytes (after an acknowledgement request where one was due),
  and when the connection is gone it reports that. It keeps the invariant: every congestion window
  stays between 10 and 80, and the table of acknowledgements stays unlocked with unique keys.\<close>

theorem br_send_reports_once:
  assumes "platform_ok p out" "world_ok w" "length (sb_data n) < fuel p"
  shows "\<exists>w' status evs. send_node p n w = Done (Some w') \<and> world_ok w' \<and> bw_log w' = bw_log w @ finished n status # evs \<and>
     closing_events evs \<and>
     (status = SOFTBUS_OK \<longrightarrow> evs = [] \<and> (\<exists>x. out (bw_link w') = out (bw_link w) @ x @ sb_data n)) \<and>
     ((\<nexists>c. c \<in> set (bw_conns w) \<and> bc_listed c \<and> bc_connectionId c = sb_connectionId n) \<longrightarrow>
        status = SOFTBUS_CONN_BR_CONNECTION_NOT_EXIST_ERR)"
  using send_node_total [OF assms] by (simp add: ret_call_def)

definition sample_br_node :: SendBrQueueNode where
  "sample_br_node = \<lparr>sb_connectionId = 0x20001, sb_pid = 9, sb_flag = 1, sb_isInner = False, sb_module = 13, sb_seq = 1, sb_data = [1, 2, 3]\<rparr>"

theorem br_send_reports_once_witness:
  "\<exists>w' status evs. send_node sample_platform sample_br_node (sample_world 1) = Done (Some w') \<and> world_ok w' \<and>
     bw_log w' = bw_log (sample_world 1) @ finished sample_br_node status # evs \<and> closing_events evs \<and>
     (status = SOFTBUS_OK \<longrightarrow> evs = [] \<and> (\<exists>x. bw_link w' = bw_link (sample_world 1) @ x @ sb_data sample_br_node)) \<and>
     ((\<nexists>c. c \<in> set (bw_conns (sample_world 1)) \<and> bc_listed c \<and> bc_connectionId c = sb_connectionId sample_br_node) \<longrightarrow>
        status = SOFTBUS_CONN_BR_CONNECTION_NOT_EXIST_ERR)"
  by (rule br_send_reports_once [OF sample_platform_ok sample_world_ok]) (simp add: sample_br_node_def sample_platform_def)

text \<open>C37. Giving up the last reference is negotiated between the two devices. When one side releases its
  last reference it moves to the negotiation state, starts its closing timer and queues a request.
  That packet, handed over on the peer, closes the connection if the peer holds no other reference;
  otherwise the peer keeps the connection and queues an answer with its count, and that packet,
  handed over on the first side, puts its connection back into service and removes the timer.\<close>

theorem br_release_negotiation:
  assumes l: "device_ok p out wl" "conn_by_id idl wl = Some cl" "bc_connectionRc cl = 1"
    and r: "device_ok q out' wr" "conn_by_id idr wr = Some cr" "bc_state cr = BR_CONNECTED"
      "int32 (bc_connectionRc cr)" "int32 (bc_connectionRc cr - 1)"
    and j: "json_carried p q (request_json (- 1) 0)" "json_carried q p (response_json (bc_connectionRc cr - 1))"
  shows "\<exists>wl1 m. ConnBrUpdateConnectionRc p (bc_addr cl) (- 1) wl = Done (Some (SOFTBUS_OK, wl1)) \<and>
     conn_by_id idl wl1 = Some (cl\<lparr>bc_connectionRc := 0, bc_state := BR_NEGOTIATION_CLOSING\<rparr>) \<and>
     bw_timers wl1 = bw_timers wl @ [conn_timer MSG_NEGOTIATION_CLOSING_TIMEOUT idl 3000] \<and>
     queued CONN_LOW m wl wl1 \<and>
     (\<exists>wr1. DataReceived q idr (sb_data m) wr = Done (Some wr1) \<and>
       (if bc_connectionRc cr \<le> 1
        then conn_at (bc_addr cr) wr1 = Some (cr\<lparr>bc_connectionRc := bc_connectionRc cr - 1, bc_socketHandle := INVALID_SOCKET_HANDLE, bc_state := BR_CLOSED\<rparr>)
        else conn_at (bc_addr cr) wr1 = Some (cr\<lparr>bc_connectionRc := bc_connectionRc cr - 1\<rparr>) \<and>
          (\<exists>m'. queued CONN_HIGH m' wr wr1 \<and>
            (\<exists>wl2. DataReceived p idl (sb_data m') wl1 = Done (Some wl2) \<and>
               conn_at (bc_addr cl) wl2 = Some (cl\<lparr>bc_connectionRc := 0, bc_state := BR_CONNECTED\<rparr>) \<and>
               (\<forall>t\<in>set (bw_timers wl2). \<not> (tm_what t = MSG_NEGOTIATION_CLOSING_TIMEOUT \<and> tm_arg1 t = ucast idl))))))"
proof -
  obtain wl1 m where m: "ConnBrUpdateConnectionRc p (bc_addr cl) (- 1) wl = ret_call (SOFTBUS_OK, wl1)" "world_ok wl1"
    "conn_by_id idl wl1 = Some (cl\<lparr>bc_connectionRc := 0, bc_state := BR_NEGOTIATION_CLOSING\<rparr>)"
    "bw_timers wl1 = bw_timers wl @ [conn_timer MSG_NEGOTIATION_CLOSING_TIMEOUT idl 3000]"
    "queued CONN_LOW m wl wl1" "carries q (sb_data m) (request_json (- 1) 0)"
    using release_last [OF l j(1)] by blast
  have "\<exists>wr1. DataReceived q idr (sb_data m) wr = ret_call wr1 \<and>
       (if bc_connectionRc cr \<le> 1
        then conn_at (bc_addr cr) wr1 = Some (cr\<lparr>bc_connectionRc := bc_connectionRc cr - 1, bc_socketHandle := INVALID_SOCKET_HANDLE, bc_state := BR_CLOSED\<rparr>)
        else conn_at (bc_addr cr) wr1 = Some (cr\<lparr>bc_connectionRc := bc_connectionRc cr - 1\<rparr>) \<and>
          (\<exists>m'. queued CONN_HIGH m' wr wr1 \<and>
            (\<exists>wl2. DataReceived p idl (sb_data m') wl1 = ret_call wl2 \<and>
               conn_at (bc_addr cl) wl2 = Some (cl\<lparr>bc_connectionRc := 0, bc_state := BR_CONNECTED\<rparr>) \<and>
               (\<forall>t\<in>set (bw_timers wl2). \<not> (tm_what t = MSG_NEGOTIATION_CLOSING_TIMEOUT \<and> tm_arg1 t = ucast idl)))))"
  proof (cases "bc_connectionRc cr \<le> 1")
    case True
    then show ?thesis using request_closes [OF r(1-3) True r(5) m(6)] by auto
  next
    case False
    obtain wr1 m' where a: "DataReceived q idr (sb_data m) wr = ret_call wr1"
      "conn_at (bc_addr cr) wr1 = Some (cr\<lparr>bc_connectionRc := bc_connectionRc cr - 1\<rparr>)" "queued CONN_HIGH m' wr wr1"
      "carries p (sb_data m') (response_json (bc_connectionRc cr - 1))"
      using request_replies [OF r(1-3) _ r(4) m(6) j(2)] False by auto
    have base: "platform_ok p out \<and> host_le p \<and> world_ok wl1" using l(1) m(2) by (simp add: device_ok_def)
    obtain wl2 where "DataReceived p idl (sb_data m') wl1 = ret_call wl2"
      "conn_at (bc_addr cl) wl2 = Some (cl\<lparr>bc_connectionRc := 0, bc_state := BR_CONNECTED\<rparr>)"
      "\<forall>t\<in>set (bw_timers wl2). \<not> (tm_what t = MSG_NEGOTIATION_CLOSING_TIMEOUT \<and> tm_arg1 t = ucast idl)"
      using response_resumes [OF base m(3) _ _ a(4)] False by auto
    then show ?thesis using False a by auto
  qed
  then show ?thesis using m unfolding ret_call_def by blast
qed

theorem br_release_negotiation_witness:
  "\<exists>wl1. \<exists>m :: SendBrQueueNode. ConnBrUpdateConnectionRc sample_platform (bc_addr (sample_conn 1)) (- 1) (sample_world 1) = Done (Some (SOFTBUS_OK, wl1)) \<and>
     conn_by_id 0x20001 wl1 = Some ((sample_conn 1)\<lparr>bc_connectionRc := 0, bc_state := BR_NEGOTIATION_CLOSING\<rparr>) \<and>
     (\<exists>wr1. DataReceived sample_platform 0x20001 (sb_data m) (sample_world 3) = Done (Some wr1) \<and>
       conn_at (bc_addr (sample_conn 3)) wr1 = Some ((sample_conn 3)\<lparr>bc_connectionRc := 2\<rparr>) \<and>
       (\<exists>m' :: SendBrQueueNode. \<exists>wl2. DataReceived sample_platform 0x20001 (sb_data m') wl1 = Done (Some wl2) \<and>
          conn_at (bc_addr (sample_conn 1)) wl2 = Some ((sample_conn 1)\<lparr>bc_connectionRc := 0, bc_state := BR_CONNECTED\<rparr>)))"
proof -
  have c: "conn_by_id 0x20001 (sample_world rc) = Some (sample_conn rc)" for rc
    by (simp add: conn_by_id_def sample_world_def sample_conn_def)
  have rc: "bc_connectionRc (sample_conn 1) = 1" "bc_connectionRc (sample_conn 3) - 1 = 2" "\<not> bc_connectionRc (sample_conn 3) \<le> 1"
    "bc_state (sample_conn 3) = BR_CONNECTED" "int32 (bc_connectionRc (sample_conn 3))" "int32 (bc_connectionRc (sample_conn 3) - 1)"
    by (simp_all add: sample_conn_def int32_def)
  have j: "json_carried sample_platform sample_platform (response_json (bc_connectionRc (sample_conn 3) - 1))"
    unfolding rc(2) by (rule sample_json_carried(2))
  from br_release_negotiation [OF sample_device_ok c rc(1) sample_device_ok c rc(4-6) sample_json_carried(1) j,
      unfolded rc(2) if_not_P [OF rc(3)]]
  show ?thesis by blast
qed

text \<open>C38. Saving a connection ends and gives it an identifier no other connection of the table has, as
  long as fewer than 65536 connections are in the table: the search for a free identifier tries at
  most one more than there are connections, and the identifier is never 0.\<close>

theorem br_connection_id_fresh:
  assumes "healthy e" "conn_at a w = Some c" "card (listed_ids w) < n" "n \<le> 65536"
  shows "\<exists>cid w'. ConnBrSaveConnection e n (Some a) w = Done (Some (SOFTBUS_OK, w')) \<and>
     cid \<noteq> 0 \<and> cid \<notin> listed_ids w \<and> conn_at a w' = Some (c\<lparr>bc_connectionId := cid, bc_objectRc := bc_objectRc c + 1, bc_listed := True\<rparr>) \<and>
     (\<forall>b. b \<noteq> a \<longrightarrow> conn_at b w' = conn_at b w)"
proof -
  obtain cid w1 where l: "allocate_loop n w = Some (cid, w1)" using allocate_terminates [OF assms(3,4)] by blast
  obtain i where i: "cid \<noteq> 0" "cid \<notin> listed_ids w" "w1 = w\<lparr>bw_nextId := i\<rparr>" using allocate_loop_Some [OF l] by blast
  have at: "conn_at a w1 = Some c" "bc_addr c = a" using assms(2) i(3) by (auto simp: conn_at_def find_Some_iff)
  define c' where "c' = c\<lparr>bc_connectionId := cid, bc_objectRc := bc_objectRc c + 1, bc_listed := True\<rparr>"
  define w' where "w' = w1\<lparr>bw_conns := c' # filter (\<lambda>c. bc_addr c \<noteq> a) (bw_conns w1)\<rparr>"
  have "find (\<lambda>c. bc_addr c = b) (filter (\<lambda>c. bc_addr c \<noteq> a) cs) = find (\<lambda>c. bc_addr c = b) cs" if "b \<noteq> a" for b and cs :: "ConnBrConnection list"
    using that by (induction cs) auto
  then have "\<forall>b. b \<noteq> a \<longrightarrow> conn_at b w' = conn_at b w" "conn_at a w' = Some c'"
    using at(2) i(3) by (simp_all add: conn_at_def w'_def c'_def)
  moreover have "ConnBrSaveConnection e n (Some a) w = Done (Some (SOFTBUS_OK, w'))"
    using assms(1) l at by (simp add: ConnBrSaveConnection_def ret_call_def w'_def c'_def)
  ultimately show ?thesis using i by (auto simp: c'_def)
qed

theorem br_connection_id_fresh_witness:
  "\<exists>cid w'. ConnBrSaveConnection ideal_env 2 (Some 0) (sample_world 1) = Done (Some (SOFTBUS_OK, w')) \<and>
     cid \<noteq> 0 \<and> cid \<notin> listed_ids (sample_world 1) \<and>
     conn_at 0 w' = Some ((sample_conn 1)\<lparr>bc_connectionId := cid, bc_objectRc := bc_objectRc (sample_conn 1) + 1, bc_listed := True\<rparr>) \<and>
     (\<forall>b. b \<noteq> 0 \<longrightarrow> conn_at b w' = conn_at b (sample_world 1))"
proof (rule br_connection_id_fresh [OF healthy_ideal_env])
  show "conn_at 0 (sample_world 1) = Some (sample_conn 1)" by (simp add: conn_at_def sample_world_def sample_conn_def)
  have b: "bw_conns (sample_world 1) = [sample_conn 1]" by (simp add: sample_world_def)
  have "listed_ids (sample_world 1) \<subseteq> {bc_connectionId (sample_conn 1)}" unfolding listed_ids_def b by auto
  then have "card (listed_ids (sample_world 1)) \<le> card {bc_connectionId (sample_conn 1)}" by (rule card_mono [rotated]) simp
  then show "card (listed_ids (sample_world 1)) < 2" by simp
qed simp

text \<open>Posting refuses what it cannot send, with the status of the first reason that applies and
  without touching the module's state: no data or a length of 0 or above 40000, no connection of
  that identifier, or a connection that is not in service (except for the module's own control
  messages).\<close>

theorem br_post_rejects:
  assumes "platform_ok p out" "world_ok w"
  shows "ConnBrPostBytes p k cid None pid flag module seq w = Done (Some (SOFTBUS_INVALID_PARAM, w)) \<and>
    ((length d = 0 \<or> MAX_DATA_LEN < length d) \<longrightarrow>
       ConnBrPostBytes p k cid (Some d) pid flag module seq w = Done (Some (SOFTBUS_INVALID_PARAM, w))) \<and>
    (0 < length d \<and> length d \<le> MAX_DATA_LEN \<and> conn_by_id cid w = None \<longrightarrow>
       ConnBrPostBytes p k cid (Some d) pid flag module seq w = Done (Some (SOFTBUS_CONN_BR_CONNECTION_NOT_EXIST_ERR, w))) \<and>
    (\<forall>c. 0 < length d \<and> length d \<le> MAX_DATA_LEN \<and> conn_by_id cid w = Some c \<and> bc_state c \<noteq> BR_CONNECTED \<and> module \<noteq> MODULE_CONNECTION \<longrightarrow>
       ConnBrPostBytes p k cid (Some d) pid flag module seq w = Done (Some (SOFTBUS_CONN_BR_CONNECTION_NOT_READY_ERR, w)))"
proof -
  have h: "healthy (es p i)" for i using assms by simp
  have "ConnBrPostBytes p k cid (Some d) pid flag module seq w = Done (Some (SOFTBUS_CONN_BR_CONNECTION_NOT_EXIST_ERR, w))"
    if "0 < length d" "length d \<le> MAX_DATA_LEN" "conn_by_id cid w = None"
    using that by (simp add: ConnBrPostBytes_def ConnBrGetConnectionById_def conn_by_id_def h ret_call_def)
  moreover have "ConnBrPostBytes p k cid (Some d) pid flag module seq w = Done (Some (SOFTBUS_CONN_BR_CONNECTION_NOT_READY_ERR, w))"
    if "0 < length d" "length d \<le> MAX_DATA_LEN" "conn_by_id cid w = Some c" "bc_state c \<noteq> BR_CONNECTED" "module \<noteq> MODULE_CONNECTION" for c
    using that get_return [OF assms(2) h [of k] h [of "k + 2"] that(3)] h by (simp add: ConnBrPostBytes_def ret_call_def)
  ultimately show ?thesis by (auto simp: ConnBrPostBytes_def ret_call_def)
qed

theorem br_post_rejects_witness:
  "ConnBrPostBytes sample_platform 0 7 None 1 1 13 0 (sample_world 1) = Done (Some (SOFTBUS_INVALID_PARAM, sample_world 1)) \<and>
   ConnBrPostBytes sample_platform 0 7 (Some [1]) 1 1 13 0 (sample_world 1) =
     Done (Some (SOFTBUS_CONN_BR_CONNECTION_NOT_EXIST_ERR, sample_world 1))"
  using br_post_rejects [OF sample_platform_ok sample_world_ok, of 0 7 1 1 13 0 1 "[1]"]
  by (simp add: conn_by_id_def sample_world_def sample_conn_def)

text \<open>The peer's count is not checked: a reference request with a delta that takes the local count
  out of the range of a 32-bit integer is added all the same, which is undefined in C.\<close>

theorem br_reference_overflow:
  assumes "healthy (es p 0)" "conn_at a w = Some c" "get_signed json ''KEY_DELTA'' = Some delta"
    "get_signed json ''KEY_REFERENCE_NUM'' = Some peerRc" "\<not> int32 (bc_connectionRc c + delta)"
  shows "ConnBrOnReferenceRequest p a json w = Undef"
  using assms by (simp add: ConnBrOnReferenceRequest_def)

theorem br_reference_overflow_witness:
  "ConnBrOnReferenceRequest sample_platform 0 [(''KEY_DELTA'', 2147483647), (''KEY_REFERENCE_NUM'', 1)] (sample_world 1) = Undef"
  by (rule br_reference_overflow [of _ _ _ "sample_conn 1" _ 2147483647 1])
    (simp_all add: sample_platform_def get_signed_def conn_at_def sample_world_def sample_conn_def int32_def)

end
