(* ===== verification/Looper.thy ===== *)
theory Looper
  imports Softbus_Prelude "HOL-Library.Multiset" "HOL-Library.Signed_Division"
begin

text \<open>
  The message loop, \<^verbatim>\<open>core/common/message_handler/message_handler.c\<close>: a looper holds messages
  ordered by the time they are due, a thread takes them out and calls their handlers. All access
  is under the looper's lock, so each locked section is one function on the looper context; the
  clock reading of \<^verbatim>\<open>SoftBusGetTime\<close> is an argument. The list of messages is the list of their
  nodes. Functions that free messages return them. Log output is left out.
\<close>

subsection \<open>State\<close>

record ('h, 'o) SoftBusMessage =
  ms_what :: int
  ms_arg1 :: u64
  ms_arg2 :: u64
  ms_time :: int
  ms_obj :: 'o
  ms_handler :: "'h option"

record ('h, 'o) looper =
  lp_msgs :: "('h, 'o) SoftBusMessage list"
  lp_stop :: bool
  lp_running :: bool
  lp_current :: "('h, 'o) SoftBusMessage option"
  lp_msgSize :: u32

abbreviation (input) SIZEOF_MESSAGE_NODE :: nat where "SIZEOF_MESSAGE_NODE \<equiv> 24"

subsection \<open>Posting\<close>

definition int64 :: "int \<Rightarrow> bool" where
  "int64 i \<longleftrightarrow> - 9223372036854775808 \<le> i \<and> i \<le> 9223372036854775807"

definition UptimeMicros :: "int \<times> int \<Rightarrow> int outcome" where
  "UptimeMicros t =
     (if int64 (fst t * 1000) \<and> int64 (fst t * 1000 * 1000) \<and> int64 (fst t * 1000 * 1000 + snd t)
      then Done (fst t * 1000 * 1000 + snd t) else Undef)"

definition PostMessageAtTimeParamVerify :: "('h, 'o) looper option \<Rightarrow> ('h, 'o) SoftBusMessage option \<Rightarrow> status" where
  "PostMessageAtTimeParamVerify lp msgPost =
     (case msgPost of
        None \<Rightarrow> SOFTBUS_INVALID_PARAM
      | Some m \<Rightarrow>
          (case lp of
             None \<Rightarrow> SOFTBUS_INVALID_PARAM
           | Some l \<Rightarrow> if ms_handler m = None then SOFTBUS_ERR else SOFTBUS_OK))"

text \<open>A message goes before the first one that is due later.\<close>

fun insert_msg :: "('h, 'o) SoftBusMessage \<Rightarrow> ('h, 'o) SoftBusMessage list \<Rightarrow> ('h, 'o) SoftBusMessage list" where
  "insert_msg m [] = [m]"
| "insert_msg m (x # xs) = (if ms_time x > ms_time m then m # x # xs else x # insert_msg m xs)"

text \<open>The looper after the call and the messages freed; freeing a null message is undefined.\<close>

definition PostMessageAtTime ::
  "env \<Rightarrow> ('h, 'o) SoftBusMessage option \<Rightarrow> ('h, 'o) looper option \<Rightarrow> (('h, 'o) looper option \<times> ('h, 'o) SoftBusMessage list) outcome" where
  "PostMessageAtTime e msgPost lp =
     (if PostMessageAtTimeParamVerify lp msgPost \<noteq> SOFTBUS_OK then
        (case msgPost of None \<Rightarrow> Undef | Some m \<Rightarrow> Done (lp, [m]))
      else case (lp, msgPost) of
        (Some l, Some m) \<Rightarrow>
          if \<not> SoftBusCalloc e 0 SIZEOF_MESSAGE_NODE then Done (lp, [m])
          else if \<not> lock_ok e 0 then Done (lp, [m])
          else if lp_stop l then Done (lp, [m])
          else Done (Some (l\<lparr>lp_msgs := insert_msg m (lp_msgs l), lp_msgSize := lp_msgSize l + 1\<rparr>), [])
      | _ \<Rightarrow> Undef)"

definition LooperPostMessage ::
  "env \<Rightarrow> int \<times> int \<Rightarrow> ('h, 'o) SoftBusMessage option \<Rightarrow> ('h, 'o) looper option \<Rightarrow> (('h, 'o) looper option \<times> ('h, 'o) SoftBusMessage list) outcome" where
  "LooperPostMessage e t msg lp =
     (case msg of
        None \<Rightarrow> Done (lp, [])
      | Some m \<Rightarrow>
          if lp = None then Done (lp, [])
          else bind_outcome (UptimeMicros t) (\<lambda>now. PostMessageAtTime e (Some (m\<lparr>ms_time := now\<rparr>)) lp))"

definition LooperPostMessageDelay ::
  "env \<Rightarrow> int \<times> int \<Rightarrow> u64 \<Rightarrow> ('h, 'o) SoftBusMessage option \<Rightarrow> ('h, 'o) looper option \<Rightarrow> (('h, 'o) looper option \<times> ('h, 'o) SoftBusMessage list) outcome" where
  "LooperPostMessageDelay e t delayMillis msg lp =
     (case msg of
        None \<Rightarrow> Done (lp, [])
      | Some m \<Rightarrow>
          if lp = None then Done (lp, [])
          else bind_outcome (UptimeMicros t) (\<lambda>now.
            if \<not> int64 (sint delayMillis * 1000) \<or> \<not> int64 (now + sint delayMillis * 1000) then Undef
            else PostMessageAtTime e (Some (m\<lparr>ms_time := now + sint delayMillis * 1000\<rparr>)) lp))"

subsection \<open>Removing\<close>

definition WhatRemoveFunc :: "int \<Rightarrow> ('h, 'o) SoftBusMessage \<Rightarrow> int" where
  "WhatRemoveFunc what msg = (if ms_what msg = what then 0 else 1)"

text \<open>The walk over the list: what stays, what is freed, and the count.\<close>

fun remove_loop ::
  "'h option \<Rightarrow> (('h, 'o) SoftBusMessage \<Rightarrow> int) \<Rightarrow> ('h, 'o) SoftBusMessage list \<Rightarrow> u32 \<Rightarrow>
     ('h, 'o) SoftBusMessage list \<times> ('h, 'o) SoftBusMessage list \<times> u32" where
  "remove_loop h f [] n = ([], [], n)"
| "remove_loop h f (m # ms) n =
     (if ms_handler m = h \<and> f m = 0
      then let (keep, freed, n) = remove_loop h f ms (n - 1) in (keep, m # freed, n)
      else let (keep, freed, n) = remove_loop h f ms n in (m # keep, freed, n))"

definition LoopRemoveMessageCustom ::
  "env \<Rightarrow> 'h option \<Rightarrow> (('h, 'o) SoftBusMessage \<Rightarrow> int) \<Rightarrow> ('h, 'o) looper \<Rightarrow> ('h, 'o) looper \<times> ('h, 'o) SoftBusMessage list" where
  "LoopRemoveMessageCustom e h customFunc l =
     (if \<not> lock_ok e 0 then (l, [])
      else if \<not> lp_running l \<or> lp_stop l then (l, [])
      else let (keep, freed, n) = remove_loop h customFunc (lp_msgs l) (lp_msgSize l)
        in (l\<lparr>lp_msgs := keep, lp_msgSize := n\<rparr>, freed))"

definition LooperRemoveMessage ::
  "env \<Rightarrow> 'h option \<Rightarrow> int \<Rightarrow> ('h, 'o) looper \<Rightarrow> ('h, 'o) looper \<times> ('h, 'o) SoftBusMessage list" where
  "LooperRemoveMessage e h what l = LoopRemoveMessageCustom e h (WhatRemoveFunc what) l"

subsection \<open>The loop thread\<close>

text \<open>
  What a turn of \<^verbatim>\<open>LoopTask\<close> does: it leaves (\<open>Stopped\<close>; \<open>Dead\<close> when the lock fails, without
  saying so), it waits for a message or until the first one is due, or it takes the first message
  out and handles it.
\<close>

datatype 'm turn = Dead | Stopped | WaitEmpty | WaitUntil int int | Handle 'm

definition LoopTask_turn ::
  "env \<Rightarrow> bool \<Rightarrow> int \<times> int \<Rightarrow> ('h, 'o) looper \<Rightarrow> (('h, 'o) SoftBusMessage turn \<times> ('h, 'o) looper) outcome" where
  "LoopTask_turn e isNeedDestroy t l =
     (if \<not> lock_ok e 0 then Done (Dead, l)
      else if lp_stop l then Done (Stopped, l)
      else if isNeedDestroy then Done (Stopped, l)
      else case lp_msgs l of
        [] \<Rightarrow> Done (WaitEmpty, l)
      | m # ms \<Rightarrow> bind_outcome (UptimeMicros t) (\<lambda>now.
          if now \<ge> ms_time m
          then Done (Handle m, l\<lparr>lp_msgs := ms, lp_msgSize := lp_msgSize l - 1, lp_current := Some m\<rparr>)
          else Done (WaitUntil (ms_time m sdiv 1000 sdiv 1000) (ms_time m smod (1000 * 1000)), l)))"

text \<open>The end of a turn that handled a message, and the start and the end of the thread.\<close>

definition LoopTask_done :: "('h, 'o) looper \<Rightarrow> ('h, 'o) looper" where
  "LoopTask_done l = l\<lparr>lp_current := None\<rparr>"

definition LoopTask_start :: "env \<Rightarrow> ('h, 'o) looper \<Rightarrow> ('h, 'o) looper option" where
  "LoopTask_start e l = (if \<not> lock_ok e 0 then None else Some (l\<lparr>lp_running := True\<rparr>))"

definition LoopTask_leave :: "('h, 'o) looper \<Rightarrow> ('h, 'o) looper" where
  "LoopTask_leave l = l\<lparr>lp_running := False\<rparr>"

definition new_looper :: "('h, 'o) looper" where
  "new_looper = \<lparr>lp_msgs = [], lp_stop = False, lp_running = False, lp_current = None, lp_msgSize = 0\<rparr>"

subsection \<open>Loopers and their threads\<close>

text \<open>
  A looper and its context are one object, at an address; \<open>None\<close> when it is not allocated. Each
  has a thread in \<^verbatim>\<open>LoopTask\<close>: not yet run, between two turns, in the handler of a message, after
  the loop, or over. What follows the loop when \<^verbatim>\<open>g_isNeedDestroy\<close> is set, a call of
  \<^verbatim>\<open>LooperDeinit\<close>, is a call made by that thread like any other call of it.
\<close>

datatype ('h, 'o) thread_pc = NotStarted | Looping | Handling "('h, 'o) SoftBusMessage" | Leaving | Over

record ('h, 'o) looper_world =
  lw_ctx :: "nat \<Rightarrow> ('h, 'o) looper option"
  lw_pc :: "nat \<Rightarrow> ('h, 'o) thread_pc"
  lw_looperCnt :: u32
  lw_isThreadStarted :: bool
  lw_isNeedDestroy :: bool
  lw_loopConfig :: "(int \<times> nat option) list"

abbreviation (input) SIZEOF_LOOPER :: nat where "SIZEOF_LOOPER \<equiv> 48"
abbreviation (input) SIZEOF_LOOPER_CONTEXT :: nat where "SIZEOF_LOOPER_CONTEXT \<equiv> 88"
abbreviation (input) LOOP_NAME_LEN :: nat where "LOOP_NAME_LEN \<equiv> 16"
abbreviation (input) MAX_LOOPER_CNT :: u32 where "MAX_LOOPER_CNT \<equiv> 30"
abbreviation (input) LOOP_TYPE_DEFAULT :: int where "LOOP_TYPE_DEFAULT \<equiv> 1"
abbreviation (input) LOOP_TYPE_HANDLE_FILE :: int where "LOOP_TYPE_HANDLE_FILE \<equiv> 6"

definition put_ctx :: "nat \<Rightarrow> ('h, 'o) looper option \<Rightarrow> ('h, 'o) looper_world \<Rightarrow> ('h, 'o) looper_world" where
  "put_ctx a l w = w\<lparr>lw_ctx := (lw_ctx w)(a := l)\<rparr>"

definition put_pc :: "nat \<Rightarrow> ('h, 'o) thread_pc \<Rightarrow> ('h, 'o) looper_world \<Rightarrow> ('h, 'o) looper_world" where
  "put_pc a pc w = w\<lparr>lw_pc := (lw_pc w)(a := pc)\<rparr>"

text \<open>One locked section of the thread of the looper at an address.\<close>

definition LoopTask_step :: "env \<Rightarrow> int \<times> int \<Rightarrow> nat \<Rightarrow> ('h, 'o) looper_world \<Rightarrow> ('h, 'o) looper_world outcome" where
  "LoopTask_step e t a w =
     (if lw_pc w a = Over then Done w
      else case lw_ctx w a of
        None \<Rightarrow> Undef
      | Some l \<Rightarrow>
          (case lw_pc w a of
             NotStarted \<Rightarrow>
               (case LoopTask_start e l of
                  None \<Rightarrow> Done (put_pc a Over w)
                | Some l \<Rightarrow> Done (put_pc a Looping (put_ctx a (Some l) w)\<lparr>lw_isThreadStarted := True\<rparr>))
           | Looping \<Rightarrow>
               bind_outcome (LoopTask_turn e (lw_isNeedDestroy w) t l) (\<lambda>(r, l).
                 Done (put_pc a (case r of Dead \<Rightarrow> Over | Stopped \<Rightarrow> Leaving | Handle m \<Rightarrow> Handling m | _ \<Rightarrow> Looping)
                   (put_ctx a (Some l) w)))
           | Handling m \<Rightarrow> Done (put_pc a Looping (put_ctx a (Some (LoopTask_done l)) w))
           | Leaving \<Rightarrow> Done (put_pc a Over (put_ctx a (Some (LoopTask_leave l)) w))
           | Over \<Rightarrow> Done w))"

subsection \<open>Creating, finding and destroying loopers\<close>

text \<open>The address is the one the allocator gives; \<open>thread_ok\<close> is the result of starting the thread.\<close>

definition StartNewLooperThread :: "bool \<Rightarrow> nat \<Rightarrow> ('h, 'o) looper_world \<Rightarrow> int \<times> ('h, 'o) looper_world" where
  "StartNewLooperThread thread_ok a w = (if \<not> thread_ok then (- 1, w) else (0, put_pc a NotStarted w))"

definition CreateNewLooper ::
  "env \<Rightarrow> bool \<Rightarrow> nat \<Rightarrow> string \<Rightarrow> ('h, 'o) looper_world \<Rightarrow> nat option \<times> ('h, 'o) looper_world" where
  "CreateNewLooper e thread_ok a name w =
     (if lw_looperCnt w \<ge> MAX_LOOPER_CNT then (None, w)
      else if \<not> SoftBusCalloc e 0 SIZEOF_LOOPER then (None, w)
      else if \<not> SoftBusCalloc e 1 SIZEOF_LOOPER_CONTEXT then (None, w)
      else if \<not> memcpy_ok e LOOP_NAME_LEN (length name) then (None, w)
      else let (ret, w') = StartNewLooperThread thread_ok a (put_ctx a (Some new_looper) w)
        in if ret \<noteq> 0 then (None, w)
        else (Some a, w'\<lparr>lw_looperCnt := lw_looperCnt w' + 1\<rparr>))"

definition g_loopConfig :: "(int \<times> nat option) list" where
  "g_loopConfig = [(1, None), (2, None), (3, None), (4, None), (5, None), (6, None)]"

fun GetLooper :: "int \<Rightarrow> (int \<times> nat option) list \<Rightarrow> nat option" where
  "GetLooper type [] = None"
| "GetLooper type ((ty, a) # cs) = (if ty = type then a else GetLooper type cs)"

definition SetLooper :: "int \<Rightarrow> nat option \<Rightarrow> (int \<times> nat option) list \<Rightarrow> (int \<times> nat option) list" where
  "SetLooper type a cs = map (\<lambda>(ty, b). if ty = type then (ty, a) else (ty, b)) cs"

fun ReleaseLooper :: "nat \<Rightarrow> (int \<times> nat option) list \<Rightarrow> (int \<times> nat option) list" where
  "ReleaseLooper a [] = []"
| "ReleaseLooper a ((ty, b) # cs) = (if b = Some a then (ty, None) # cs else (ty, b) # ReleaseLooper a cs)"

text \<open>
  \<open>DestroyLooper_stop\<close> is the first locked section. \<open>DestroyLooper_poll\<close> is a pass of the loop that
  follows: \<open>None\<close> when it has to wait, otherwise everything is freed.
\<close>

definition DestroyLooper_stop :: "nat \<Rightarrow> ('h, 'o) looper_world \<Rightarrow> ('h, 'o) looper_world outcome" where
  "DestroyLooper_stop a w =
     (case lw_ctx w a of None \<Rightarrow> Undef | Some l \<Rightarrow> Done (put_ctx a (Some (l\<lparr>lp_stop := True\<rparr>)) w))"

definition DestroyLooper_poll ::
  "nat \<Rightarrow> ('h, 'o) looper_world \<Rightarrow> (('h, 'o) looper_world \<times> ('h, 'o) SoftBusMessage list) option outcome" where
  "DestroyLooper_poll a w =
     (case lw_ctx w a of
        None \<Rightarrow> Undef
      | Some l \<Rightarrow>
          if lp_running l then Done None
          else ret_call ((put_ctx a None w)\<lparr>lw_loopConfig := ReleaseLooper a (lw_loopConfig w),
            lw_looperCnt := (if lw_looperCnt w \<noteq> 0 then lw_looperCnt w - 1 else lw_looperCnt w)\<rparr>, lp_msgs l))"

text \<open>\<open>others k\<close> is what the other threads do during the \<open>k\<close>-th wait.\<close>

fun destroy_wait ::
  "(nat \<Rightarrow> ('h, 'o) looper_world \<Rightarrow> ('h, 'o) looper_world outcome) \<Rightarrow> nat \<Rightarrow> nat \<Rightarrow> nat \<Rightarrow> ('h, 'o) looper_world \<Rightarrow>
     (('h, 'o) looper_world \<times> ('h, 'o) SoftBusMessage list) option outcome" where
  "destroy_wait others k 0 a w = Done None"
| "destroy_wait others k (Suc fuel) a w =
     bind_outcome (DestroyLooper_poll a w) (\<lambda>r.
       case r of Some x \<Rightarrow> ret_call x
       | None \<Rightarrow> bind_outcome (others k w) (\<lambda>w. destroy_wait others (Suc k) fuel a w))"

definition DestroyLooper ::
  "(nat \<Rightarrow> ('h, 'o) looper_world \<Rightarrow> ('h, 'o) looper_world outcome) \<Rightarrow> nat \<Rightarrow> nat option \<Rightarrow> ('h, 'o) looper_world \<Rightarrow>
     (('h, 'o) looper_world \<times> ('h, 'o) SoftBusMessage list) option outcome" where
  "DestroyLooper others fuel looper w =
     (case looper of
        None \<Rightarrow> ret_call (w, [])
      | Some a \<Rightarrow> bind_outcome (DestroyLooper_stop a w) (\<lambda>w. destroy_wait others 0 fuel a w))"

definition LooperInit ::
  "(nat \<Rightarrow> env) \<Rightarrow> (nat \<Rightarrow> bool) \<Rightarrow> (nat \<Rightarrow> nat) \<Rightarrow> ('h, 'o) looper_world \<Rightarrow> status \<times> ('h, 'o) looper_world" where
  "LooperInit es thread_ok addr w =
     (case CreateNewLooper (es 0) (thread_ok 0) (addr 0) ''BusCenter'' w of
        (None, w) \<Rightarrow> (SOFTBUS_ERR, w)
      | (Some a, w) \<Rightarrow>
          let w = w\<lparr>lw_loopConfig := SetLooper LOOP_TYPE_DEFAULT (Some a) (lw_loopConfig w)\<rparr>
          in case CreateNewLooper (es 1) (thread_ok 1) (addr 1) ''HandleFile'' w of
            (None, w) \<Rightarrow> (SOFTBUS_ERR, w)
          | (Some b, w) \<Rightarrow> (SOFTBUS_OK, w\<lparr>lw_loopConfig := SetLooper LOOP_TYPE_HANDLE_FILE (Some b) (lw_loopConfig w)\<rparr>))"

fun deinit_loop ::
  "(nat \<Rightarrow> ('h, 'o) looper_world \<Rightarrow> ('h, 'o) looper_world outcome) \<Rightarrow> nat \<Rightarrow> nat list \<Rightarrow> ('h, 'o) looper_world \<Rightarrow>
     ('h, 'o) looper_world option outcome" where
  "deinit_loop others fuel [] w = ret_call w"
| "deinit_loop others fuel (i # is) w =
     (case snd (lw_loopConfig w ! i) of
        None \<Rightarrow> deinit_loop others fuel is w
      | Some a \<Rightarrow>
          if lw_ctx w a = None then Undef
          else if \<not> lw_isThreadStarted w then ret_call (w\<lparr>lw_isNeedDestroy := True\<rparr>)
          else seq_call (DestroyLooper others fuel (Some a) w) (\<lambda>(w, freed). deinit_loop others fuel is w))"

definition LooperDeinit ::
  "(nat \<Rightarrow> ('h, 'o) looper_world \<Rightarrow> ('h, 'o) looper_world outcome) \<Rightarrow> nat \<Rightarrow> ('h, 'o) looper_world \<Rightarrow> ('h, 'o) looper_world option outcome" where
  "LooperDeinit others fuel w = deinit_loop others fuel [0..<length (lw_loopConfig w)] w"

subsection \<open>Histories of one looper\<close>

text \<open>
  A history is a sequence of calls, each with its environment and clock reading: posts and removals
  by any thread (handlers included) and turns of the loop thread. The state carries what was
  handled, with the clock reading, and what was freed without being handled.
\<close>

definition clock :: "int \<times> int \<Rightarrow> int" where
  "clock t = fst t * 1000 * 1000 + snd t"

datatype ('h, 'o) call =
  Post "('h, 'o) SoftBusMessage" u64
  | Remove "'h option" "('h, 'o) SoftBusMessage \<Rightarrow> int"
  | Turn

record ('h, 'o) history =
  hs_looper :: "('h, 'o) looper"
  hs_handled :: "(int \<times> ('h, 'o) SoftBusMessage) list"
  hs_dropped :: "('h, 'o) SoftBusMessage list"

definition looper_call :: "env \<Rightarrow> int \<times> int \<Rightarrow> ('h, 'o) call \<Rightarrow> ('h, 'o) history \<Rightarrow> ('h, 'o) history outcome" where
  "looper_call e t c s =
     (case c of
        Post m d \<Rightarrow>
          bind_outcome (LooperPostMessageDelay e t d (Some m) (Some (hs_looper s))) (\<lambda>(lp, freed).
            Done (s\<lparr>hs_looper := the lp, hs_dropped := hs_dropped s @ freed\<rparr>))
      | Remove h f \<Rightarrow>
          (let (l, freed) = LoopRemoveMessageCustom e h f (hs_looper s)
           in Done (s\<lparr>hs_looper := l, hs_dropped := hs_dropped s @ freed\<rparr>))
      | Turn \<Rightarrow>
          bind_outcome (LoopTask_turn e False t (hs_looper s)) (\<lambda>(r, l).
            case r of
              Handle m \<Rightarrow> Done (s\<lparr>hs_looper := LoopTask_done l, hs_handled := hs_handled s @ [(clock t, m)]\<rparr>)
            | _ \<Rightarrow> Done (s\<lparr>hs_looper := l\<rparr>)))"

fun looper_run :: "(env \<times> (int \<times> int) \<times> ('h, 'o) call) list \<Rightarrow> ('h, 'o) history \<Rightarrow> ('h, 'o) history outcome" where
  "looper_run [] s = Done s"
| "looper_run ((e, t, c) # cs) s = bind_outcome (looper_call e t c s) (looper_run cs)"

subsection \<open>Clock readings\<close>

definition clock_ok :: "int \<times> int \<Rightarrow> bool" where
  "clock_ok t \<longleftrightarrow> 0 \<le> fst t \<and> 0 \<le> snd t \<and> clock t < 4611686018427387904"

definition delay_ok :: "u64 \<Rightarrow> bool" where
  "delay_ok d \<longleftrightarrow> 0 \<le> sint d \<and> sint d * 1000 < 4611686018427387904"

lemma UptimeMicros_ok: "clock_ok t \<Longrightarrow> UptimeMicros t = Done (clock t)"
  by (auto simp: UptimeMicros_def clock_ok_def clock_def int64_def)

lemma post_delay_ok:
  "\<lbrakk>clock_ok t; delay_ok d\<rbrakk> \<Longrightarrow>
   LooperPostMessageDelay e t d (Some m) (Some l) = PostMessageAtTime e (Some (m\<lparr>ms_time := clock t + sint d * 1000\<rparr>)) (Some l)"
  by (auto simp: LooperPostMessageDelay_def UptimeMicros_ok int64_def delay_ok_def clock_ok_def) (auto simp: clock_def)


lemma post_healthy:
  "\<lbrakk>healthy e; ms_handler m \<noteq> None; \<not> lp_stop l\<rbrakk> \<Longrightarrow> PostMessageAtTime e (Some m) (Some l) =
     Done (Some (l\<lparr>lp_msgs := insert_msg m (lp_msgs l), lp_msgSize := lp_msgSize l + 1\<rparr>), [])"
  by (auto simp: PostMessageAtTime_def PostMessageAtTimeParamVerify_def healthy_SoftBusCalloc)

subsection \<open>The queue\<close>

lemma mset_insert_msg [simp]: "mset (insert_msg m q) = add_mset m (mset q)"
  by (induction q) auto

lemma set_insert_msg [simp]: "set (insert_msg m q) = insert m (set q)"
  by (induction q) auto

lemma length_insert_msg [simp]: "length (insert_msg m q) = Suc (length q)"
  by (induction q) auto




lemma insert_msg_sorted: "sorted (map ms_time q) \<Longrightarrow> sorted (map ms_time (insert_msg m q))"
  by (induction q) (auto simp: less_le_trans)

lemma insert_msg_filter:
  "sorted (map ms_time q) \<Longrightarrow> filter (\<lambda>x. ms_time x = k) (insert_msg m q) = filter (\<lambda>x. ms_time x = k) (q @ [m])"
proof (induction q)
  case (Cons a q)
  have "filter (\<lambda>x. ms_time x = ms_time m) q = []" if "ms_time m < ms_time a"
    using Cons.prems that by (auto simp: filter_empty_conv)
  with Cons show ?case by auto
qed simp

text \<open>Inserting one after the other is a stable sort.\<close>

lemma insert_all_sort: "foldl (\<lambda>q m. insert_msg m q) [] ms = sort_key ms_time ms"
proof (induction ms rule: rev_induct)
  case (snoc m ms)
  let ?q = "sort_key ms_time ms"
  have "sort_key ms_time (ms @ [m]) = insert_msg m ?q"
  proof (rule properties_for_sort_key)
    show "mset (insert_msg m ?q) = mset (ms @ [m])" by simp
    show "sorted (map ms_time (insert_msg m ?q))" by (rule insert_msg_sorted) simp
    show "filter (\<lambda>x. ms_time k = ms_time x) (insert_msg m ?q) = filter (\<lambda>x. ms_time k = ms_time x) (ms @ [m])"
      if "k \<in> set (insert_msg m ?q)" for k
      using insert_msg_filter [of ?q "ms_time k" m] sort_key_stable [of ms_time "ms_time k" ms]
      by (simp add: eq_commute [of "ms_time k"])
  qed
  with snoc show ?case by simp
qed simp

subsection \<open>Histories keep the order\<close>












subsection \<open>Batches and draining\<close>

definition stamped :: "(int \<times> int) \<times> ('h, 'o) SoftBusMessage \<times> u64 \<Rightarrow> ('h, 'o) SoftBusMessage" where
  "stamped p = (case p of (t, m, d) \<Rightarrow> m\<lparr>ms_time := clock t + sint d * 1000\<rparr>)"

lemma run_append: "looper_run (cs @ ds) s = bind_outcome (looper_run cs s) (looper_run ds)"
proof (induction cs arbitrary: s)
  case (Cons x cs)
  then show ?case by (cases x; cases "looper_call (fst x) (fst (snd x)) (snd (snd x)) s") auto
qed simp

lemma post_batch:
  "\<lbrakk>healthy e; \<not> lp_stop (hs_looper s); \<forall>(t, m, d) \<in> set ps. clock_ok t \<and> delay_ok d \<and> ms_handler m \<noteq> None\<rbrakk> \<Longrightarrow>
   \<exists>n. looper_run (map (\<lambda>(t, m, d). (e, t, Post m d)) ps) s =
     Done (s\<lparr>hs_looper := (hs_looper s)\<lparr>lp_msgs := foldl (\<lambda>q m. insert_msg m q) (lp_msgs (hs_looper s)) (map stamped ps), lp_msgSize := n\<rparr>\<rparr>)"
proof (induction ps arbitrary: s)
  case Nil
  show ?case by (rule exI [of _ "lp_msgSize (hs_looper s)"]) simp
next
  case (Cons p ps)
  obtain t m d where p: "p = (t, m, d)" by (cases p) auto
  define l where "l = (hs_looper s)\<lparr>lp_msgs := insert_msg (stamped p) (lp_msgs (hs_looper s)), lp_msgSize := lp_msgSize (hs_looper s) + 1\<rparr>"
  have "looper_call e t (Post m d) s = Done (s\<lparr>hs_looper := l\<rparr>)"
    using Cons.prems by (simp add: p looper_call_def post_delay_ok post_healthy stamped_def l_def)
  moreover have "\<not> lp_stop (hs_looper (s\<lparr>hs_looper := l\<rparr>))" using Cons.prems(2) by (simp add: l_def)
  ultimately show ?case
    using Cons.IH [OF Cons.prems(1), of "s\<lparr>hs_looper := l\<rparr>"] Cons.prems(3) by (auto simp: p l_def)
qed

lemma drain:
  "\<lbrakk>clock_ok t; lock_ok e 0; \<not> lp_stop (hs_looper s); \<forall>m \<in> set (lp_msgs (hs_looper s)). ms_time m \<le> clock t\<rbrakk> \<Longrightarrow>
   \<exists>s'. looper_run (replicate (length (lp_msgs (hs_looper s))) (e, t, Turn)) s = Done s' \<and>
     hs_handled s' = hs_handled s @ map (Pair (clock t)) (lp_msgs (hs_looper s)) \<and> lp_msgs (hs_looper s') = [] \<and> hs_dropped s' = hs_dropped s"
proof (induction "lp_msgs (hs_looper s)" arbitrary: s)
  case (Cons m ms)
  define s1 where "s1 = s\<lparr>hs_looper := (hs_looper s)\<lparr>lp_msgs := ms, lp_msgSize := lp_msgSize (hs_looper s) - 1, lp_current := None\<rparr>,
    hs_handled := hs_handled s @ [(clock t, m)]\<rparr>"
  have q: "lp_msgs (hs_looper s) = m # ms" using Cons.hyps(2) by simp
  have "ms_time m \<le> clock t" using Cons.prems(4) q by simp
  then have c: "looper_call e t Turn s = Done s1"
    using Cons.prems by (simp add: looper_call_def LoopTask_turn_def UptimeMicros_ok LoopTask_done_def q s1_def)
  have s1: "lp_msgs (hs_looper s1) = ms" "hs_handled s1 = hs_handled s @ [(clock t, m)]" "hs_dropped s1 = hs_dropped s"
    "\<not> lp_stop (hs_looper s1)"
    using Cons.prems(3) by (simp_all add: s1_def)
  have "\<forall>m \<in> set (lp_msgs (hs_looper s1)). ms_time m \<le> clock t" using Cons.prems(4) q s1(1) by simp
  from Cons.hyps(1) [OF s1(1) [symmetric] Cons.prems(1,2) s1(4) this] c show ?case by (simp add: q s1)
qed simp

subsection \<open>The life of a looper\<close>



lemma put_simps [simp]:
  "lw_ctx (put_ctx a l w) b = (if b = a then l else lw_ctx w b)" "lw_pc (put_ctx a l w) = lw_pc w"
  "lw_pc (put_pc a p w) b = (if b = a then p else lw_pc w b)" "lw_ctx (put_pc a p w) = lw_ctx w"
  "lw_isNeedDestroy (put_ctx a l w) = lw_isNeedDestroy w" "lw_loopConfig (put_ctx a l w) = lw_loopConfig w"
  "lw_looperCnt (put_ctx a l w) = lw_looperCnt w" "lw_isThreadStarted (put_ctx a l w) = lw_isThreadStarted w"
  "lw_isNeedDestroy (put_pc a p w) = lw_isNeedDestroy w" "lw_loopConfig (put_pc a p w) = lw_loopConfig w"
  "lw_looperCnt (put_pc a p w) = lw_looperCnt w" "lw_isThreadStarted (put_pc a p w) = lw_isThreadStarted w"
  by (simp_all add: put_ctx_def put_pc_def)








text \<open>Once told to stop, a thread that has started is over after three of its steps.\<close>

definition stops_after :: "('h, 'o) thread_pc \<Rightarrow> nat" where
  "stops_after pc = (case pc of Handling m \<Rightarrow> 3 | Looping \<Rightarrow> 2 | Leaving \<Rightarrow> 1 | _ \<Rightarrow> 0)"

text \<open>\<open>w'\<close> is \<open>w\<close> without the looper at \<open>a\<close>.\<close>

definition destroyed :: "nat \<Rightarrow> ('h, 'o) looper_world \<Rightarrow> ('h, 'o) looper_world \<Rightarrow> bool" where
  "destroyed a w w' \<longleftrightarrow> lw_ctx w' = (lw_ctx w)(a := None) \<and> (\<forall>b. b \<noteq> a \<longrightarrow> lw_pc w' b = lw_pc w b) \<and>
     lw_looperCnt w' = (if lw_looperCnt w \<noteq> 0 then lw_looperCnt w - 1 else 0) \<and>
     lw_loopConfig w' = ReleaseLooper a (lw_loopConfig w) \<and> lw_isThreadStarted w' = lw_isThreadStarted w"

lemma poll_over: "\<lbrakk>lw_ctx w a = Some l; \<not> lp_running l\<rbrakk> \<Longrightarrow> \<exists>w'. DestroyLooper_poll a w = ret_call (w', lp_msgs l) \<and> destroyed a w w' \<and> lw_pc w' = lw_pc w"
  by (simp add: DestroyLooper_poll_def destroyed_def put_ctx_def ret_call_def)

lemma stopping_step:
  assumes "lock_ok e 0" "lw_ctx w a = Some l" "lp_stop l" "lp_running l" "lw_pc w a \<noteq> NotStarted" "lw_pc w a \<noteq> Over"
  shows "\<exists>l1 pc. LoopTask_step e t a w = Done (put_pc a pc (put_ctx a (Some l1) w)) \<and> lp_stop l1 \<and> lp_msgs l1 = lp_msgs l \<and>
      pc \<noteq> NotStarted \<and> (lp_running l1 \<longleftrightarrow> pc \<noteq> Over) \<and> stops_after pc < stops_after (lw_pc w a)"
proof (cases "lw_pc w a")
  case Looping
  then have "LoopTask_step e t a w = Done (put_pc a Leaving (put_ctx a (Some l) w))"
    using assms by (simp add: LoopTask_step_def LoopTask_turn_def)
  with Looping assms show ?thesis by (intro exI [of _ l] exI [of _ Leaving]) (simp add: stops_after_def)
next
  case (Handling m)
  then have "LoopTask_step e t a w = Done (put_pc a Looping (put_ctx a (Some (LoopTask_done l)) w))"
    using assms by (simp add: LoopTask_step_def)
  with Handling assms show ?thesis
    by (intro exI [of _ "LoopTask_done l"] exI [of _ Looping]) (simp add: stops_after_def LoopTask_done_def)
next
  case Leaving
  then have "LoopTask_step e t a w = Done (put_pc a Over (put_ctx a (Some (LoopTask_leave l)) w))"
    using assms by (simp add: LoopTask_step_def)
  with Leaving assms show ?thesis
    by (intro exI [of _ "LoopTask_leave l"] exI [of _ Over]) (simp add: stops_after_def LoopTask_leave_def)
qed (use assms in simp_all)

lemma destroyed_put [simp]:
  "destroyed a (put_ctx a l w) w' \<longleftrightarrow> destroyed a w w'" "destroyed a (put_pc a pc w) w' \<longleftrightarrow> destroyed a w w'"
  by (simp_all add: destroyed_def put_ctx_def put_pc_def)

lemma destroy_wait_ends:
  assumes e: "\<And>k. lock_ok (es k) 0"
    and w: "lw_ctx w a = Some l" "lp_stop l" "lw_pc w a \<noteq> NotStarted" "lp_running l \<longleftrightarrow> lw_pc w a \<noteq> Over"
      "stops_after (lw_pc w a) < fuel"
  shows "\<exists>w'. destroy_wait (\<lambda>k. LoopTask_step (es k) (ts k) a) k fuel a w = ret_call (w', lp_msgs l) \<and> destroyed a w w'"
  using w
proof (induction fuel arbitrary: k l w)
  case (Suc fuel)
  show ?case
  proof (cases "lw_pc w a = Over")
    case True
    with Suc.prems poll_over [of w a l] show ?thesis by (auto simp: ret_call_def)
  next
    case False
    then have poll: "DestroyLooper_poll a w = Done None" using Suc.prems by (simp add: DestroyLooper_poll_def)
    obtain l1 pc where s: "LoopTask_step (es k) (ts k) a w = Done (put_pc a pc (put_ctx a (Some l1) w))" "lp_stop l1" "lp_msgs l1 = lp_msgs l"
      "pc \<noteq> NotStarted" "lp_running l1 \<longleftrightarrow> pc \<noteq> Over" "stops_after pc < stops_after (lw_pc w a)"
      using stopping_step [OF e Suc.prems(1,2)] Suc.prems False by blast
    with Suc.IH [of "put_pc a pc (put_ctx a (Some l1) w)" l1 "Suc k"] Suc.prems(5) poll
    show ?thesis by auto
  qed
qed simp

lemma destroy_ends:
  assumes "\<And>k. lock_ok (es k) 0" "lw_ctx w a = Some l" "lw_pc w a \<noteq> NotStarted" "lp_running l \<longleftrightarrow> lw_pc w a \<noteq> Over"
  shows "\<exists>w'. DestroyLooper (\<lambda>k. LoopTask_step (es k) (ts k) a) 4 (Some a) w = ret_call (w', lp_msgs l) \<and> destroyed a w w'"
proof -
  let ?l = "l\<lparr>lp_stop := True\<rparr>"
  have "stops_after (lw_pc w a) < 4" by (cases "lw_pc w a") (simp_all add: stops_after_def)
  with destroy_wait_ends [of es "put_ctx a (Some ?l) w" a ?l 4 ts 0] assms obtain w' where
    "destroy_wait (\<lambda>k. LoopTask_step (es k) (ts k) a) 0 4 a (put_ctx a (Some ?l) w) = ret_call (w', lp_msgs l)"
    "destroyed a w w'"
    by auto
  then show ?thesis using assms(2) by (auto simp: DestroyLooper_def DestroyLooper_stop_def)
qed

lemma destroy_not_running:
  assumes "lw_ctx w a = Some l" "\<not> lp_running l"
  shows "\<exists>w'. DestroyLooper others (Suc n) (Some a) w = ret_call (w', lp_msgs l) \<and> destroyed a w w' \<and> lw_pc w' = lw_pc w"
proof -
  let ?l = "l\<lparr>lp_stop := True\<rparr>"
  obtain w' where "DestroyLooper_poll a (put_ctx a (Some ?l) w) = ret_call (w', lp_msgs l)" "destroyed a w w'" "lw_pc w' = lw_pc w"
    using poll_over [of "put_ctx a (Some ?l) w" a ?l] assms by auto
  then show ?thesis using assms by (auto simp: DestroyLooper_def DestroyLooper_stop_def ret_call_def)
qed

lemma create_ok:
  "\<lbrakk>healthy e; lw_looperCnt w < MAX_LOOPER_CNT; length name \<le> LOOP_NAME_LEN\<rbrakk> \<Longrightarrow>
   CreateNewLooper e True a name w = (Some a, (put_pc a NotStarted (put_ctx a (Some new_looper) w))\<lparr>lw_looperCnt := lw_looperCnt w + 1\<rparr>)"
  using securec_memcpy [OF healthy_securec, of e LOOP_NAME_LEN "length name"]
  by (auto simp: CreateNewLooper_def StartNewLooperThread_def healthy_SoftBusCalloc)

subsection \<open>Properties\<close>

definition idle_history :: "('h, 'o) history" where
  "idle_history = \<lparr>hs_looper = new_looper\<lparr>lp_running := True\<rparr>, hs_handled = [], hs_dropped = []\<rparr>"



definition sample_msg :: "nat \<Rightarrow> (nat, nat) SoftBusMessage" where
  "sample_msg i = \<lparr>ms_what = 7, ms_arg1 = 0, ms_arg2 = 0, ms_time = 0, ms_obj = i, ms_handler = Some 1\<rparr>"



text \<open>
  C14. Equivalence with a stable sort. When messages with handlers are posted to an idle looper in
  any order and with any delays, and the loop thread then makes as many turns after the last due
  time, it handles exactly the list of the messages sorted by due time by the library's stable
  sort, each once, and the queue is empty.
\<close>

theorem looper_is_stable_sort:
  assumes "healthy e" "clock_ok late"
    and "\<forall>(t, m, d) \<in> set ps. clock_ok t \<and> delay_ok d \<and> ms_handler m \<noteq> None \<and> clock t + sint d * 1000 \<le> clock late"
  shows "\<exists>s. looper_run (map (\<lambda>(t, m, d). (e, t, Post m d)) ps @ replicate (length ps) (e, late, Turn)) idle_history = Done s \<and>
      map snd (hs_handled s) = sort_key ms_time (map stamped ps) \<and> lp_msgs (hs_looper s) = [] \<and> hs_dropped s = []"
proof -
  let ?q = "sort_key ms_time (map stamped ps)"
  have "\<exists>n. looper_run (map (\<lambda>(t, m, d). (e, t, Post m d)) ps) idle_history =
      Done (idle_history\<lparr>hs_looper := (hs_looper idle_history)\<lparr>lp_msgs := ?q, lp_msgSize := n\<rparr>\<rparr>)"
    using post_batch [OF assms(1), of idle_history ps] assms(3)
    by (fastforce simp: insert_all_sort idle_history_def new_looper_def)
  then obtain n where n: "looper_run (map (\<lambda>(t, m, d). (e, t, Post m d)) ps) idle_history =
      Done (idle_history\<lparr>hs_looper := (hs_looper idle_history)\<lparr>lp_msgs := ?q, lp_msgSize := n\<rparr>\<rparr>)" by blast
  have "\<forall>m \<in> set ?q. ms_time m \<le> clock late" using assms(3) by (auto simp: stamped_def)
  with drain [OF assms(2), of e "idle_history\<lparr>hs_looper := (hs_looper idle_history)\<lparr>lp_msgs := ?q, lp_msgSize := n\<rparr>\<rparr>"] n assms(1)
  show ?thesis by (auto simp: run_append idle_history_def new_looper_def comp_def)
qed

definition sample_batch :: "((int \<times> int) \<times> (nat, nat) SoftBusMessage \<times> u64) list" where
  "sample_batch = [((1, 0), sample_msg 0, 20), ((1, 0), sample_msg 1, 0)]"

theorem looper_is_stable_sort_witness:
  "\<exists>s. looper_run (map (\<lambda>(t, m, d). (ideal_env, t, Post m d)) sample_batch @ replicate (length sample_batch) (ideal_env, (2, 0), Turn))
        idle_history = Done s \<and>
      map snd (hs_handled s) = sort_key ms_time (map stamped sample_batch) \<and> lp_msgs (hs_looper s) = [] \<and> hs_dropped s = []"
  by (rule looper_is_stable_sort)
    (simp_all add: sample_batch_def clock_ok_def delay_ok_def clock_def sample_msg_def)


definition no_loopers :: "(nat, nat) looper_world" where
  "no_loopers = \<lparr>lw_ctx = \<lambda>_. None, lw_pc = \<lambda>_. Over, lw_looperCnt = 0, lw_isThreadStarted = False, lw_isNeedDestroy = False,
     lw_loopConfig = g_loopConfig\<rparr>"



text \<open>
  A looper may not outlive a thread that has not started. \<^verbatim>\<open>CreateNewLooper\<close> does not wait for
  its thread, and \<^verbatim>\<open>LooperDeinit\<close> looks at one flag for all threads. After \<^verbatim>\<open>LooperInit\<close> has created
  its two loopers and the first thread has started, \<^verbatim>\<open>LooperDeinit\<close> returns having freed both
  loopers, and the first step of the second thread is then an access to freed memory.
\<close>

theorem looper_freed_before_start:
  assumes "healthy e" "clock_ok t" "a \<noteq> b"
  shows "\<exists>w1 w2 w3. LooperInit (\<lambda>_. e) (\<lambda>_. True) (\<lambda>k. if k = 0 then a else b) no_loopers = (SOFTBUS_OK, w1) \<and>
      LoopTask_step e t a w1 = Done w2 \<and>
      LooperDeinit (\<lambda>_. LoopTask_step e t a) 4 w2 = ret_call w3 \<and> LoopTask_step e t b w3 = Undef"
proof -
  define cfg where "cfg = [(1, Some a), (2, None), (3, None), (4, None), (5, None), (6 :: int, Some b)]"
  define w where "w = no_loopers\<lparr>lw_looperCnt := 2, lw_loopConfig := cfg\<rparr>"
  define w1 where "w1 = w\<lparr>lw_ctx := (\<lambda>_. None)(a := Some new_looper, b := Some new_looper), lw_pc := (\<lambda>_. Over)(a := NotStarted, b := NotStarted)\<rparr>"
  define w2 where "w2 = w\<lparr>lw_ctx := (\<lambda>_. None)(a := Some (new_looper\<lparr>lp_running := True\<rparr>), b := Some new_looper),
    lw_pc := (\<lambda>_. Over)(a := Looping, b := NotStarted), lw_isThreadStarted := True\<rparr>"
  have i: "LooperInit (\<lambda>_. e) (\<lambda>_. True) (\<lambda>k. if k = 0 then a else b) no_loopers = (SOFTBUS_OK, w1)"
    using assms
    by (simp add: LooperInit_def create_ok no_loopers_def SetLooper_def g_loopConfig_def w1_def w_def cfg_def put_ctx_def put_pc_def)
  have s: "LoopTask_step e t a w1 = Done w2"
    using assms by (simp add: LoopTask_step_def LoopTask_start_def w1_def w2_def put_ctx_def put_pc_def fun_upd_twist new_looper_def)
  have cfg: "lw_loopConfig w2 = cfg" "length cfg = 6" by (simp_all add: w2_def w_def cfg_def)
  obtain w3 where d: "DestroyLooper (\<lambda>_. LoopTask_step e t a) 4 (Some a) w2 = ret_call (w3, [])" "destroyed a w2 w3"
    using destroy_ends [of "\<lambda>_. e" w2 a "new_looper\<lparr>lp_running := True\<rparr>" "\<lambda>_. t"] assms by (auto simp: w2_def new_looper_def)
  then have w3: "lw_ctx w3 b = Some new_looper" "lw_pc w3 b = NotStarted" "lw_isThreadStarted w3"
    "lw_loopConfig w3 = [(1, None), (2, None), (3, None), (4, None), (5, None), (6, Some b)]"
    using assms(3) by (simp_all add: destroyed_def w2_def w_def cfg_def)
  obtain w4 where f: "DestroyLooper (\<lambda>_. LoopTask_step e t a) 4 (Some b) w3 = ret_call (w4, [])" "destroyed b w3 w4" "lw_pc w4 = lw_pc w3"
    using destroy_not_running [OF w3(1), of "\<lambda>_. LoopTask_step e t a" 3] by (auto simp: new_looper_def)
  have "[0..<6] = [0, 1, 2, 3, 4, 5 :: nat]" by (simp add: upt_rec)
  then have "LooperDeinit (\<lambda>_. LoopTask_step e t a) 4 w2 = ret_call w4"
    using d(1) f(1) w3 by (simp add: LooperDeinit_def cfg) (simp add: w2_def w_def cfg_def)
  with i s show ?thesis using f(2,3) w3 by (simp add: LoopTask_step_def destroyed_def)
qed


theorem looper_freed_before_start_witness:
  "\<exists>w1 w2 w3. LooperInit (\<lambda>_. ideal_env) (\<lambda>_. True) (\<lambda>k. if k = 0 then 3 else 5) no_loopers = (SOFTBUS_OK, w1) \<and>
      LoopTask_step ideal_env (1, 0) 3 w1 = Done w2 \<and>
      LooperDeinit (\<lambda>_. LoopTask_step ideal_env (1, 0) 3) 4 w2 = ret_call w3 \<and> LoopTask_step ideal_env (1, 0) 5 w3 = Undef"
  by (rule looper_freed_before_start) (simp_all add: clock_ok_def clock_def)

end
