(* ===== verification/Lnn_Map.thy ===== *)
theory Lnn_Map
  imports Softbus_Prelude "HOL-Library.Multiset"
begin

text \<open>
  The hash map of the bus centre, \<^verbatim>\<open>core/bus_center/utils/src/lnn_map.c\<close>: buckets of linked nodes, a
  growing number of buckets, and an iterator. A key is the bytes of the C string before its
  terminator; whether a plain \<^verbatim>\<open>char\<close> is signed, which the hash depends on, is an argument. A value is
  what the \<^verbatim>\<open>valueSize\<close> bytes of a node hold, of any type. A bucket is the list of its nodes.
\<close>

unbundle bit_operations_syntax

subsection \<open>State\<close>

record 'v MapNode =
  mn_hash :: u32
  mn_valueSize :: u32
  mn_key :: bytes
  mn_value :: 'v

record 'v lnn_map =
  mp_nodes :: "'v MapNode list list option"
  mp_nodeSize :: u32
  mp_bucketSize :: u32

abbreviation (input) HDF_MIN_MAP_SIZE :: u32 where "HDF_MIN_MAP_SIZE \<equiv> 8"
abbreviation (input) HDF_ENLARGE_FACTOR :: nat where "HDF_ENLARGE_FACTOR \<equiv> 2"
abbreviation (input) HDF_MAP_KEY_MAX_SIZE :: nat where "HDF_MAP_KEY_MAX_SIZE \<equiv> 1000"
abbreviation (input) HDF_MAP_VALUE_MAX_SIZE :: u32 where "HDF_MAP_VALUE_MAX_SIZE \<equiv> 3000"
abbreviation (input) SIZEOF_MAP_NODE :: nat where "SIZEOF_MAP_NODE \<equiv> 32"

subsection \<open>Hashing\<close>

definition char_word :: "bool \<Rightarrow> u8 \<Rightarrow> u32" where
  "char_word sc c = (if sc then scast c else ucast c)"

definition MapHash :: "bool \<Rightarrow> bytes option \<Rightarrow> u32" where
  "MapHash sc key =
     (case key of
        None \<Rightarrow> 0
      | Some k \<Rightarrow> (foldl (\<lambda>hash c. hash * 131 + char_word sc c) 0 k) AND 0x7FFFFFFF)"

definition MapHashIdx :: "'v lnn_map \<Rightarrow> u32 \<Rightarrow> nat" where
  "MapHashIdx mp hash = unat (hash AND (mp_bucketSize mp - 1))"

subsection \<open>Nodes and buckets\<close>

definition MapAddNode :: "'v MapNode \<Rightarrow> 'v lnn_map \<Rightarrow> 'v lnn_map" where
  "MapAddNode node mp =
     (let idx = MapHashIdx mp (mn_hash node); nodes = the (mp_nodes mp)
      in mp\<lparr>mp_nodes := Some (nodes[idx := node # nodes ! idx])\<rparr>)"

text \<open>
  The size of the new array is computed in 64 bits and cut to the 32 bits the allocator takes. The
  walk over the old array moves each node to the front of its new bucket.
\<close>

definition MapResize :: "env \<Rightarrow> u32 \<Rightarrow> 'v lnn_map \<Rightarrow> status \<times> 'v lnn_map" where
  "MapResize e newSize mp =
     (if \<not> SoftBusCalloc e 0 (unat newSize * 8 mod 2 ^ 32) then (SOFTBUS_MEM_ERR, mp)
      else let tmp = mp_nodes mp;
               mp = mp\<lparr>mp_nodes := Some (replicate (unat newSize) []), mp_bucketSize := newSize\<rparr>
        in (SOFTBUS_OK, case tmp of None \<Rightarrow> mp | Some bs \<Rightarrow> foldl (\<lambda>m node. MapAddNode node m) mp (concat bs)))"

definition MapCreateNode :: "env \<Rightarrow> bytes \<Rightarrow> u32 \<Rightarrow> 'v \<Rightarrow> u32 \<Rightarrow> 'v MapNode option" where
  "MapCreateNode e key hash value valueSize =
     (let keySize = length key + 1; keySize = keySize + (4 - keySize mod 4)
      in if \<not> SoftBusCalloc e 1 (SIZEOF_MAP_NODE + keySize + unat valueSize) then None
      else if \<not> memcpy_ok e keySize (length key + 1) then None
      else if \<not> memcpy_ok e (unat valueSize) (unat valueSize) then None
      else Some \<lparr>mn_hash = hash, mn_valueSize = valueSize, mn_key = key, mn_value = value\<rparr>)"

definition node_is :: "u32 \<Rightarrow> bytes \<Rightarrow> 'v MapNode \<Rightarrow> bool" where
  "node_is hash key node \<longleftrightarrow> mn_hash node = hash \<and> mn_key node = key"

text \<open>Writing through a node found in a bucket: the first node that matches.\<close>

fun upd_first :: "('n \<Rightarrow> bool) \<Rightarrow> ('n \<Rightarrow> 'n) \<Rightarrow> 'n list \<Rightarrow> 'n list" where
  "upd_first P f [] = []"
| "upd_first P f (x # xs) = (if P x then f x # xs else x # upd_first P f xs)"

definition upd_node :: "u32 \<Rightarrow> bytes \<Rightarrow> ('v MapNode \<Rightarrow> 'v MapNode) \<Rightarrow> 'v lnn_map \<Rightarrow> 'v lnn_map" where
  "upd_node hash key f mp =
     (let idx = MapHashIdx mp hash; nodes = the (mp_nodes mp)
      in mp\<lparr>mp_nodes := Some (nodes[idx := upd_first (node_is hash key) f (nodes ! idx)])\<rparr>)"

subsection \<open>Operations\<close>

definition LnnMapInit :: "'v lnn_map" where
  "LnnMapInit = \<lparr>mp_nodes = None, mp_nodeSize = 0, mp_bucketSize = 0\<rparr>"

definition LnnMapDelete :: "'v lnn_map \<Rightarrow> 'v lnn_map" where
  "LnnMapDelete mp =
     (case mp_nodes mp of None \<Rightarrow> mp | Some bs \<Rightarrow> mp\<lparr>mp_nodes := None, mp_nodeSize := 0, mp_bucketSize := 0\<rparr>)"

definition MapGetSize :: "'v lnn_map option \<Rightarrow> u32" where
  "MapGetSize mp = (case mp of None \<Rightarrow> 0 | Some m \<Rightarrow> mp_nodeSize m)"

definition map_search :: "bool \<Rightarrow> bytes \<Rightarrow> 'v lnn_map \<Rightarrow> 'v MapNode option" where
  "map_search sc key mp =
     (if mp_nodeSize mp = 0 then None
      else case mp_nodes mp of
        None \<Rightarrow> None
      | Some bs \<Rightarrow> (let hash = MapHash sc (Some key) in find (node_is hash key) (bs ! MapHashIdx mp hash)))"

definition map_enlarge :: "env \<Rightarrow> 'v lnn_map \<Rightarrow> 'v lnn_map" where
  "map_enlarge e mp =
     (if mp_nodeSize mp \<ge> mp_bucketSize mp
      then snd (MapResize e (if mp_bucketSize mp < HDF_MIN_MAP_SIZE then HDF_MIN_MAP_SIZE
                             else push_bit HDF_ENLARGE_FACTOR (mp_bucketSize mp)) mp)
      else mp)"

definition LnnMapSet ::
  "bool \<Rightarrow> env \<Rightarrow> 'v lnn_map option \<Rightarrow> bytes option \<Rightarrow> 'v option \<Rightarrow> u32 \<Rightarrow> status \<times> 'v lnn_map option" where
  "LnnMapSet sc e mp key value valueSize =
     (case (mp, key, value) of
        (Some m, Some k, Some v) \<Rightarrow>
          if valueSize = 0 then (SOFTBUS_INVALID_PARAM, mp)
          else if valueSize > HDF_MAP_VALUE_MAX_SIZE \<or> length k > HDF_MAP_KEY_MAX_SIZE then (SOFTBUS_INVALID_PARAM, mp)
          else let hash = MapHash sc (Some k) in
            (case map_search sc k m of
               Some node \<Rightarrow>
                 if mn_valueSize node \<noteq> valueSize then (SOFTBUS_INVALID_PARAM, mp)
                 else if \<not> memcpy_ok e (unat (mn_valueSize node)) (unat valueSize) then (SOFTBUS_ERR, mp)
                 else (SOFTBUS_OK, Some (upd_node hash k (\<lambda>node. node\<lparr>mn_value := v\<rparr>) m))
             | None \<Rightarrow>
                 let m = map_enlarge e m in
                 if mp_nodes m = None then (SOFTBUS_ERR, Some m)
                 else (case MapCreateNode e k hash v valueSize of
                     None \<Rightarrow> (SOFTBUS_INVALID_PARAM, Some m)
                   | Some node \<Rightarrow>
                       let m = MapAddNode node m in (SOFTBUS_OK, Some (m\<lparr>mp_nodeSize := mp_nodeSize m + 1\<rparr>))))
      | _ \<Rightarrow> (SOFTBUS_INVALID_PARAM, mp))"

definition LnnMapGet :: "bool \<Rightarrow> 'v lnn_map option \<Rightarrow> bytes option \<Rightarrow> 'v option" where
  "LnnMapGet sc mp key =
     (case (mp, key) of
        (Some m, Some k) \<Rightarrow> map_option mn_value (map_search sc k m)
      | _ \<Rightarrow> None)"

text \<open>Writing through the pointer \<open>LnnMapGet\<close> returned.\<close>

definition LnnMapGet_write :: "bool \<Rightarrow> bytes \<Rightarrow> ('v \<Rightarrow> 'v) \<Rightarrow> 'v lnn_map \<Rightarrow> 'v lnn_map" where
  "LnnMapGet_write sc key f mp =
     (if map_search sc key mp = None then mp
      else upd_node (MapHash sc (Some key)) key (\<lambda>node. node\<lparr>mn_value := f (mn_value node)\<rparr>) mp)"

fun del_node :: "('n \<Rightarrow> bool) \<Rightarrow> 'n list \<Rightarrow> 'n list" where
  "del_node P [] = []"
| "del_node P (x # xs) = (if P x then xs else x # del_node P xs)"

definition LnnMapErase :: "bool \<Rightarrow> 'v lnn_map option \<Rightarrow> bytes option \<Rightarrow> status \<times> 'v lnn_map option" where
  "LnnMapErase sc mp key =
     (case (mp, key) of
        (Some m, Some k) \<Rightarrow>
          if mp_nodeSize m = 0 \<or> mp_nodes m = None then (SOFTBUS_INVALID_PARAM, mp)
          else let hash = MapHash sc (Some k); idx = MapHashIdx m hash; nodes = the (mp_nodes m) in
            if find (node_is hash k) (nodes ! idx) = None then (SOFTBUS_ERR, mp)
            else (SOFTBUS_OK, Some (m\<lparr>mp_nodes := Some (nodes[idx := del_node (node_is hash k) (nodes ! idx)]),
              mp_nodeSize := mp_nodeSize m - 1\<rparr>))
      | _ \<Rightarrow> (SOFTBUS_INVALID_PARAM, mp))"

subsection \<open>Iteration\<close>

text \<open>The node of an iterator, with the nodes after it in its bucket; the empty list is a null pointer.\<close>

record 'v MapIterator =
  it_node :: "'v MapNode list"
  it_nodeNum :: u32
  it_bucketNum :: u32

definition LnnMapInitIterator :: "env \<Rightarrow> 'v lnn_map option \<Rightarrow> 'v MapIterator option" where
  "LnnMapInitIterator e mp =
     (case mp of
        None \<Rightarrow> None
      | Some m \<Rightarrow> if \<not> SoftBusCalloc e 0 24 then None else Some \<lparr>it_node = [], it_nodeNum = 0, it_bucketNum = 0\<rparr>)"

definition LnnMapHasNext :: "'v lnn_map \<Rightarrow> 'v MapIterator \<Rightarrow> bool" where
  "LnnMapHasNext mp it \<longleftrightarrow> it_nodeNum it < mp_nodeSize mp"

text \<open>The loop over the buckets; \<open>n\<close> buckets are left.\<close>

fun next_bucket :: "'v lnn_map \<Rightarrow> nat \<Rightarrow> 'v MapIterator \<Rightarrow> 'v MapIterator" where
  "next_bucket mp 0 it = it"
| "next_bucket mp (Suc n) it =
     (let nodes = the (mp_nodes mp) ! unat (it_bucketNum it); it = it\<lparr>it_bucketNum := it_bucketNum it + 1\<rparr>
      in if nodes \<noteq> [] then it\<lparr>it_nodeNum := it_nodeNum it + 1, it_node := nodes\<rparr>
      else next_bucket mp n it)"

definition LnnMapNext :: "'v lnn_map \<Rightarrow> 'v MapIterator option \<Rightarrow> 'v MapIterator option" where
  "LnnMapNext mp iter =
     (case iter of
        None \<Rightarrow> None
      | Some it \<Rightarrow>
          if LnnMapHasNext mp it then
            (if it_node it \<noteq> [] \<and> tl (it_node it) \<noteq> []
             then Some (it\<lparr>it_nodeNum := it_nodeNum it + 1, it_node := tl (it_node it)\<rparr>)
             else Some (next_bucket mp (unat (mp_bucketSize mp) - unat (it_bucketNum it)) it))
          else Some it)"

text \<open>The loop of the callers: the nodes seen while there is a next one.\<close>

fun iterate :: "nat \<Rightarrow> 'v lnn_map \<Rightarrow> 'v MapIterator \<Rightarrow> 'v MapNode list option" where
  "iterate 0 mp it = None"
| "iterate (Suc fuel) mp it =
     (if LnnMapHasNext mp it then
        (case LnnMapNext mp (Some it) of
           None \<Rightarrow> Some []
         | Some it \<Rightarrow> map_option ((#) (hd (it_node it))) (iterate fuel mp it))
      else Some [])"

subsection \<open>Well-formed maps\<close>

definition entries :: "'v lnn_map \<Rightarrow> 'v MapNode list" where
  "entries m = (case mp_nodes m of None \<Rightarrow> [] | Some bs \<Rightarrow> concat bs)"

definition node_ok :: "bool \<Rightarrow> 'v MapNode \<Rightarrow> bool" where
  "node_ok sc n \<longleftrightarrow> mn_hash n = MapHash sc (Some (mn_key n)) \<and> 0 < mn_valueSize n \<and> mn_valueSize n \<le> HDF_MAP_VALUE_MAX_SIZE \<and>
     length (mn_key n) \<le> HDF_MAP_KEY_MAX_SIZE"

text \<open>Every node is in the bucket of its hash.\<close>

definition buckets_ok :: "bool \<Rightarrow> 'v lnn_map \<Rightarrow> bool" where
  "buckets_ok sc m \<longleftrightarrow> (case mp_nodes m of None \<Rightarrow> False | Some bs \<Rightarrow>
     mp_bucketSize m \<noteq> 0 \<and> length bs = unat (mp_bucketSize m) \<and>
     (\<forall>i < length bs. \<forall>n \<in> set (bs ! i). node_ok sc n \<and> MapHashIdx m (mn_hash n) = i))"

definition map_ok :: "bool \<Rightarrow> 'v lnn_map \<Rightarrow> bool" where
  "map_ok sc m \<longleftrightarrow>
     (if mp_nodes m = None then mp_bucketSize m = 0
      else buckets_ok sc m \<and> 8 \<le> unat (mp_bucketSize m) \<and> unat (mp_bucketSize m) \<le> 67108864) \<and>
     distinct (map mn_key (entries m)) \<and> unat (mp_nodeSize m) = length (entries m)"

text \<open>What a map promises: a partial function from keys to sizes and values.\<close>

definition map_view :: "'v lnn_map \<Rightarrow> bytes \<Rightarrow> (u32 \<times> 'v) option" where
  "map_view m = map_of (map (\<lambda>n. (mn_key n, mn_valueSize n, mn_value n)) (entries m))"

lemma option_eqI: "(\<And>y. a = Some y \<longleftrightarrow> b = Some y) \<Longrightarrow> a = b"
  by (metis not_None_eq)

lemma view_iff:
  "distinct (map mn_key (entries m)) \<Longrightarrow>
   map_view m k = Some y \<longleftrightarrow> (\<exists>n \<in> set (entries m). mn_key n = k \<and> y = (mn_valueSize n, mn_value n))"
  by (auto simp: map_view_def comp_def map_of_eq_Some_iff)

lemma view_dom: "dom (map_view m) = mn_key ` set (entries m)"
  by (force simp: map_view_def dom_map_of_conv_image_fst)

lemma card_view: "distinct (map mn_key (entries m)) \<Longrightarrow> card (dom (map_view m)) = length (entries m)"
  by (metis distinct_card length_map list.set_map view_dom)

lemma mset_concat_update:
  "i < length bs \<Longrightarrow> mset (concat (bs[i := x])) + mset (bs ! i) = mset (concat bs) + mset x"
proof (induction bs arbitrary: i)
  case (Cons b bs)
  then show ?case by (cases i) (simp_all add: ac_simps)
qed simp

lemma hash_idx: "buckets_ok sc m \<Longrightarrow> MapHashIdx m h < length (the (mp_nodes m))"
proof -
  assume "buckets_ok sc m"
  then have b: "mp_bucketSize m \<noteq> 0" "length (the (mp_nodes m)) = unat (mp_bucketSize m)"
    by (auto simp: buckets_ok_def split: option.splits)
  have "unat (h AND (mp_bucketSize m - 1)) \<le> unat (mp_bucketSize m - 1)" using word_and_le1 [of h "mp_bucketSize m - 1"] by (simp add: word_le_nat_alt)
  also have "\<dots> < unat (mp_bucketSize m)" using b(1) by (rule measure_unat)
  finally show ?thesis by (simp add: MapHashIdx_def b(2))
qed

lemma idx_frame [simp]:
  "MapHashIdx (m\<lparr>mp_nodes := x\<rparr>) h = MapHashIdx m h" "MapHashIdx (m\<lparr>mp_nodeSize := y\<rparr>) h = MapHashIdx m h"
  by (simp_all add: MapHashIdx_def)

lemma buckets_not_null: "buckets_ok sc m \<Longrightarrow> mp_nodes m \<noteq> None"
  by (cases "mp_nodes m") (simp_all add: buckets_ok_def)

text \<open>Replacing one bucket.\<close>

lemma put_bucket:
  assumes ok: "buckets_ok sc m" and i: "i < length (the (mp_nodes m))"
    and new: "\<forall>n \<in> set x. node_ok sc n \<and> MapHashIdx m (mn_hash n) = i"
  shows "buckets_ok sc (m\<lparr>mp_nodes := Some ((the (mp_nodes m))[i := x])\<rparr>)"
    and "mset (entries (m\<lparr>mp_nodes := Some ((the (mp_nodes m))[i := x])\<rparr>)) + mset (the (mp_nodes m) ! i) = mset (entries m) + mset x"
proof -
  obtain bs where bs: "mp_nodes m = Some bs" using ok by (auto simp: buckets_ok_def split: option.splits)
  show "buckets_ok sc (m\<lparr>mp_nodes := Some ((the (mp_nodes m))[i := x])\<rparr>)"
    using ok new i by (auto simp: buckets_ok_def bs nth_list_update)
  show "mset (entries (m\<lparr>mp_nodes := Some ((the (mp_nodes m))[i := x])\<rparr>)) + mset (the (mp_nodes m) ! i) = mset (entries m) + mset x"
    using i by (simp add: entries_def bs mset_concat_update)
qed

lemma bucket_nodes: "\<lbrakk>buckets_ok sc m; i < length (the (mp_nodes m)); n \<in> set (the (mp_nodes m) ! i)\<rbrakk> \<Longrightarrow>
    node_ok sc n \<and> MapHashIdx m (mn_hash n) = i \<and> n \<in> set (entries m)"
  by (auto simp: buckets_ok_def entries_def split: option.splits)

lemma entry_bucket: "\<lbrakk>buckets_ok sc m; n \<in> set (entries m)\<rbrakk> \<Longrightarrow> node_ok sc n \<and> n \<in> set (the (mp_nodes m) ! MapHashIdx m (mn_hash n))"
  by (auto simp: buckets_ok_def entries_def in_set_conv_nth [of _ "_ :: _ list list"] split: option.splits)

lemma add_node:
  assumes "buckets_ok sc m" "node_ok sc n"
  shows "buckets_ok sc (MapAddNode n m)" "mset (entries (MapAddNode n m)) = add_mset n (mset (entries m))"
    "mp_nodeSize (MapAddNode n m) = mp_nodeSize m" "mp_bucketSize (MapAddNode n m) = mp_bucketSize m"
proof -
  let ?i = "MapHashIdx m (mn_hash n)"
  have i: "?i < length (the (mp_nodes m))" using assms(1) by (rule hash_idx)
  then have new: "\<forall>k \<in> set (n # the (mp_nodes m) ! ?i). node_ok sc k \<and> MapHashIdx m (mn_hash k) = ?i"
    using assms bucket_nodes by fastforce
  note p = put_bucket [OF assms(1) i new]
  show "buckets_ok sc (MapAddNode n m)" using p(1) by (simp add: MapAddNode_def Let_def)
  show "mset (entries (MapAddNode n m)) = add_mset n (mset (entries m))" using p(2) by (simp add: MapAddNode_def Let_def)
qed (simp_all add: MapAddNode_def Let_def)

lemma add_nodes:
  "\<lbrakk>buckets_ok sc m; \<forall>n \<in> set ns. node_ok sc n\<rbrakk> \<Longrightarrow>
   buckets_ok sc (foldl (\<lambda>m n. MapAddNode n m) m ns) \<and>
   mset (entries (foldl (\<lambda>m n. MapAddNode n m) m ns)) = mset ns + mset (entries m) \<and>
   mp_nodeSize (foldl (\<lambda>m n. MapAddNode n m) m ns) = mp_nodeSize m \<and>
   mp_bucketSize (foldl (\<lambda>m n. MapAddNode n m) m ns) = mp_bucketSize m"
  by (induction ns arbitrary: m) (simp_all add: add_node)

lemma map_ok_mset:
  assumes "buckets_ok sc m'" "8 \<le> unat (mp_bucketSize m')" "unat (mp_bucketSize m') \<le> 67108864"
    "mset (entries m') = mset ns" "distinct (map mn_key ns)" "unat (mp_nodeSize m') = length ns"
  shows "map_ok sc m'"
proof -
  have "mset (map mn_key (entries m')) = mset (map mn_key ns)" using assms(4) by simp
  then have "distinct (map mn_key (entries m'))" using assms(5) mset_eq_imp_distinct_iff by blast
  moreover have "length (entries m') = length ns" using assms(4) by (rule mset_eq_length)
  moreover have "mp_nodes m' \<noteq> None" using assms(1) by (rule buckets_not_null)
  ultimately show ?thesis using assms by (auto simp: map_ok_def)
qed

lemma view_mset:
  assumes "mset (entries m) = mset (entries m')" "distinct (map mn_key (entries m))"
  shows "map_view m = map_view m'"
proof
  fix k
  have "set (entries m) = set (entries m')" using assms(1) by (metis set_mset_mset)
  moreover have "distinct (map mn_key (entries m'))"
    using assms by (metis mset_eq_imp_distinct_iff mset_map)
  ultimately show "map_view m k = map_view m' k" using assms(2) by (intro option_eqI) (simp add: view_iff)
qed

subsection \<open>Growing\<close>

lemma resize:
  assumes ok: "map_ok sc m" and n: "8 \<le> unat n" "unat n \<le> 268435456" and r: "MapResize e n m = (st, m')"
  shows "map_ok sc m' \<and> mset (entries m') = mset (entries m) \<and> mp_nodeSize m' = mp_nodeSize m \<and> (st = SOFTBUS_OK \<longrightarrow> mp_nodes m' \<noteq> None) \<and>
    (mp_nodes m \<noteq> None \<longrightarrow> mp_nodes m' \<noteq> None)"
proof (cases "SoftBusCalloc e 0 (unat n * 8 mod 2 ^ 32)")
  case True
  have "unat n * 8 mod 2 ^ 32 = unat n * 8" using n(2) by simp
  then have le: "unat n \<le> 67108864" using SoftBusCalloc_le [OF True] by simp
  define m1 where "m1 = m\<lparr>mp_nodes := Some (replicate (unat n) []), mp_bucketSize := n\<rparr>"
  have m1: "buckets_ok sc m1" "entries m1 = []" "mp_bucketSize m1 = n" "mp_nodeSize m1 = mp_nodeSize m"
    using n(1) by (auto simp: buckets_ok_def m1_def entries_def)
  have nodes: "\<forall>x \<in> set (entries m). node_ok sc x"
    using ok entry_bucket [of sc m] by (auto simp: map_ok_def entries_def split: if_splits)
  have m': "m' = foldl (\<lambda>m node. MapAddNode node m) m1 (entries m)" "st = SOFTBUS_OK"
    using r True by (auto simp: MapResize_def m1_def entries_def Let_def split: option.splits)
  note a = add_nodes [OF m1(1) nodes]
  have "map_ok sc m'"
    by (rule map_ok_mset [of _ _ "entries m"]) (use a m1 m' n le ok in \<open>simp_all add: map_ok_def\<close>)
  moreover have "mp_nodes m' \<noteq> None" using a m'(1) buckets_not_null by blast
  ultimately show ?thesis using a m1 m' by simp
next
  case False
  then show ?thesis using r ok by (auto simp: MapResize_def)
qed

lemma enlarge:
  assumes ok: "map_ok sc m"
  shows "map_ok sc (map_enlarge e m)" "mset (entries (map_enlarge e m)) = mset (entries m)"
    "mp_nodeSize (map_enlarge e m) = mp_nodeSize m" "healthy e \<Longrightarrow> mp_nodes (map_enlarge e m) \<noteq> None"
proof -
  define n where "n = (if mp_bucketSize m < HDF_MIN_MAP_SIZE then HDF_MIN_MAP_SIZE else push_bit HDF_ENLARGE_FACTOR (mp_bucketSize m))"
  have nn: "unat n = (if mp_nodes m = None then 8 else unat (mp_bucketSize m) * 4)"
  proof (cases "mp_nodes m = None")
    case True
    then show ?thesis using ok by (simp add: n_def map_ok_def)
  next
    case False
    then have b: "8 \<le> unat (mp_bucketSize m)" "unat (mp_bucketSize m) \<le> 67108864" using ok by (auto simp: map_ok_def)
    then have "\<not> mp_bucketSize m < 8" by (simp add: word_less_nat_alt)
    moreover have "unat (push_bit 2 (mp_bucketSize m)) = unat (mp_bucketSize m) * 4"
      using b by (simp add: push_bit_eq_mult unat_word_ariths)
    ultimately show ?thesis using False by (auto simp: n_def)
  qed
  from nn have n: "8 \<le> unat n" "unat n \<le> 268435456" using ok by (auto simp: map_ok_def split: if_splits)
  obtain st m' where r: "MapResize e n m = (st, m')" by (cases "MapResize e n m")
  have st: "st = SOFTBUS_OK" if "healthy e" "mp_nodes m = None"
  proof -
    have "unat n * 8 mod 2 ^ 32 = 64" using nn that by simp
    then show ?thesis using r that by (simp add: MapResize_def healthy_SoftBusCalloc split: if_splits)
  qed
  have "mp_bucketSize m \<le> mp_nodeSize m" if "mp_nodes m = None" using ok that by (simp add: map_ok_def)
  note this st resize [OF ok n r]
  moreover have "map_enlarge e m = (if mp_nodeSize m \<ge> mp_bucketSize m then m' else m)"
    using r by (simp add: map_enlarge_def n_def)
  ultimately show "map_ok sc (map_enlarge e m)" "mset (entries (map_enlarge e m)) = mset (entries m)"
    "mp_nodeSize (map_enlarge e m) = mp_nodeSize m" "healthy e \<Longrightarrow> mp_nodes (map_enlarge e m) \<noteq> None"
    using ok by auto
qed

subsection \<open>Searching and writing\<close>

lemma key_unique: "\<lbrakk>distinct (map mn_key ns); a \<in> set ns; b \<in> set ns; mn_key a = mn_key b\<rbrakk> \<Longrightarrow> a = b"
  by (metis distinct_map inj_onD)

lemma search_iff:
  assumes ok: "map_ok sc m"
  shows "map_search sc k m = Some n \<longleftrightarrow> n \<in> set (entries m) \<and> mn_key n = k"
proof (cases "mp_nodes m")
  case None
  then show ?thesis by (simp add: map_search_def entries_def)
next
  case (Some bs)
  then have b: "buckets_ok sc m" "distinct (map mn_key (entries m))" "mp_nodeSize m = 0 \<longleftrightarrow> entries m = []"
    using ok by (auto simp: map_ok_def unat_eq_0)
  let ?h = "MapHash sc (Some k)"
  let ?b = "bs ! MapHashIdx m ?h"
  have i: "MapHashIdx m ?h < length bs" using hash_idx [OF b(1)] Some by simp
  have fwd: "n \<in> set (entries m) \<and> mn_key n = k" if "find (node_is ?h k) ?b = Some n" for n
    using that bucket_nodes [OF b(1)] i Some by (auto simp: find_Some_iff node_is_def)
  have bwd: "find (node_is ?h k) ?b = Some n" if n: "n \<in> set (entries m)" "mn_key n = k"
  proof -
    have "n \<in> set ?b" "node_is ?h k n" using entry_bucket [OF b(1) n(1)] n(2) Some by (auto simp: node_ok_def node_is_def)
    then obtain n' where n': "find (node_is ?h k) ?b = Some n'" by (cases "find (node_is ?h k) ?b") (auto simp: find_None_iff)
    then show ?thesis using fwd key_unique [OF b(2)] n by blast
  qed
  show ?thesis using fwd bwd b(3) by (auto simp: map_search_def Some Let_def)
qed

lemma search_view: "map_ok sc m \<Longrightarrow> map_option (\<lambda>n. (mn_valueSize n, mn_value n)) (map_search sc k m) = map_view m k"
  by (rule option_eqI) (auto simp: search_iff view_iff map_ok_def)

lemma upd_first_mset: "find P xs = Some n \<Longrightarrow> add_mset n (mset (upd_first P f xs)) = add_mset (f n) (mset xs)"
  by (induction xs) (auto split: if_splits)

lemma upd_first_set: "find P xs = Some n \<Longrightarrow> set (upd_first P f xs) \<subseteq> insert (f n) (set xs)"
  by (induction xs) (auto split: if_splits)

lemma del_node_mset: "find P xs = Some n \<Longrightarrow> add_mset n (mset (del_node P xs)) = mset xs"
  by (induction xs) (auto split: if_splits)

lemma del_node_set: "set (del_node P xs) \<subseteq> set xs"
  by (induction xs) auto

text \<open>The bucket a search looks at.\<close>

lemma search_bucket:
  assumes ok: "map_ok sc m" and s: "map_search sc k m = Some n"
  shows "buckets_ok sc m" "find (node_is (MapHash sc (Some k)) k) (the (mp_nodes m) ! MapHashIdx m (MapHash sc (Some k))) = Some n"
    "node_ok sc n" "mn_hash n = MapHash sc (Some k)" "mn_key n = k" "mp_nodeSize m \<noteq> 0"
proof -
  show b: "buckets_ok sc m" using assms by (auto simp: map_ok_def map_search_def split: if_splits option.splits)
  show "find (node_is (MapHash sc (Some k)) k) (the (mp_nodes m) ! MapHashIdx m (MapHash sc (Some k))) = Some n" "mp_nodeSize m \<noteq> 0"
    using s by (auto simp: map_search_def Let_def split: if_splits option.splits)
  have n: "n \<in> set (entries m)" "mn_key n = k" using s by (simp_all add: search_iff [OF ok])
  then show "node_ok sc n" "mn_hash n = MapHash sc (Some k)" "mn_key n = k"
    using entry_bucket [OF b n(1)] by (auto simp: node_ok_def)
qed

lemma distinct_Cons_map: "distinct (k # map f xs) \<Longrightarrow> \<forall>x \<in> set xs. f x \<noteq> k"
  by auto

lemma view_add_mset:
  assumes "mset (entries m') = add_mset n (mset (entries m))" "distinct (map mn_key (entries m'))" "distinct (map mn_key (entries m))"
  shows "map_view m' = (map_view m)(mn_key n \<mapsto> (mn_valueSize n, mn_value n))"
proof (rule ext, rule option_eqI)
  fix k y
  have s: "set (entries m') = insert n (set (entries m))" using assms(1) by (metis set_mset_add_mset_insert set_mset_mset)
  have "mset (map mn_key (entries m')) = mset (mn_key n # map mn_key (entries m))" using assms(1) by simp
  then have "distinct (mn_key n # map mn_key (entries m))" using assms(2) mset_eq_imp_distinct_iff by blast
  then have "\<forall>x \<in> set (entries m). mn_key x \<noteq> mn_key n" by (rule distinct_Cons_map)
  then show "map_view m' k = Some y \<longleftrightarrow> ((map_view m)(mn_key n \<mapsto> (mn_valueSize n, mn_value n))) k = Some y"
    using assms s by (auto simp: view_iff)
qed

lemma write_node:
  assumes ok: "map_ok sc m" and s: "map_search sc k m = Some n"
    and f: "\<And>n. mn_key (f n) = mn_key n \<and> mn_hash (f n) = mn_hash n \<and> mn_valueSize (f n) = mn_valueSize n"
  shows "map_ok sc (upd_node (MapHash sc (Some k)) k f m)"
    "map_view (upd_node (MapHash sc (Some k)) k f m) = (map_view m)(k \<mapsto> (mn_valueSize n, mn_value (f n)))"
proof -
  let ?h = "MapHash sc (Some k)"
  let ?i = "MapHashIdx m ?h"
  let ?m = "upd_node ?h k f m"
  note b = search_bucket [OF ok s]
  have i: "?i < length (the (mp_nodes m))" using b(1) by (rule hash_idx)
  have "node_ok sc (f n) \<and> MapHashIdx m (mn_hash (f n)) = ?i" using f [of n] b(3,4) by (simp add: node_ok_def)
  then have "\<forall>x \<in> set (upd_first (node_is ?h k) f (the (mp_nodes m) ! ?i)). node_ok sc x \<and> MapHashIdx m (mn_hash x) = ?i"
    using upd_first_set [OF b(2), of f] bucket_nodes [OF b(1) i] by blast
  note p = put_bucket [OF b(1) i this]
  have fields: "mp_bucketSize ?m = mp_bucketSize m" "mp_nodeSize ?m = mp_nodeSize m" by (simp_all add: upd_node_def Let_def)
  let ?b = "the (mp_nodes m) ! ?i"
  have "add_mset n (mset (entries ?m)) + mset ?b = mset (entries m) + add_mset n (mset (upd_first (node_is ?h k) f ?b))"
    using p(2) by (simp add: upd_node_def Let_def)
  also have "\<dots> = add_mset (f n) (mset (entries m)) + mset ?b" by (simp add: upd_first_mset [OF b(2)])
  finally have ms: "add_mset n (mset (entries ?m)) = add_mset (f n) (mset (entries m))" by (rule add_right_imp_eq)
  obtain ns where ns: "mset (entries m) = add_mset n (mset ns)"
    using s by (metis search_iff [OF ok] ex_mset insert_DiffM set_mset_mset)
  have m': "mset (entries ?m) = mset (f n # ns)" using ms ns by simp
  have d: "distinct (map mn_key (entries m))" using ok by (simp add: map_ok_def)
  have "mset (map mn_key (entries m)) = mset (map mn_key (f n # ns))" using ns f [of n] by simp
  then have d': "distinct (map mn_key (f n # ns))" using d mset_eq_imp_distinct_iff by blast
  have "length (entries m) = length (f n # ns)" using ns by (metis length_Cons mset.simps(2) mset_eq_length)
  then show "map_ok sc ?m"
    using ok b(1) d' m' p(1) buckets_not_null [OF b(1)]
    by (intro map_ok_mset [of _ _ "f n # ns"]) (auto simp: fields map_ok_def, simp_all add: upd_node_def Let_def)
  then have d2: "distinct (map mn_key (entries ?m))" by (simp add: map_ok_def)
  show "map_view ?m = (map_view m)(k \<mapsto> (mn_valueSize n, mn_value (f n)))"
  proof (rule ext, rule option_eqI)
    fix x y
    have sets: "set (entries m) = insert n (set ns)" "set (entries ?m) = insert (f n) (set ns)"
      using ns m' by (metis set_mset_add_mset_insert set_mset_mset, metis list.simps(15) set_mset_mset)
    have "\<forall>x \<in> set ns. mn_key x \<noteq> k" using d' f [of n] b(5) by (intro distinct_Cons_map) simp
    then show "map_view ?m x = Some y \<longleftrightarrow> ((map_view m)(k \<mapsto> (mn_valueSize n, mn_value (f n)))) x = Some y"
      using d d2 f [of n] b(5) by (auto simp: view_iff sets)
  qed
qed

subsection \<open>What the operations do to the promised function\<close>

definition set_status :: "(bytes \<Rightarrow> (u32 \<times> 'v) option) \<Rightarrow> bytes \<Rightarrow> u32 \<Rightarrow> status" where
  "set_status M k z =
     (if z = 0 \<or> z > HDF_MAP_VALUE_MAX_SIZE \<or> length k > HDF_MAP_KEY_MAX_SIZE then SOFTBUS_INVALID_PARAM
      else case M k of Some (z', v) \<Rightarrow> if z' \<noteq> z then SOFTBUS_INVALID_PARAM else SOFTBUS_OK | None \<Rightarrow> SOFTBUS_OK)"

lemma get_view: "map_ok sc m \<Longrightarrow> LnnMapGet sc (Some m) (Some k) = map_option snd (map_view m k)"
  by (simp add: LnnMapGet_def option.map_comp comp_def flip: search_view)

lemma create_healthy:
  "\<lbrakk>healthy e; length k \<le> HDF_MAP_KEY_MAX_SIZE; 0 < z; z \<le> HDF_MAP_VALUE_MAX_SIZE\<rbrakk> \<Longrightarrow>
   MapCreateNode e k h v z = Some \<lparr>mn_hash = h, mn_valueSize = z, mn_key = k, mn_value = v\<rparr>"
proof -
  assume h: "healthy e" and k: "length k \<le> HDF_MAP_KEY_MAX_SIZE" and z: "0 < z" "z \<le> HDF_MAP_VALUE_MAX_SIZE"
  have z': "0 < unat z" "unat z \<le> 3000" using z by (simp_all add: word_less_nat_alt word_le_nat_alt)
  let ?n = "length k + 1 + (4 - (length k + 1) mod 4)"
  have "memcpy_ok e ?n (length k + 1)" "memcpy_ok e (unat z) (unat z)" "SoftBusCalloc e 1 (SIZEOF_MAP_NODE + ?n + unat z)"
    using h k z' by (auto intro!: securec_memcpy healthy_securec healthy_SoftBusCalloc)
  then show ?thesis by (simp only: MapCreateNode_def Let_def not_True_eq_False if_False)
qed

lemma insert_node:
  assumes ok: "map_ok sc m" and nodes: "mp_nodes m \<noteq> None" and n: "node_ok sc n" and new: "map_view m (mn_key n) = None"
    and room: "length (entries m) < 2 ^ 32 - 1"
  shows "map_ok sc ((MapAddNode n m)\<lparr>mp_nodeSize := mp_nodeSize (MapAddNode n m) + 1\<rparr>)" (is "map_ok sc ?m")
    "map_view ((MapAddNode n m)\<lparr>mp_nodeSize := mp_nodeSize (MapAddNode n m) + 1\<rparr>) = (map_view m)(mn_key n \<mapsto> (mn_valueSize n, mn_value n))"
proof -
  have b: "buckets_ok sc m" "8 \<le> unat (mp_bucketSize m)" "unat (mp_bucketSize m) \<le> 67108864" "distinct (map mn_key (entries m))"
    "unat (mp_nodeSize m) = length (entries m)"
    using ok nodes by (auto simp: map_ok_def)
  note a = add_node [OF b(1) n]
  have e: "entries ?m = entries (MapAddNode n m)" by (simp add: entries_def)
  have "buckets_ok sc ?m" using a(1) by (simp add: buckets_ok_def cong: option.case_cong)
  moreover have "distinct (map mn_key (n # entries m))" using b(4) new view_dom [of m] by (auto simp: domIff)
  moreover have "unat (mp_nodeSize m + 1) = Suc (length (entries m))" using room b(5) by (simp add: unat_word_ariths)
  ultimately show ok': "map_ok sc ?m" by (intro map_ok_mset [of _ _ "n # entries m"]) (use a b e in simp_all)
  show "map_view ?m = (map_view m)(mn_key n \<mapsto> (mn_valueSize n, mn_value n))"
    by (rule view_add_mset) (use a(2) b(4) e ok' in \<open>simp_all add: map_ok_def\<close>)
qed

lemma set_step:
  assumes ok: "map_ok sc m" and room: "length (entries m) < 2 ^ 32 - 1"
    and r: "LnnMapSet sc e (Some m) (Some k) (Some v) z = (st, mo)"
  shows "\<exists>m'. mo = Some m' \<and> map_ok sc m' \<and> map_view m' = (if st = SOFTBUS_OK then (map_view m)(k \<mapsto> (z, v)) else map_view m)"
    and "healthy e \<Longrightarrow> st = set_status (map_view m) k z"
proof -
  have "(\<exists>m'. mo = Some m' \<and> map_ok sc m' \<and> map_view m' = (if st = SOFTBUS_OK then (map_view m)(k \<mapsto> (z, v)) else map_view m)) \<and>
    (healthy e \<longrightarrow> st = set_status (map_view m) k z)"
  proof (cases "z = 0 \<or> z > HDF_MAP_VALUE_MAX_SIZE \<or> length k > HDF_MAP_KEY_MAX_SIZE")
    case True
    then have "st = SOFTBUS_INVALID_PARAM" "mo = Some m" using r by (auto simp: LnnMapSet_def split: if_splits)
    then show ?thesis using True ok by (simp add: set_status_def)
  next
    case args: False
    then have args': "0 < z" "z \<le> HDF_MAP_VALUE_MAX_SIZE" "length k \<le> HDF_MAP_KEY_MAX_SIZE" by (auto simp: word_neq_0_conv)
    show ?thesis
    proof (cases "map_search sc k m")
      case (Some n)
      have v: "map_view m k = Some (mn_valueSize n, mn_value n)" using search_view [OF ok, of k] Some by simp
      have mc: "healthy e \<Longrightarrow> memcpy_ok e (unat z) (unat z)"
        using args' by (intro securec_memcpy healthy_securec) (simp_all add: word_less_nat_alt word_le_nat_alt)
      note w = write_node [OF ok Some, of "\<lambda>node. node\<lparr>mn_value := v\<rparr>"]
      consider "mn_valueSize n \<noteq> z" "st = SOFTBUS_INVALID_PARAM" "mo = Some m"
        | "mn_valueSize n = z" "\<not> healthy e" "st = SOFTBUS_ERR" "mo = Some m"
        | "mn_valueSize n = z" "st = SOFTBUS_OK" "mo = Some (upd_node (MapHash sc (Some k)) k (\<lambda>node. node\<lparr>mn_value := v\<rparr>) m)"
        using r args Some mc by (auto simp: LnnMapSet_def Let_def split: if_splits)
      then show ?thesis using v w ok args by cases (auto simp: set_status_def)
    next
      case None
      have v: "map_view m k = None" using search_view [OF ok, of k] None by simp
      define m1 where "m1 = map_enlarge e m"
      note e = enlarge [OF ok, of e, folded m1_def]
      have v1: "map_view m1 = map_view m" using e(2) ok by (intro view_mset) (auto simp: map_ok_def mset_eq_imp_distinct_iff [of "map mn_key (entries m1)" "map mn_key (entries m)"])
      have room1: "length (entries m1) < 2 ^ 32 - 1" using room mset_eq_length [OF e(2)] by simp
      consider "st \<noteq> SOFTBUS_OK" "mo = Some m1" "healthy e \<Longrightarrow> False"
        | n where "mp_nodes m1 \<noteq> None" "st = SOFTBUS_OK" "n = \<lparr>mn_hash = MapHash sc (Some k), mn_valueSize = z, mn_key = k, mn_value = v\<rparr>"
          "mo = Some ((MapAddNode n m1)\<lparr>mp_nodeSize := mp_nodeSize (MapAddNode n m1) + 1\<rparr>)"
        using r args None e(4) create_healthy [of e k z _ v] args'
        by (auto simp: LnnMapSet_def Let_def MapCreateNode_def m1_def [symmetric] split: if_splits option.splits)
      then show ?thesis
      proof cases
        case 1
        then show ?thesis using e(1) v1 by auto
      next
        case (2 n)
        then have "node_ok sc n" using args' by (simp add: node_ok_def)
        from insert_node [OF e(1) 2(1) this _ room1] 2 v v1 args show ?thesis by (simp add: set_status_def)
      qed
    qed
  qed
  then show "\<exists>m'. mo = Some m' \<and> map_ok sc m' \<and> map_view m' = (if st = SOFTBUS_OK then (map_view m)(k \<mapsto> (z, v)) else map_view m)"
    "healthy e \<Longrightarrow> st = set_status (map_view m) k z" by blast+
qed

lemma write_view:
  assumes "map_ok sc m"
  shows "map_ok sc (LnnMapGet_write sc k f m)" "map_view (LnnMapGet_write sc k f m) = (map_view m)(k := map_option (\<lambda>(z, v). (z, f v)) (map_view m k))"
proof -
  have "map_ok sc (LnnMapGet_write sc k f m) \<and>
    map_view (LnnMapGet_write sc k f m) = (map_view m)(k := map_option (\<lambda>(z, v). (z, f v)) (map_view m k))"
  proof (cases "map_search sc k m")
    case None
    then have "map_view m k = None" using search_view [OF assms, of k] by simp
    then have "(map_view m)(k := map_option (\<lambda>(z, v). (z, f v)) (map_view m k)) = map_view m" by auto
    then show ?thesis using assms None by (simp add: LnnMapGet_write_def)
  next
    case (Some n)
    have "map_view m k = Some (mn_valueSize n, mn_value n)" using search_view [OF assms, of k] Some by simp
    then show ?thesis
      using write_node [OF assms Some, of "\<lambda>node. node\<lparr>mn_value := f (mn_value node)\<rparr>"] Some
      by (simp add: LnnMapGet_write_def)
  qed
  then show "map_ok sc (LnnMapGet_write sc k f m)"
    "map_view (LnnMapGet_write sc k f m) = (map_view m)(k := map_option (\<lambda>(z, v). (z, f v)) (map_view m k))" by blast+
qed

lemma upd_first_map: "\<lbrakk>distinct (map g xs); \<And>x. x \<in> set xs \<Longrightarrow> P x \<longleftrightarrow> g x = k\<rbrakk> \<Longrightarrow> upd_first P f xs = map (\<lambda>x. if g x = k then f x else x) xs"
  by (induction xs) (auto simp: rev_image_eqI intro!: map_idI [symmetric])

text \<open>Writing through a value keeps the order of the nodes.\<close>

lemma write_entries:
  assumes ok: "map_ok sc m"
  shows "entries (LnnMapGet_write sc k f m) = map (\<lambda>n. if mn_key n = k then n\<lparr>mn_value := f (mn_value n)\<rparr> else n) (entries m)"
proof (cases "map_search sc k m")
  case None
  then have "mn_key n \<noteq> k" if "n \<in> set (entries m)" for n using search_iff [OF ok, of k n] that by auto
  then show ?thesis using None by (simp add: LnnMapGet_write_def map_idI)
next
  case (Some n)
  note b = search_bucket [OF ok Some]
  let ?h = "MapHash sc (Some k)"
  let ?i = "MapHashIdx m ?h"
  let ?bs = "the (mp_nodes m)"
  let ?g = "\<lambda>n. if mn_key n = k then n\<lparr>mn_value := f (mn_value n)\<rparr> else n"
  have i: "?i < length ?bs" using b(1) by (rule hash_idx)
  have e: "entries m = concat ?bs" using buckets_not_null [OF b(1)] by (auto simp: entries_def)
  then have d: "distinct (map mn_key (concat ?bs))" using ok by (simp add: map_ok_def)
  have nd: "node_ok sc x \<and> MapHashIdx m (mn_hash x) = j" if "j < length ?bs" "x \<in> set (?bs ! j)" for j x
    using bucket_nodes [OF b(1) that(1)] that(2) by blast
  have "upd_first (node_is ?h k) (\<lambda>n. n\<lparr>mn_value := f (mn_value n)\<rparr>) (?bs ! ?i) = map ?g (?bs ! ?i)"
  proof (rule upd_first_map)
    show "distinct (map mn_key (?bs ! ?i))" using d i by (simp add: map_concat distinct_concat_iff)
    show "node_is ?h k x \<longleftrightarrow> mn_key x = k" if "x \<in> set (?bs ! ?i)" for x using nd [OF i that] by (auto simp: node_is_def node_ok_def)
  qed
  moreover have "map ?g (?bs ! j) = ?bs ! j" if j: "j < length ?bs" "j \<noteq> ?i" for j
  proof (rule map_idI)
    fix x assume "x \<in> set (?bs ! j)"
    from nd [OF j(1) this] have "mn_key x \<noteq> k" using j(2) by (auto simp: node_ok_def)
    then show "?g x = x" by simp
  qed
  ultimately have "?bs[?i := upd_first (node_is ?h k) (\<lambda>n. n\<lparr>mn_value := f (mn_value n)\<rparr>) (?bs ! ?i)] = map (map ?g) ?bs"
    by (intro nth_equalityI [of "_ :: _ list list"]) (simp_all add: i nth_list_update)
  then show ?thesis
    using Some by (simp add: LnnMapGet_write_def upd_node_def Let_def e map_concat) (simp add: entries_def)
qed

lemma erase_step:
  assumes ok: "map_ok sc m" and r: "LnnMapErase sc (Some m) (Some k) = (st, mo)"
  shows "\<exists>m'. mo = Some m' \<and> map_ok sc m' \<and> map_view m' = (map_view m)(k := None)" "st = SOFTBUS_OK \<longleftrightarrow> map_view m k \<noteq> None"
proof -
  let ?h = "MapHash sc (Some k)"
  let ?i = "MapHashIdx m ?h"
  have "(\<exists>m'. mo = Some m' \<and> map_ok sc m' \<and> map_view m' = (map_view m)(k := None)) \<and> (st = SOFTBUS_OK \<longleftrightarrow> map_view m k \<noteq> None)"
  proof (cases "map_search sc k m")
    case None
    then have "map_view m k = None" using search_view [OF ok, of k] by simp
    moreover have "st \<noteq> SOFTBUS_OK" "mo = Some m"
      using r None by (auto simp: LnnMapErase_def map_search_def Let_def split: if_splits)
    ultimately show ?thesis using ok by (simp add: fun_upd_idem)
  next
    case (Some n)
    note b = search_bucket [OF ok Some]
    let ?b = "the (mp_nodes m) ! ?i"
    let ?x = "del_node (node_is ?h k) ?b"
    define m' where "m' = m\<lparr>mp_nodes := Some ((the (mp_nodes m))[?i := ?x]), mp_nodeSize := mp_nodeSize m - 1\<rparr>"
    have i: "?i < length (the (mp_nodes m))" using b(1) by (rule hash_idx)
    have "\<forall>y \<in> set ?x. node_ok sc y \<and> MapHashIdx m (mn_hash y) = ?i"
      by (intro ballI) (simp add: bucket_nodes [OF b(1) i] subsetD [OF del_node_set])
    note p = put_bucket [OF b(1) i this]
    have e: "entries m' = entries (m\<lparr>mp_nodes := Some ((the (mp_nodes m))[?i := ?x])\<rparr>)" by (simp add: m'_def entries_def)
    have "mset ?b = add_mset n (mset ?x)" by (rule del_node_mset [OF b(2), symmetric])
    then have "add_mset n (mset (entries m')) + mset ?x = mset (entries m') + mset ?b" by simp
    also have "\<dots> = mset (entries m) + mset ?x" using p(2) by (simp add: e)
    finally have ms: "mset (entries m) = add_mset n (mset (entries m'))" by (rule add_right_imp_eq [symmetric])
    have d: "distinct (map mn_key (entries m))" using ok by (simp add: map_ok_def)
    have "mset (map mn_key (entries m)) = mset (mn_key n # map mn_key (entries m'))" using ms by simp
    then have d': "distinct (mn_key n # map mn_key (entries m'))" using d mset_eq_imp_distinct_iff by blast
    have sz: "unat (mp_nodeSize m) = Suc (length (entries m'))"
      using ok ms by (metis (no_types, lifting) length_Cons map_ok_def mset.simps(2) mset_eq_length)
    then have "unat (mp_nodeSize m - 1) = length (entries m')" using b(6) by (simp add: unat_minus_one)
    moreover have "buckets_ok sc m'" using p(1) by (simp add: m'_def buckets_ok_def)
    ultimately have ok': "map_ok sc m'"
      using ok d' buckets_not_null [OF b(1)] by (intro map_ok_mset [of _ _ "entries m'"]) (auto simp: map_ok_def m'_def)
    have "map_view m = (map_view m')(k \<mapsto> (mn_valueSize n, mn_value n))"
      using view_add_mset [OF ms d] d' b(5) by simp
    moreover have "map_view m' k = None" using d' b(5) view_dom [of m'] by auto
    ultimately have "map_view m' = (map_view m)(k := None)" "map_view m k \<noteq> None" by auto
    moreover have "st = SOFTBUS_OK" "mo = Some m'"
      using r b buckets_not_null [OF b(1)] by (auto simp: LnnMapErase_def Let_def m'_def)
    ultimately show ?thesis using ok' by blast
  qed
  then show "\<exists>m'. mo = Some m' \<and> map_ok sc m' \<and> map_view m' = (map_view m)(k := None)" "st = SOFTBUS_OK \<longleftrightarrow> map_view m k \<noteq> None"
    by blast+
qed

subsection \<open>The interface of a table\<close>

text \<open>
  What the users of a table rely on: a successful insertion sets the key and nothing else, an
  erasure clears it, a failed call changes nothing. \<open>cap\<close> bounds the number of keys.
\<close>

datatype ('e, 'k, 'x) table_op = Put 'e 'k 'x | Erase 'k

fun table_run ::
  "('e \<Rightarrow> 'k \<Rightarrow> 'x \<Rightarrow> 's \<Rightarrow> status \<times> 's) \<Rightarrow> ('k \<Rightarrow> 's \<Rightarrow> status \<times> 's) \<Rightarrow> ('e, 'k, 'x) table_op list \<Rightarrow> 's \<Rightarrow> status list \<times> 's" where
  "table_run put erase [] s = ([], s)"
| "table_run put erase (Put e k x # ops) s =
     (let (st, s) = put e k x s; (sts, s) = table_run put erase ops s in (st # sts, s))"
| "table_run put erase (Erase k # ops) s =
     (let (st, s) = erase k s; (sts, s) = table_run put erase ops s in (st # sts, s))"

text \<open>The function that results from the calls that reported success.\<close>

fun replay :: "('e, 'k, 'x) table_op list \<Rightarrow> status list \<Rightarrow> ('k \<Rightarrow> 'x option) \<Rightarrow> 'k \<Rightarrow> 'x option" where
  "replay (Put e k x # ops) (st # sts) M = replay ops sts (if st = SOFTBUS_OK then M(k \<mapsto> x) else M)"
| "replay (Erase k # ops) (st # sts) M = replay ops sts (M(k := None))"
| "replay _ _ M = M"

locale keyed_table =
  fixes ok :: "'s \<Rightarrow> bool" and view :: "'s \<Rightarrow> 'k \<Rightarrow> 'x option" and cap :: nat
    and put :: "'e \<Rightarrow> 'k \<Rightarrow> 'x \<Rightarrow> 's \<Rightarrow> status \<times> 's" and erase :: "'k \<Rightarrow> 's \<Rightarrow> status \<times> 's"
  assumes finite_view: "ok s \<Longrightarrow> finite (dom (view s))"
    and put_law: "\<lbrakk>ok s; card (dom (view s)) < cap; put e k x s = (st, s')\<rbrakk> \<Longrightarrow>
      ok s' \<and> view s' = (if st = SOFTBUS_OK then (view s)(k \<mapsto> x) else view s)"
    and erase_law: "\<lbrakk>ok s; erase k s = (st, s')\<rbrakk> \<Longrightarrow>
      ok s' \<and> view s' = (view s)(k := None) \<and> (st = SOFTBUS_OK \<longleftrightarrow> view s k \<noteq> None)"
begin

lemma put_get: "\<lbrakk>ok s; card (dom (view s)) < cap; put e k x s = (SOFTBUS_OK, s')\<rbrakk> \<Longrightarrow> view s' k = Some x"
  using put_law [of s e k x SOFTBUS_OK s'] by simp

lemma put_card: "\<lbrakk>ok s; card (dom (view s)) < cap; put e k x s = (st, s')\<rbrakk> \<Longrightarrow> card (dom (view s')) \<le> Suc (card (dom (view s)))"
  using put_law [of s e k x st s'] finite_view [of s] by (auto simp: card_insert_if)

lemma erase_card: "\<lbrakk>ok s; erase k s = (st, s')\<rbrakk> \<Longrightarrow> card (dom (view s')) \<le> card (dom (view s))"
  using erase_law [of s k st s'] finite_view [of s] by (auto intro!: card_mono)

theorem run_replay:
  "\<lbrakk>ok s; card (dom (view s)) + length ops \<le> cap; table_run put erase ops s = (sts, s')\<rbrakk> \<Longrightarrow>
   ok s' \<and> view s' = replay ops sts (view s) \<and> card (dom (view s')) \<le> card (dom (view s)) + length ops"
proof (induction ops arbitrary: s sts)
  case (Cons op ops)
  show ?case
  proof (cases op)
    case (Put e k x)
    obtain st s1 where p: "put e k x s = (st, s1)" by (cases "put e k x s")
    obtain sts' where r: "table_run put erase ops s1 = (sts', s')" "sts = st # sts'"
      using Cons.prems(3) by (auto simp: Put p Let_def split: prod.splits)
    have lt: "card (dom (view s)) < cap" using Cons.prems(2) by simp
    note l = put_law [OF Cons.prems(1) lt p] put_card [OF Cons.prems(1) lt p]
    then have "ok s1" "card (dom (view s1)) + length ops \<le> cap" using Cons.prems(2) by (blast, simp)
    note ih = Cons.IH [OF this r(1)]
    have "replay (op # ops) sts (view s) = replay ops sts' (view s1)" using l(1) by (simp add: Put r)
    then show ?thesis using ih l(2) by auto
  next
    case (Erase k)
    obtain st s1 where p: "erase k s = (st, s1)" by (cases "erase k s")
    obtain sts' where r: "table_run put erase ops s1 = (sts', s')" "sts = st # sts'"
      using Cons.prems(3) by (auto simp: Erase p Let_def split: prod.splits)
    note l = erase_law [OF Cons.prems(1) p] erase_card [OF Cons.prems(1) p]
    then have "ok s1" "card (dom (view s1)) + length ops \<le> cap" using Cons.prems(2) by (blast, simp)
    note ih = Cons.IH [OF this r(1)]
    have "replay (op # ops) sts (view s) = replay ops sts' (view s1)" using l(1) by (simp add: Erase r)
    then show ?thesis using ih l(2) by auto
  qed
qed simp

end

definition map_put :: "bool \<Rightarrow> env \<Rightarrow> bytes \<Rightarrow> u32 \<times> 'v \<Rightarrow> 'v lnn_map \<Rightarrow> status \<times> 'v lnn_map" where
  "map_put sc e k x m = (let (st, mo) = LnnMapSet sc e (Some m) (Some k) (Some (snd x)) (fst x) in (st, the mo))"

definition map_erase :: "bool \<Rightarrow> bytes \<Rightarrow> 'v lnn_map \<Rightarrow> status \<times> 'v lnn_map" where
  "map_erase sc k m = (let (st, mo) = LnnMapErase sc (Some m) (Some k) in (st, the mo))"

lemma map_ok_card: "map_ok sc m \<Longrightarrow> card (dom (map_view m)) = length (entries m)"
  by (simp add: card_view map_ok_def)

lemma put_step:
  "\<lbrakk>map_ok sc m; card (dom (map_view m)) < 2 ^ 32 - 1; map_put sc e k x m = (st, m')\<rbrakk> \<Longrightarrow>
   map_ok sc m' \<and> map_view m' = (if st = SOFTBUS_OK then (map_view m)(k \<mapsto> x) else map_view m)"
  using set_step(1) [of sc m e k "snd x" "fst x"] by (auto simp: map_ok_card map_put_def split: prod.splits)

interpretation lnn_table: keyed_table "map_ok sc" map_view "2 ^ 32 - 1" "map_put sc" "map_erase sc"
proof
  show "finite (dom (map_view m))" for m :: "'v lnn_map" by (simp add: map_view_def finite_dom_map_of)
  show "map_ok sc m' \<and> map_view m' = (if st = SOFTBUS_OK then (map_view m)(k \<mapsto> x) else map_view m)"
    if "map_ok sc m" "card (dom (map_view m)) < 2 ^ 32 - 1" "map_put sc e k x m = (st, m')" for e k x st and m m' :: "'v lnn_map"
    using that by (rule put_step)
  show "map_ok sc m' \<and> map_view m' = (map_view m)(k := None) \<and> (st = SOFTBUS_OK \<longleftrightarrow> map_view m k \<noteq> None)"
    if "map_ok sc m" "map_erase sc k m = (st, m')" for k st and m m' :: "'v lnn_map"
    using that erase_step [of sc m k] by (auto simp: map_erase_def split: prod.splits)
qed

lemma map_ok_init: "map_ok sc LnnMapInit" "map_view LnnMapInit = Map.empty"
  by (simp_all add: map_ok_def LnnMapInit_def entries_def map_view_def)

lemma map_ok_delete: "map_ok sc m \<Longrightarrow> LnnMapDelete m = LnnMapInit"
  by (cases m) (auto simp: LnnMapDelete_def LnnMapInit_def map_ok_def entries_def unat_eq_0 split: option.splits)

text \<open>Without failures of the environment every call reports what the function before it says.\<close>

fun expected :: "(env, bytes, u32 \<times> 'v) table_op list \<Rightarrow> (bytes \<Rightarrow> (u32 \<times> 'v) option) \<Rightarrow> status list" where
  "expected [] M = []"
| "expected (Put e k x # ops) M =
     (let st = set_status M k (fst x) in st # expected ops (if st = SOFTBUS_OK then M(k \<mapsto> x) else M))"
| "expected (Erase k # ops) M =
     (if M k \<noteq> None then SOFTBUS_OK else if M = Map.empty then SOFTBUS_INVALID_PARAM else SOFTBUS_ERR) # expected ops (M(k := None))"

lemma erase_status:
  assumes "map_ok sc m" "map_erase sc k m = (st, m')"
  shows "st = (if map_view m k \<noteq> None then SOFTBUS_OK else if map_view m = Map.empty then SOFTBUS_INVALID_PARAM else SOFTBUS_ERR)"
proof (cases "map_view m k")
  case None
  have "map_view m = Map.empty \<longleftrightarrow> entries m = []" using view_dom [of m] by auto
  also have "\<dots> \<longleftrightarrow> mp_nodeSize m = 0" using assms(1) by (auto simp: map_ok_def unat_eq_0)
  finally have e: "map_view m = Map.empty \<longleftrightarrow> mp_nodeSize m = 0" .
  have "map_search sc k m = None" using search_view [OF assms(1), of k] None by simp
  moreover have "mp_nodes m = None \<longrightarrow> mp_nodeSize m = 0" using assms(1) by (auto simp: map_ok_def entries_def unat_eq_0)
  ultimately show ?thesis
    using assms(2) None e
    by (auto simp: map_erase_def LnnMapErase_def map_search_def Let_def split: if_splits prod.splits)
next
  case (Some x)
  then show ?thesis using lnn_table.erase_law [OF assms] by simp
qed

lemma run_expected:
  "\<lbrakk>map_ok sc m; length (entries m) + length ops \<le> 2 ^ 32 - 1; \<forall>e k x. Put e k x \<in> set ops \<longrightarrow> healthy e\<rbrakk> \<Longrightarrow>
   fst (table_run (map_put sc) (map_erase sc) ops m) = expected ops (map_view m)"
proof (induction ops arbitrary: m)
  case (Cons op ops)
  show ?case
  proof (cases op)
    case (Put e k x)
    obtain st m1 where p: "map_put sc e k x m = (st, m1)" by (cases "map_put sc e k x m")
    have lt: "length (entries m) < 2 ^ 32 - 1" using Cons.prems(2) by simp
    have "healthy e" using Cons.prems(3) Put by (metis list.set_intros(1))
    then have st: "st = set_status (map_view m) k (fst x)"
      using set_step(2) [OF Cons.prems(1) lt, of e k "snd x" "fst x"] p by (auto simp: map_put_def split: prod.splits)
    have lt': "card (dom (map_view m)) < 2 ^ 32 - 1" using lt Cons.prems(1) by (simp add: map_ok_card)
    note l = put_step [OF Cons.prems(1) lt' p] lnn_table.put_card [OF Cons.prems(1) lt' p]
    then have "map_ok sc m1" "length (entries m1) \<le> Suc (length (entries m))"
      using map_ok_card [OF Cons.prems(1)] map_ok_card [of sc m1] by (blast, metis)
    then have "fst (table_run (map_put sc) (map_erase sc) ops m1) = expected ops (map_view m1)"
      using Cons.prems(2,3) by (intro Cons.IH) auto
    with l(1) st show ?thesis by (auto simp: Put p Let_def split: prod.splits)
  next
    case (Erase k)
    obtain st m1 where p: "map_erase sc k m = (st, m1)" by (cases "map_erase sc k m")
    note l = lnn_table.erase_law [OF Cons.prems(1) p] lnn_table.erase_card [OF Cons.prems(1) p]
    then have "map_ok sc m1" "length (entries m1) \<le> length (entries m)"
      using map_ok_card [OF Cons.prems(1)] map_ok_card [of sc m1] by (blast, metis)
    then have "fst (table_run (map_put sc) (map_erase sc) ops m1) = expected ops (map_view m1)"
      using Cons.prems(2,3) by (intro Cons.IH) auto
    with l(1) erase_status [OF Cons.prems(1) p] show ?thesis by (auto simp: Erase p Let_def split: prod.splits)
  qed
qed simp

subsection \<open>The iterator\<close>

text \<open>The nodes an iterator has still to visit.\<close>

definition remaining :: "'v lnn_map \<Rightarrow> 'v MapIterator \<Rightarrow> 'v MapNode list" where
  "remaining m it = tl (it_node it) @ concat (drop (unat (it_bucketNum it)) (the (mp_nodes m)))"

lemma next_bucket_spec:
  "\<lbrakk>mp_nodes m = Some bs; length bs < 2 ^ 32; unat (it_bucketNum it) + n = length bs; concat (drop (unat (it_bucketNum it)) bs) \<noteq> []\<rbrakk> \<Longrightarrow>
   let it' = next_bucket m n it in
     it_nodeNum it' = it_nodeNum it + 1 \<and> it_node it' \<noteq> [] \<and> unat (it_bucketNum it') \<le> length bs \<and>
     it_node it' @ concat (drop (unat (it_bucketNum it')) bs) = concat (drop (unat (it_bucketNum it)) bs)"
proof (induction n arbitrary: it)
  case (Suc n)
  let ?j = "unat (it_bucketNum it)"
  have j: "?j < length bs" using Suc.prems(3) by simp
  then have suc: "unat (it_bucketNum it + 1) = Suc ?j" using Suc.prems(2) by (simp add: unat_word_ariths)
  have d: "drop ?j bs = bs ! ?j # drop (Suc ?j) bs" using j by (simp add: Cons_nth_drop_Suc)
  show ?case
  proof (cases "bs ! ?j = []")
    case True
    with Suc.IH [of "it\<lparr>it_bucketNum := it_bucketNum it + 1\<rparr>"] Suc.prems suc d show ?thesis
      by (simp add: Let_def)
  next
    case False
    then show ?thesis using Suc.prems suc d j by (simp add: Let_def)
  qed
qed simp

lemma iterate_remaining:
  "\<lbrakk>mp_nodes m = Some bs; length bs = unat (mp_bucketSize m); unat (it_bucketNum it) \<le> length bs;
    unat (it_nodeNum it) + length (remaining m it) = unat (mp_nodeSize m); length (remaining m it) < fuel\<rbrakk> \<Longrightarrow>
   iterate fuel m it = Some (remaining m it)"
proof (induction fuel arbitrary: it)
  case (Suc fuel)
  have b: "length bs < 2 ^ 32" using Suc.prems(2) unsigned_less [of "mp_bucketSize m", where 'a = nat] by simp
  show ?case
  proof (cases "remaining m it = []")
    case True
    then have "unat (it_nodeNum it) = unat (mp_nodeSize m)" using Suc.prems(4) by simp
    then have "it_nodeNum it = mp_nodeSize m" by (rule word_unat_eq_iff [THEN iffD2])
    then have "\<not> LnnMapHasNext m it" by (simp add: LnnMapHasNext_def)
    then show ?thesis using True by simp
  next
    case False
    then have less: "unat (it_nodeNum it) < unat (mp_nodeSize m)" using Suc.prems(4) by (cases "remaining m it") auto
    then have has: "LnnMapHasNext m it" by (simp add: LnnMapHasNext_def word_less_nat_alt)
    have suc: "unat (it_nodeNum it + 1) = Suc (unat (it_nodeNum it))"
      using less unsigned_less [of "mp_nodeSize m", where 'a = nat] by (simp add: unat_word_ariths)
    have "\<exists>it'. LnnMapNext m (Some it) = Some it' \<and> unat (it_nodeNum it') = Suc (unat (it_nodeNum it)) \<and>
        unat (it_bucketNum it') \<le> length bs \<and> remaining m it = hd (it_node it') # remaining m it'"
    proof (cases "it_node it \<noteq> [] \<and> tl (it_node it) \<noteq> []")
      case True
      then show ?thesis using has suc Suc.prems(3) by (auto simp: LnnMapNext_def remaining_def)
    next
      case tl: False
      define it' where "it' = next_bucket m (unat (mp_bucketSize m) - unat (it_bucketNum it)) it"
      have "tl (it_node it) = []" using tl by auto
      then have r: "remaining m it = concat (drop (unat (it_bucketNum it)) bs)" using Suc.prems(1) by (simp add: remaining_def)
      have "it_nodeNum it' = it_nodeNum it + 1 \<and> it_node it' \<noteq> [] \<and> unat (it_bucketNum it') \<le> length bs \<and>
          it_node it' @ concat (drop (unat (it_bucketNum it')) bs) = remaining m it"
        using next_bucket_spec [OF Suc.prems(1) b, of it "unat (mp_bucketSize m) - unat (it_bucketNum it)"] Suc.prems(2,3) False r
        by (simp add: it'_def Let_def)
      moreover have "LnnMapNext m (Some it) = Some it'" using has tl by (auto simp: LnnMapNext_def it'_def)
      ultimately show ?thesis using suc Suc.prems(1) by (cases "it_node it'") (auto simp: remaining_def)
    qed
    then obtain it' where "LnnMapNext m (Some it) = Some it'" "unat (it_nodeNum it') = Suc (unat (it_nodeNum it))"
      "unat (it_bucketNum it') \<le> length bs" "remaining m it = hd (it_node it') # remaining m it'" by blast
    with Suc.IH [of it'] Suc.prems has show ?thesis by simp
  qed
qed simp

lemma iterate_entries:
  assumes "map_ok sc m" "length (entries m) < fuel" "LnnMapInitIterator e (Some m) = Some it"
  shows "iterate fuel m it = Some (entries m)"
proof (cases "mp_nodes m")
  case None
  then show ?thesis
    using assms by (cases fuel) (auto simp: map_ok_def entries_def LnnMapInitIterator_def LnnMapHasNext_def unat_eq_0 split: if_splits)
next
  case (Some bs)
  have it: "it = \<lparr>it_node = [], it_nodeNum = 0, it_bucketNum = 0\<rparr>"
    using assms(3) by (auto simp: LnnMapInitIterator_def split: if_splits)
  have "length bs = unat (mp_bucketSize m)" using assms(1) Some by (auto simp: map_ok_def buckets_ok_def)
  moreover have "remaining m it = entries m" using Some by (simp add: remaining_def it entries_def)
  ultimately show ?thesis
    using iterate_remaining [OF Some, of it fuel] assms(1,2) by (simp add: map_ok_def it)
qed

subsection \<open>Properties\<close>

text \<open>
  C4. The hash map is a finite function. For any sequence of insertions and erasures on a new map, with
  any allocations and copies failing, the map answers a lookup with exactly the value of the last
  successful insertion not followed by an erasure, and its size is the number of keys; when
  nothing fails each call reports what its arguments and the function before it require: an
  insertion fails only for an empty or oversized value, an oversized key, or a value of another
  size than the one it replaces.
\<close>

theorem lnn_map_refines_function:
  assumes "length ops < 2 ^ 32"
  shows "\<exists>sts m. table_run (map_put sc) (map_erase sc) ops LnnMapInit = (sts, m) \<and>
      (\<forall>k. LnnMapGet sc (Some m) (Some k) = map_option snd (replay ops sts Map.empty k)) \<and>
      unat (MapGetSize (Some m)) = card (dom (replay ops sts Map.empty)) \<and>
      ((\<forall>e k x. Put e k x \<in> set ops \<longrightarrow> healthy e) \<longrightarrow> sts = expected ops Map.empty)"
proof -
  obtain sts m where r: "table_run (map_put sc) (map_erase sc) ops LnnMapInit = (sts, m)"
    by (cases "table_run (map_put sc) (map_erase sc) ops LnnMapInit")
  have "card (dom (map_view LnnMapInit)) + length ops \<le> 2 ^ 32 - 1" using assms by (simp add: map_ok_init)
  from lnn_table.run_replay [OF map_ok_init(1) this r] have m: "map_ok sc m" "map_view m = replay ops sts Map.empty"
    by (simp_all add: map_ok_init)
  have n: "length (entries (LnnMapInit :: 'a lnn_map)) + length ops \<le> 2 ^ 32 - 1" using assms by (simp add: entries_def LnnMapInit_def)
  have "(\<forall>e k x. Put e k x \<in> set ops \<longrightarrow> healthy e) \<longrightarrow> sts = expected ops Map.empty"
    by (rule impI) (use run_expected [OF map_ok_init(1) n, of sc] r in \<open>simp add: map_ok_init del: split_paired_All\<close>)
  moreover have "unat (MapGetSize (Some m)) = card (dom (map_view m))" using map_ok_card [OF m(1)] m(1) by (simp add: MapGetSize_def map_ok_def)
  ultimately show ?thesis using r m get_view [OF m(1)] by auto
qed

definition sample_ops :: "(env, bytes, u32 \<times> nat) table_op list" where
  "sample_ops = [Put ideal_env [65] (2, 10), Put ideal_env [66] (2, 11), Put ideal_env [65] (4, 12), Erase [66]]"

theorem lnn_map_refines_function_witness:
  "\<exists>sts m. table_run (map_put True) (map_erase True) sample_ops LnnMapInit = (sts, m) \<and>
      (\<forall>k. LnnMapGet True (Some m) (Some k) = map_option snd (replay sample_ops sts Map.empty k)) \<and>
      unat (MapGetSize (Some m)) = card (dom (replay sample_ops sts Map.empty)) \<and>
      ((\<forall>e k x. Put e k x \<in> set sample_ops \<longrightarrow> healthy e) \<longrightarrow> sts = expected sample_ops Map.empty)"
  by (rule lnn_map_refines_function) (simp add: sample_ops_def)

text \<open>
  C15. Well-formedness of the map. Every operation (insertion, erasure, writing through a pointer
  obtained from a lookup, deletion of the map), whatever fails in it, keeps the map well formed:
  each node carries the hash of its key and is in the bucket of that hash, no key occurs twice, keys
  and values are within their sizes, the array has the number of buckets the map says, at most
  \<open>2 ^ 26\<close>, and the count of nodes is exact.
\<close>

theorem lnn_map_well_formed:
  assumes "map_ok sc m" "length (entries m) < 2 ^ 32 - 1"
  shows "map_ok sc LnnMapInit \<and> map_ok sc (LnnMapDelete m) \<and>
    (\<exists>m'. snd (LnnMapSet sc e (Some m) key value z) = Some m' \<and> map_ok sc m') \<and>
    (\<exists>m'. snd (LnnMapErase sc (Some m) key) = Some m' \<and> map_ok sc m') \<and>
    map_ok sc (LnnMapGet_write sc k f m)"
proof (intro conjI)
  show "\<exists>m'. snd (LnnMapSet sc e (Some m) key value z) = Some m' \<and> map_ok sc m'"
  proof (cases "key = None \<or> value = None")
    case True
    then show ?thesis using assms(1) by (auto simp: LnnMapSet_def split: option.splits)
  next
    case False
    then obtain k v where kv: "key = Some k" "value = Some v" by auto
    obtain st mo where r: "LnnMapSet sc e (Some m) (Some k) (Some v) z = (st, mo)" by fastforce
    from set_step(1) [OF assms r] show ?thesis by (auto simp: kv r)
  qed
  show "\<exists>m'. snd (LnnMapErase sc (Some m) key) = Some m' \<and> map_ok sc m'"
  proof (cases key)
    case None
    then show ?thesis using assms(1) by (simp add: LnnMapErase_def)
  next
    case (Some k)
    obtain st mo where r: "LnnMapErase sc (Some m) (Some k) = (st, mo)" by fastforce
    from erase_step(1) [OF assms(1) r] show ?thesis by (auto simp: Some r)
  qed
qed (simp_all add: map_ok_init map_ok_delete [OF assms(1)] write_view(1) [OF assms(1)])

theorem lnn_map_well_formed_witness:
  "map_ok True LnnMapInit \<and> map_ok True (LnnMapDelete (LnnMapInit :: nat lnn_map)) \<and>
    (\<exists>m'. snd (LnnMapSet True ideal_env (Some LnnMapInit) (Some [65]) (Some (7 :: nat)) 2) = Some m' \<and> map_ok True m') \<and>
    (\<exists>m'. snd (LnnMapErase True (Some (LnnMapInit :: nat lnn_map)) (Some [65])) = Some m' \<and> map_ok True m') \<and>
    map_ok True (LnnMapGet_write True [65] Suc LnnMapInit)"
  by (rule lnn_map_well_formed) (simp_all add: map_ok_init, simp add: entries_def LnnMapInit_def)

text \<open>
  C36. Iteration is complete. On a well-formed map, the loop of the callers over
  \<^verbatim>\<open>LnnMapHasNext\<close> and \<^verbatim>\<open>LnnMapNext\<close> ends after one round per node and visits each key exactly once,
  with the value a lookup of that key gives.
\<close>

theorem lnn_map_iterates_all:
  assumes "map_ok sc m" "LnnMapInitIterator e (Some m) = Some it" "unat (mp_nodeSize m) < fuel"
  shows "\<exists>ns. iterate fuel m it = Some ns \<and> length ns = unat (mp_nodeSize m) \<and> distinct (map mn_key ns) \<and>
    (\<forall>n \<in> set ns. LnnMapGet sc (Some m) (Some (mn_key n)) = Some (mn_value n)) \<and>
    (\<forall>k. LnnMapGet sc (Some m) (Some k) \<noteq> None \<longrightarrow> k \<in> mn_key ` set ns)"
proof (intro exI conjI)
  show "iterate fuel m it = Some (entries m)"
    by (rule iterate_entries [OF assms(1) _ assms(2)]) (use assms in \<open>simp add: map_ok_def\<close>)
  show "length (entries m) = unat (mp_nodeSize m)" "distinct (map mn_key (entries m))" using assms(1) by (simp_all add: map_ok_def)
  show "\<forall>n \<in> set (entries m). LnnMapGet sc (Some m) (Some (mn_key n)) = Some (mn_value n)"
    using assms(1) by (auto simp: LnnMapGet_def search_iff intro!: exI)
  show "\<forall>k. LnnMapGet sc (Some m) (Some k) \<noteq> None \<longrightarrow> k \<in> mn_key ` set (entries m)"
    using assms(1) by (auto simp: LnnMapGet_def search_iff)
qed

definition sample_map :: "nat lnn_map" where
  "sample_map = snd (table_run (map_put True) (map_erase True) sample_ops LnnMapInit)"

lemma sample_map_ok: "map_ok True sample_map"
  using lnn_table.run_replay [OF map_ok_init(1), of sample_ops True "fst (table_run (map_put True) (map_erase True) sample_ops LnnMapInit)" sample_map]
  by (simp add: map_ok_init sample_map_def) (simp add: sample_ops_def)

theorem lnn_map_iterates_all_witness:
  "\<exists>ns. iterate (Suc (unat (mp_nodeSize sample_map))) sample_map \<lparr>it_node = [], it_nodeNum = 0, it_bucketNum = 0\<rparr> = Some ns \<and>
    length ns = unat (mp_nodeSize sample_map) \<and> distinct (map mn_key ns) \<and>
    (\<forall>n \<in> set ns. LnnMapGet True (Some sample_map) (Some (mn_key n)) = Some (mn_value n)) \<and>
    (\<forall>k. LnnMapGet True (Some sample_map) (Some k) \<noteq> None \<longrightarrow> k \<in> mn_key ` set ns)"
  by (rule lnn_map_iterates_all [OF sample_map_ok, of ideal_env]) (simp_all add: LnnMapInitIterator_def healthy_SoftBusCalloc)

end
