(* ===== verification/Softbus_Utils.thy ===== *)
theory Softbus_Utils
  imports Softbus_Prelude
begin

text \<open>
  The conversions of \<^verbatim>\<open>core/common/utils/softbus_utils.c\<close>: hexadecimal strings, Bluetooth addresses,
  letter case, masking of addresses and identifiers, random strings and the table of timer callbacks.
  A buffer is the list of its bytes, so its length is its real size, whatever size the caller states;
  a null pointer is \<open>None\<close>. Reading or writing outside a buffer is undefined. A C string is the list of
  the bytes before its terminator.
\<close>

unbundle bit_operations_syntax

subsection \<open>Buffers\<close>

text \<open>Writing bytes to the front of a buffer, and reading bytes from it.\<close>

definition write_front :: "bytes \<Rightarrow> bytes \<Rightarrow> bytes outcome" where
  "write_front w buf = (if length w \<le> length buf then Done (w @ drop (length w) buf) else Undef)"

definition read_front :: "nat \<Rightarrow> bytes \<Rightarrow> bytes outcome" where
  "read_front n buf = (if n \<le> length buf then Done (take n buf) else Undef)"

lemma write_front_Done: "length w \<le> length buf \<Longrightarrow> write_front w buf = Done (w @ drop (length w) buf)"
  by (simp add: write_front_def)

lemma read_front_Done: "n \<le> length buf \<Longrightarrow> read_front n buf = Done (take n buf)"
  by (simp add: read_front_def)

subsection \<open>Hexadecimal strings\<close>

definition hex_char :: "u8 \<Rightarrow> u8 \<Rightarrow> u8" where
  "hex_char letter d = (if d < 10 then 48 + d else letter + d - 10)"

definition hex_byte :: "u8 \<Rightarrow> u8 \<Rightarrow> bytes" where
  "hex_byte letter b = [hex_char letter (b div 16), hex_char letter (b mod 16)]"

definition HEXIFY_LEN :: "u32 \<Rightarrow> u32" where
  "HEXIFY_LEN len = len * 2 + 1"

definition hexify :: "u8 \<Rightarrow> bytes option \<Rightarrow> u32 \<Rightarrow> bytes option \<Rightarrow> u32 \<Rightarrow> (status \<times> bytes option) outcome" where
  "hexify letter outBuf outBufLen inBuf inLen =
     (case (outBuf, inBuf) of
        (Some out, Some inp) \<Rightarrow>
          if outBufLen < HEXIFY_LEN inLen then Done (SOFTBUS_ERR, outBuf)
          else bind_outcome (read_front (unat inLen) inp) (\<lambda>bs.
            bind_outcome (write_front (concat (map (hex_byte letter) bs)) out) (\<lambda>out. Done (SOFTBUS_OK, Some out)))
      | _ \<Rightarrow> Done (SOFTBUS_ERR, outBuf))"

definition ConvertBytesToUpperCaseHexString :: "bytes option \<Rightarrow> u32 \<Rightarrow> bytes option \<Rightarrow> u32 \<Rightarrow> (status \<times> bytes option) outcome" where
  "ConvertBytesToUpperCaseHexString = hexify 65"

definition ConvertBytesToHexString :: "bytes option \<Rightarrow> u32 \<Rightarrow> bytes option \<Rightarrow> u32 \<Rightarrow> (status \<times> bytes option) outcome" where
  "ConvertBytesToHexString = hexify 97"

definition hex_value :: "u8 \<Rightarrow> u8 option" where
  "hex_value c =
     (if c \<ge> 48 \<and> c \<le> 57 then Some (c - 48)
      else if c \<ge> 97 \<and> c \<le> 102 then Some (c - (97 - 10))
      else if c \<ge> 65 \<and> c \<le> 70 then Some (c - (65 - 10))
      else None)"

text \<open>The loop over \<open>n\<close> pairs of characters: what it wrote, and whether it met one that is no digit.\<close>

fun unhex_loop :: "nat \<Rightarrow> bytes \<Rightarrow> (status \<times> bytes) outcome" where
  "unhex_loop 0 cs = Done (SOFTBUS_OK, [])"
| "unhex_loop (Suc n) [] = Undef"
| "unhex_loop (Suc n) (c # cs) =
     (case hex_value c of
        None \<Rightarrow> Done (SOFTBUS_ERR, [])
      | Some h \<Rightarrow>
          (case cs of
             [] \<Rightarrow> Undef
           | c2 # cs \<Rightarrow>
               (case hex_value c2 of
                  None \<Rightarrow> Done (SOFTBUS_ERR, [])
                | Some l \<Rightarrow> bind_outcome (unhex_loop n cs) (\<lambda>(st, out). Done (st, (push_bit 4 h OR l) # out)))))"

definition ConvertHexStringToBytes :: "bytes option \<Rightarrow> u32 \<Rightarrow> bytes option \<Rightarrow> u32 \<Rightarrow> (status \<times> bytes option) outcome" where
  "ConvertHexStringToBytes outBuf outBufLen inBuf inLen =
     (case (outBuf, inBuf) of
        (Some out, Some inp) \<Rightarrow>
          if inLen mod 2 \<noteq> 0 then Done (SOFTBUS_INVALID_PARAM, outBuf)
          else if inLen div 2 > outBufLen then Done (SOFTBUS_ERR, outBuf)
          else bind_outcome (unhex_loop (unat (inLen div 2)) inp) (\<lambda>(st, w).
            bind_outcome (write_front w out) (\<lambda>out. Done (st, Some out)))
      | _ \<Rightarrow> Done (SOFTBUS_INVALID_PARAM, outBuf))"

subsection \<open>Random strings\<close>

text \<open>\<open>rand n\<close> is what the random number generator gives for \<open>n\<close> bytes, if it succeeds.\<close>

definition GenerateRandomStr :: "env \<Rightarrow> (u32 \<Rightarrow> bytes option) \<Rightarrow> bytes option \<Rightarrow> u32 \<Rightarrow> (status \<times> bytes option) outcome" where
  "GenerateRandomStr e rand str len =
     (if str = None \<or> len < 2 then Done (SOFTBUS_INVALID_PARAM, str)
      else let hexLen = len div 2 in
        if \<not> SoftBusMalloc e 0 (unat hexLen) then Done (SOFTBUS_MEM_ERR, str)
        else case rand hexLen of
          None \<Rightarrow> Done (SOFTBUS_ERR, str)
        | Some hexAuthId \<Rightarrow>
            bind_outcome (ConvertBytesToHexString str len (Some hexAuthId) hexLen) (\<lambda>(st, str).
              if st \<noteq> SOFTBUS_OK then Done (SOFTBUS_ERR, str) else Done (SOFTBUS_OK, str)))"

text \<open>\<open>hash s\<close> is the SHA-256 adapter.\<close>

definition GenerateStrHashAndConvertToHexString ::
  "(bytes \<Rightarrow> bytes + status) \<Rightarrow> bytes option \<Rightarrow> u32 \<Rightarrow> bytes option \<Rightarrow> u32 \<Rightarrow> (status \<times> bytes option) outcome" where
  "GenerateStrHashAndConvertToHexString hash str len hashStr hashStrLen =
     (if hashStrLen < HEXIFY_LEN (len div 2) then Done (SOFTBUS_INVALID_PARAM, hashStr)
      else case str of
        None \<Rightarrow> Done (SOFTBUS_INVALID_PARAM, hashStr)
      | Some s \<Rightarrow>
          (case hash s of
             Inr ret \<Rightarrow> Done (ret, hashStr)
           | Inl hashResult \<Rightarrow> ConvertBytesToHexString hashStr hashStrLen (Some hashResult) (len div 2)))"

definition IsValidString :: "bytes option \<Rightarrow> u32 \<Rightarrow> bool" where
  "IsValidString input maxLen =
     (case input of None \<Rightarrow> False | Some s \<Rightarrow> \<not> (length s = 0 \<or> length s > unat maxLen))"

subsection \<open>Bluetooth addresses\<close>

abbreviation (input) BT_MAC_LEN :: u32 where "BT_MAC_LEN \<equiv> 18"
abbreviation (input) BT_MAC_NO_COLON_LEN :: u32 where "BT_MAC_NO_COLON_LEN \<equiv> 13"
abbreviation (input) BT_ADDR_LEN :: u32 where "BT_ADDR_LEN \<equiv> 6"

text \<open>
  The library functions the code uses: the tokens \<^verbatim>\<open>strtok_r\<close> yields for one delimiter (the non-empty
  parts between delimiters), and \<^verbatim>\<open>strtoul\<close> in base 16 (white space, a sign, a prefix, then digits;
  out of range values saturate, a sign negates in 64 bits).
\<close>

fun split_at_delim :: "u8 \<Rightarrow> bytes \<Rightarrow> bytes \<Rightarrow> bytes list" where
  "split_at_delim d acc [] = [rev acc]"
| "split_at_delim d acc (c # cs) = (if c = d then rev acc # split_at_delim d [] cs else split_at_delim d (c # acc) cs)"

definition strtok_tokens :: "u8 \<Rightarrow> bytes \<Rightarrow> bytes list" where
  "strtok_tokens d s = filter (\<lambda>t. t \<noteq> []) (split_at_delim d [] s)"

fun hex_number :: "nat \<Rightarrow> bytes \<Rightarrow> nat" where
  "hex_number acc [] = acc"
| "hex_number acc (c # cs) = (case hex_value c of None \<Rightarrow> acc | Some h \<Rightarrow> hex_number (acc * 16 + unat h) cs)"

definition is_space :: "u8 \<Rightarrow> bool" where
  "is_space c \<longleftrightarrow> c = 32 \<or> c \<ge> 9 \<and> c \<le> 13"

fun drop_prefix :: "bytes \<Rightarrow> bytes" where
  "drop_prefix (a # b # c # cs) = (if a = 48 \<and> (b = 120 \<or> b = 88) \<and> hex_value c \<noteq> None then c # cs else a # b # c # cs)"
| "drop_prefix cs = cs"

definition strtoul16 :: "bytes \<Rightarrow> u64" where
  "strtoul16 s =
     (let s = dropWhile is_space s;
          neg = (s \<noteq> [] \<and> hd s = 45);
          s = (if s \<noteq> [] \<and> (hd s = 45 \<or> hd s = 43) then tl s else s);
          n = hex_number 0 (drop_prefix s)
      in if n \<ge> 2 ^ 64 then - 1 else if neg then - of_nat n else of_nat n)"

text \<open>The loop over six tokens: the bytes written and whether the tokens sufficed.\<close>

fun mac_loop :: "nat \<Rightarrow> bytes list \<Rightarrow> status \<times> bytes" where
  "mac_loop 0 ts = (SOFTBUS_OK, [])"
| "mac_loop (Suc n) ts =
     (case ts of
        [] \<Rightarrow> (SOFTBUS_ERR, [])
      | t # ts \<Rightarrow> let (st, bs) = mac_loop n ts in (st, ucast (strtoul16 t) # bs))"

text \<open>The copied bytes have to hold a terminator, or \<^verbatim>\<open>strtok_r\<close> reads past them.\<close>

definition ConvertBtMacToBinary :: "env \<Rightarrow> bytes option \<Rightarrow> u32 \<Rightarrow> bytes option \<Rightarrow> u32 \<Rightarrow> (status \<times> bytes option) outcome" where
  "ConvertBtMacToBinary e strMac strMacLen binMac binMacLen =
     (case (strMac, binMac) of
        (Some s, Some b) \<Rightarrow>
          if strMacLen < BT_MAC_LEN \<or> binMacLen < BT_ADDR_LEN then Done (SOFTBUS_INVALID_PARAM, binMac)
          else if \<not> SoftBusMalloc e 0 (unat strMacLen) then Done (SOFTBUS_MALLOC_ERR, binMac)
          else if \<not> memcpy_ok e (unat strMacLen) (unat strMacLen) then Done (SOFTBUS_MEM_ERR, binMac)
          else bind_outcome (read_front (unat strMacLen) s) (\<lambda>tmpMac.
            if 0 \<notin> set tmpMac then Undef
            else let (st, w) = mac_loop 6 (strtok_tokens 58 (takeWhile (\<lambda>c. c \<noteq> 0) tmpMac))
              in bind_outcome (write_front w b) (\<lambda>b. Done (st, Some b)))
      | _ \<Rightarrow> Done (SOFTBUS_INVALID_PARAM, binMac))"

definition mac_text :: "bytes \<Rightarrow> bytes \<Rightarrow> bytes" where
  "mac_text delim bs = concat (map (\<lambda>i. (if i = 0 then [] else delim) @ hex_byte 97 (bs ! i)) [0..<6])"

text \<open>\<^verbatim>\<open>snprintf_s\<close> writes the text and a terminator if both fit.\<close>

definition print_mac ::
  "bytes \<Rightarrow> bytes option \<Rightarrow> u32 \<Rightarrow> u32 \<Rightarrow> bytes option \<Rightarrow> u32 \<Rightarrow> (bytes \<Rightarrow> bytes) \<Rightarrow> (status \<times> bytes option) outcome" where
  "print_mac delim strMac strMacLen minLen binMac binMacLen f =
     (case (strMac, binMac) of
        (Some s, Some b) \<Rightarrow>
          if strMacLen < minLen \<or> binMacLen < BT_ADDR_LEN then Done (SOFTBUS_INVALID_PARAM, strMac)
          else bind_outcome (read_front 6 b) (\<lambda>bs.
            let t = mac_text delim (f bs) in
            if length t \<ge> unat strMacLen then Done (SOFTBUS_ERR, strMac)
            else bind_outcome (write_front (t @ [0]) s) (\<lambda>s. Done (SOFTBUS_OK, Some s)))
      | _ \<Rightarrow> Done (SOFTBUS_INVALID_PARAM, strMac))"

definition ConvertBtMacToStrNoColon :: "bytes option \<Rightarrow> u32 \<Rightarrow> bytes option \<Rightarrow> u32 \<Rightarrow> (status \<times> bytes option) outcome" where
  "ConvertBtMacToStrNoColon strMac strMacLen binMac binMacLen =
     print_mac [] strMac strMacLen BT_MAC_NO_COLON_LEN binMac binMacLen (\<lambda>bs. bs)"

definition ConvertBtMacToStr :: "bytes option \<Rightarrow> u32 \<Rightarrow> bytes option \<Rightarrow> u32 \<Rightarrow> (status \<times> bytes option) outcome" where
  "ConvertBtMacToStr strMac strMacLen binMac binMacLen = print_mac [58] strMac strMacLen BT_MAC_LEN binMac binMacLen (\<lambda>bs. bs)"

definition ConvertReverseBtMacToStr :: "bytes option \<Rightarrow> u32 \<Rightarrow> bytes option \<Rightarrow> u32 \<Rightarrow> (status \<times> bytes option) outcome" where
  "ConvertReverseBtMacToStr strMac strMacLen binMac binMacLen = print_mac [58] strMac strMacLen BT_MAC_LEN binMac binMacLen rev"

definition ConvertBtMacToU64 :: "env \<Rightarrow> bytes option \<Rightarrow> u32 \<Rightarrow> u64 option \<Rightarrow> (status \<times> u64 option) outcome" where
  "ConvertBtMacToU64 e strMac strMacLen u64Mac =
     (if strMac = None \<or> strMacLen < BT_MAC_LEN \<or> u64Mac = None then Done (SOFTBUS_INVALID_PARAM, u64Mac)
      else bind_outcome (ConvertBtMacToBinary e strMac BT_MAC_LEN (Some (replicate 6 0)) BT_ADDR_LEN) (\<lambda>(st, bin).
        if st \<noteq> SOFTBUS_OK then Done (SOFTBUS_ERR, u64Mac)
        else Done (SOFTBUS_OK, Some (foldl (\<lambda>v b. push_bit 8 v OR ucast b) 0 (the bin)))))"

text \<open>The loop fills the address from its last byte on.\<close>

fun u64_bytes :: "nat \<Rightarrow> u64 \<Rightarrow> bytes \<Rightarrow> bytes" where
  "u64_bytes 0 v acc = acc"
| "u64_bytes (Suc n) v acc = u64_bytes n (drop_bit 8 v) (ucast (v AND 0xFF) # acc)"

definition ConvertU64MacToStr :: "u64 \<Rightarrow> bytes option \<Rightarrow> u32 \<Rightarrow> (status \<times> bytes option) outcome" where
  "ConvertU64MacToStr u64Mac strMac strMacLen =
     (if strMac = None \<or> strMacLen < BT_MAC_LEN \<or> u64Mac = 0 then Done (SOFTBUS_INVALID_PARAM, strMac)
      else ConvertBtMacToStr strMac strMacLen (Some (u64_bytes 6 u64Mac [])) BT_ADDR_LEN)"

subsection \<open>Letter case\<close>

definition ToUpperCase :: "u8 \<Rightarrow> u8" where
  "ToUpperCase ch = (if ch \<ge> 97 \<and> ch \<le> 122 then ch - 97 + 65 else ch)"

definition ToLowerCase :: "u8 \<Rightarrow> u8" where
  "ToLowerCase ch = (if ch \<ge> 65 \<and> ch \<le> 90 then ch - 65 + 97 else ch)"

text \<open>The buffer is cleared up to the size given, then written without a look at that size.\<close>

definition case_copy :: "env \<Rightarrow> (u8 \<Rightarrow> u8) \<Rightarrow> bytes option \<Rightarrow> bytes option \<Rightarrow> nat \<Rightarrow> (status \<times> bytes option) outcome" where
  "case_copy e f str buf n =
     (case (str, buf) of
        (Some s, Some b) \<Rightarrow>
          bind_outcome (if memset_ok e n n then write_front (replicate n 0) b else Done b) (\<lambda>b.
            bind_outcome (write_front (map f s) b) (\<lambda>b. Done (SOFTBUS_OK, Some b)))
      | _ \<Rightarrow> Done (SOFTBUS_ERR, buf))"

definition StringToUpperCase :: "env \<Rightarrow> bytes option \<Rightarrow> bytes option \<Rightarrow> nat \<Rightarrow> (status \<times> bytes option) outcome" where
  "StringToUpperCase e = case_copy e ToUpperCase"

definition StringToLowerCase :: "env \<Rightarrow> bytes option \<Rightarrow> bytes option \<Rightarrow> nat \<Rightarrow> (status \<times> bytes option) outcome" where
  "StringToLowerCase e = case_copy e ToLowerCase"

fun cmp_loop :: "bytes \<Rightarrow> bytes \<Rightarrow> status" where
  "cmp_loop (a # as) (b # bs) = (if ToUpperCase a \<noteq> ToUpperCase b then SOFTBUS_ERR else cmp_loop as bs)"
| "cmp_loop as bs = (if as \<noteq> [] \<or> bs \<noteq> [] then SOFTBUS_ERR else SOFTBUS_OK)"

definition StrCmpIgnoreCase :: "bytes option \<Rightarrow> bytes option \<Rightarrow> status" where
  "StrCmpIgnoreCase str1 str2 = (case (str1, str2) of (Some a, Some b) \<Rightarrow> cmp_loop a b | _ \<Rightarrow> SOFTBUS_ERR)"

subsection \<open>Masking\<close>

text \<open>The loop of \<^verbatim>\<open>MacInstead\<close> and \<^verbatim>\<open>IpInstead\<close>: stars from one delimiter count up to another.\<close>

fun instead_loop :: "nat \<Rightarrow> nat \<Rightarrow> u8 \<Rightarrow> nat \<Rightarrow> nat \<Rightarrow> bytes \<Rightarrow> bytes outcome" where
  "instead_loop lo hi delim cnt 0 data = Done data"
| "instead_loop lo hi delim cnt (Suc n) data =
     (if cnt = hi then Done data
      else case data of
        [] \<Rightarrow> Undef
      | c # cs \<Rightarrow>
          (let cnt = (if c = delim then cnt + 1 else cnt)
           in bind_outcome (instead_loop lo hi delim cnt n cs) (\<lambda>cs.
             Done ((if cnt \<ge> lo \<and> c \<noteq> delim then 42 else c) # cs))))"

definition MacInstead :: "bytes \<Rightarrow> u32 \<Rightarrow> u8 \<Rightarrow> bytes outcome" where
  "MacInstead data len delim = (if len > 46 then Done data else instead_loop 2 4 delim 0 (unat len) data)"

definition IpInstead :: "bytes \<Rightarrow> u32 \<Rightarrow> u8 \<Rightarrow> bytes outcome" where
  "IpInstead data len delim = (if len > 48 then Done data else instead_loop 1 3 delim 0 (unat len) data)"

text \<open>The bound \<open>len - 1\<close> is computed in 32 bits; only the indices above half the length are written.\<close>

definition IdInstead :: "bytes \<Rightarrow> u32 \<Rightarrow> bytes outcome" where
  "IdInstead data len =
     (if len > 65 then Done data
      else let halfLen = unat (len div 2); bound = unat (len - 1) in
        if bound > halfLen + 1 \<and> bound > length data then Undef
        else Done (map (\<lambda>i. if i < bound \<and> i > halfLen then 42 else data ! i) [0..<length data]))"

definition DataMasking :: "env \<Rightarrow> bytes option \<Rightarrow> u32 \<Rightarrow> u8 \<Rightarrow> bytes \<Rightarrow> bytes outcome" where
  "DataMasking e data len delim container =
     (case data of
        None \<Rightarrow> Done container
      | Some d \<Rightarrow>
          if \<not> memcpy_ok e (unat len) (unat len) then Done container
          else bind_outcome (read_front (unat len) d) (\<lambda>w.
            bind_outcome (write_front w container) (\<lambda>container.
              if delim = 58 then MacInstead container len delim
              else if delim = 46 then IpInstead container len delim
              else if delim = 32 then IdInstead container len
              else Done container)))"

subsection \<open>Timer callbacks\<close>

abbreviation (input) SOFTBUS_MAX_TIMER_FUN_NUM :: int where "SOFTBUS_MAX_TIMER_FUN_NUM \<equiv> 11"

definition RegisterTimeoutCallback :: "int \<Rightarrow> 'f option \<Rightarrow> 'f option list \<Rightarrow> status \<times> 'f option list" where
  "RegisterTimeoutCallback timerFunId callback funs =
     (if callback = None \<or> timerFunId \<ge> SOFTBUS_MAX_TIMER_FUN_NUM \<or> timerFunId < 0 then (SOFTBUS_ERR, funs)
      else if funs ! nat timerFunId \<noteq> None then (SOFTBUS_OK, funs)
      else (SOFTBUS_OK, funs[nat timerFunId := callback]))"

text \<open>The callbacks a timeout calls, in order.\<close>

definition HandleTimeoutFun :: "'f option list \<Rightarrow> 'f list" where
  "HandleTimeoutFun funs = List.map_filter (\<lambda>f. f) funs"

subsection \<open>Digits\<close>

lemma hex_char_unat:
  assumes "d < 16" "l = 97 \<or> l = 65"
  shows "unat (hex_char l d) = (if unat d < 10 then 48 + unat d else unat l + unat d - 10)"
proof (cases "d < 10")
  case True
  then show ?thesis by (simp add: hex_char_def unat_word_ariths word_less_nat_alt)
next
  case False
  then have "unat (l + d) = unat l + unat d" using assms by (auto simp: unat_word_ariths word_less_nat_alt)
  then have "unat (l + d - 10) = unat l + unat d - 10"
    using assms(2) by (subst unat_sub) (auto simp: word_le_nat_alt)
  then show ?thesis using False by (simp add: hex_char_def word_less_nat_alt)
qed

lemma hex_value_char:
  "d < 16 \<Longrightarrow> hex_value (hex_char 97 d) = Some d" "d < 16 \<Longrightarrow> hex_value (hex_char 65 d) = Some d"
  using hex_char_unat [of d 97] hex_char_unat [of d 65]
  by (auto simp: hex_value_def word_le_nat_alt word_less_nat_alt, auto simp: hex_char_def word_less_nat_alt)

lemma hex_char_upper:
  "d < 16 \<Longrightarrow> ToUpperCase (hex_char 97 d) = hex_char 65 d" "d < 16 \<Longrightarrow> ToUpperCase (hex_char 65 d) = hex_char 65 d"
  using hex_char_unat [of d 97] hex_char_unat [of d 65]
  by (auto simp: ToUpperCase_def word_le_nat_alt word_less_nat_alt, auto simp: hex_char_def word_less_nat_alt)

lemma nibbles: "(b :: u8) div 16 < 16" "(b :: u8) mod 16 < 16" "push_bit 4 (b div 16) OR b mod 16 = (b :: u8)"
proof -
  have "unat b < 256" using unsigned_less [of b, where 'a = nat] by simp
  then show "b div 16 < 16" "b mod 16 < 16" by (simp_all add: word_less_nat_alt unat_div unat_mod)
  have "b div 16 = drop_bit 4 b" "b mod 16 = take_bit 4 b" by (simp_all add: drop_bit_eq_div take_bit_eq_mod)
  then show "push_bit 4 (b div 16) OR b mod 16 = b" by (simp, intro bit_word_eqI) (auto simp: bit_simps)
qed

lemmas hex_nibbles = hex_value_char [OF nibbles(1)] hex_value_char [OF nibbles(2)] hex_char_upper [OF nibbles(1)] hex_char_upper [OF nibbles(2)]

lemma unhex_hex_byte:
  assumes "l = 97 \<or> l = 65"
  shows "unhex_loop (Suc n) (hex_byte l b @ cs) = bind_outcome (unhex_loop n cs) (\<lambda>(st, out). Done (st, b # out))"
  using assms by (auto simp: hex_byte_def hex_nibbles nibbles(3))

lemma unhex_hex:
  "l = 97 \<or> l = 65 \<Longrightarrow> unhex_loop (length bs) (concat (map (hex_byte l) bs) @ rest) = Done (SOFTBUS_OK, bs)"
  by (induction bs) (simp_all add: unhex_hex_byte del: unhex_loop.simps(3))

lemma length_hex [simp]: "length (concat (map (hex_byte l) bs)) = 2 * length bs"
  by (induction bs) (simp_all add: hex_byte_def)

lemma upper_hex: "map ToUpperCase (concat (map (hex_byte 97) bs)) = concat (map (hex_byte 65) bs)"
  by (induction bs) (simp_all add: hex_byte_def hex_nibbles)

lemma cmp_loop_iff: "cmp_loop as bs = SOFTBUS_OK \<longleftrightarrow> map ToUpperCase as = map ToUpperCase bs"
  by (induction as bs rule: cmp_loop.induct) auto

lemma upper_idem [simp]: "ToUpperCase (ToUpperCase c) = ToUpperCase c"
proof -
  have "\<not> (97 \<le> c - 97 + 65 \<and> c - 97 + 65 \<le> 122)" if "97 \<le> c" "c \<le> 122"
  proof -
    have "unat (c - 97 + 65) = unat c - 32" using that by (simp add: word_le_nat_alt unat_word_ariths unat_sub_if')
    then show ?thesis using that by (simp add: word_le_nat_alt)
  qed
  then show ?thesis by (auto simp: ToUpperCase_def)
qed

lemma hexify_ok:
  assumes "2 * length bs + 1 < 2 ^ 32" "2 * length bs + 1 \<le> unat n" "2 * length bs \<le> length out"
  shows "hexify l (Some out) n (Some bs) (of_nat (length bs)) =
     Done (SOFTBUS_OK, Some (concat (map (hex_byte l) bs) @ drop (2 * length bs) out))"
proof -
  have u: "unat (of_nat (length bs) :: u32) = length bs" using assms(1) by (simp add: unat_of_nat)
  have "unat (HEXIFY_LEN (of_nat (length bs))) = 2 * length bs + 1"
    using assms(1) u by (simp add: HEXIFY_LEN_def unat_word_ariths)
  then have "\<not> n < HEXIFY_LEN (of_nat (length bs))" using assms(2) by (simp add: word_less_nat_alt)
  then show ?thesis using assms(3) u by (simp add: hexify_def read_front_Done write_front_Done)
qed

lemma unhex_ok:
  assumes "2 * length bs < 2 ^ 32" "length bs \<le> unat n" "length bs \<le> length back" "l = 97 \<or> l = 65"
  shows "ConvertHexStringToBytes (Some back) n (Some (concat (map (hex_byte l) bs) @ rest)) (of_nat (2 * length bs)) =
     Done (SOFTBUS_OK, Some (bs @ drop (length bs) back))"
proof -
  have u: "unat (of_nat (2 * length bs) :: u32) = 2 * length bs" using assms(1) by (simp only: unat_of_nat) simp
  then have "unat (of_nat (2 * length bs) mod 2 :: u32) = 0" "unat (of_nat (2 * length bs) div 2 :: u32) = length bs"
    by (simp_all only: unat_mod unat_div) simp_all
  then have "(of_nat (2 * length bs) :: u32) mod 2 = 0" "unat (of_nat (2 * length bs) div 2 :: u32) = length bs"
    by (simp_all only: unat_eq_0)
  moreover from this have "\<not> (of_nat (2 * length bs) :: u32) div 2 > n" using assms(2) by (simp only: word_less_nat_alt not_less)
  ultimately show ?thesis
    using unhex_hex [OF assms(4), of bs rest] assms(3)
    by (simp only: ConvertHexStringToBytes_def) (simp add: write_front_Done)
qed

subsection \<open>Addresses\<close>

lemma hex_char_plain:
  "c \<in> set (hex_byte 97 b) \<Longrightarrow> c \<noteq> 58 \<and> c \<noteq> 0 \<and> \<not> is_space c \<and> c \<noteq> 43 \<and> c \<noteq> 45"
proof -
  assume "c \<in> set (hex_byte 97 b)"
  then have "48 \<le> unat c \<and> unat c \<noteq> 58"
    using hex_char_unat [OF nibbles(1) [of b], of 97] hex_char_unat [OF nibbles(2) [of b], of 97]
    by (auto simp: hex_byte_def split: if_splits)
  then show ?thesis by (auto simp: is_space_def word_le_nat_alt)
qed

lemma split_plain: "58 \<notin> set t \<Longrightarrow> split_at_delim 58 acc (t @ rest) = split_at_delim 58 (rev t @ acc) rest"
  by (induction t arbitrary: acc) auto

lemma hex_byte_no_delim: "58 \<notin> set (hex_byte 97 b)" "0 \<notin> set (hex_byte 97 b)" "hex_byte 97 b \<noteq> []"
  using hex_char_plain [of _ b] by (auto, simp add: hex_byte_def)

lemma strtok_mac: "strtok_tokens 58 (mac_text [58] [a, b, c, d, e, f]) = map (hex_byte 97) [a, b, c, d, e, f]"
proof -
  have "mac_text [58] [a, b, c, d, e, f] =
      hex_byte 97 a @ 58 # hex_byte 97 b @ 58 # hex_byte 97 c @ 58 # hex_byte 97 d @ 58 # hex_byte 97 e @ 58 # hex_byte 97 f @ []"
    by (simp add: mac_text_def upt_rec)
  then show ?thesis
    by (simp only: strtok_tokens_def split_plain hex_byte_no_delim not_False_eq_True split_at_delim.simps if_True rev_append rev_rev_ident)
      (simp add: hex_byte_no_delim)
qed

lemma strtoul_hex: "strtoul16 (hex_byte 97 b) = ucast b"
proof -
  let ?h = "hex_char 97 (b div 16)" and ?l = "hex_char 97 (b mod 16)"
  have p: "\<not> is_space ?h" "?h \<noteq> 43" "?h \<noteq> 45" using hex_char_plain [of ?h b] by (simp_all add: hex_byte_def)
  have n: "hex_number 0 [?h, ?l] = unat b" by (simp add: hex_nibbles unat_div unat_mod)
  have "unat b < 2 ^ 64" using unsigned_less [of b, where 'a = nat] by simp
  moreover have "(of_nat (unat b) :: u64) = ucast b" by simp
  ultimately show ?thesis
    using p n by (simp add: strtoul16_def hex_byte_def Let_def)
qed

lemma mac_loop_hex: "mac_loop (length bs) (map (hex_byte 97) bs @ ts) = (SOFTBUS_OK, bs)"
proof (induction bs)
  case (Cons b bs)
  have "ucast (ucast b :: u64) = b" by (rule bit_word_eqI) (simp add: bit_simps)
  with Cons show ?case by (simp add: strtoul_hex)
qed simp

lemma six_bytes: "length bs = 6 \<Longrightarrow> \<exists>a b c d e f. bs = [a, b, c, d, e, f]"
  by (auto simp: length_Suc_conv numeral_eq_Suc)

lemma mac_text_props:
  assumes "length bs = 6"
  shows "length (mac_text [58] bs) = 17" "0 \<notin> set (mac_text [58] bs)" "strtok_tokens 58 (mac_text [58] bs) = map (hex_byte 97) bs"
proof -
  obtain a b c d e f where bs: "bs = [a, b, c, d, e, f]" using six_bytes [OF assms] by blast
  show "length (mac_text [58] bs) = 17" by (simp add: mac_text_def bs upt_rec hex_byte_def)
  show "0 \<notin> set (mac_text [58] bs)" using hex_byte_no_delim by (auto simp: mac_text_def)
  show "strtok_tokens 58 (mac_text [58] bs) = map (hex_byte 97) bs" by (simp only: bs strtok_mac)
qed

lemma mac_to_str:
  assumes "length bs = 6" "18 \<le> length s" "18 \<le> unat n"
  shows "ConvertBtMacToStr (Some s) n (Some bs) 6 = Done (SOFTBUS_OK, Some (mac_text [58] bs @ 0 # drop 18 s))"
  using assms mac_text_props [OF assms(1)]
  by (auto simp: ConvertBtMacToStr_def print_mac_def read_front_Done write_front_Done word_less_nat_alt Let_def)

lemma str_to_mac:
  assumes e: "healthy e" and bs: "length bs = 6" and b: "6 \<le> length b"
  shows "ConvertBtMacToBinary e (Some (mac_text [58] bs @ 0 # rest)) 18 (Some b) 6 = Done (SOFTBUS_OK, Some (bs @ drop 6 b))"
proof -
  let ?t = "mac_text [58] bs"
  note p = mac_text_props [OF bs]
  have t: "take 18 (?t @ 0 # rest) = ?t @ [0]" "18 \<le> length (?t @ 0 # rest)" using p(1) by simp_all
  have "takeWhile (\<lambda>c. c \<noteq> 0) (?t @ [0]) = ?t" using p(2) by (subst takeWhile_append2) auto
  moreover have "mac_loop 6 (map (hex_byte 97) bs) = (SOFTBUS_OK, bs)" using mac_loop_hex [of bs "[]"] bs by simp
  moreover have "SoftBusMalloc e 0 18" "memcpy_ok e 18 18"
    using e by (auto simp: SoftBusMalloc_def intro!: securec_memcpy healthy_securec)
  ultimately show ?thesis
    using t p(3) bs b by (simp add: ConvertBtMacToBinary_def read_front_Done write_front_Done)
qed

lemma low_byte: "ucast (ucast ((v :: u64) AND 0xFF) :: u8) = take_bit 8 v"
proof -
  have "v AND 0xFF = take_bit 8 v" using take_bit_eq_mask [of 8 v] by (simp add: mask_eq_exp_minus_1)
  then show ?thesis by (simp only:) (rule bit_word_eqI, auto simp: bit_simps)
qed

lemma shift_in_byte: "push_bit 8 (push_bit m a OR take_bit m (drop_bit 8 v)) OR take_bit 8 v = push_bit (8 + m) a OR take_bit (8 + m) (v :: u64)"
proof (rule bit_word_eqI)
  fix i assume i: "i < LENGTH(64)"
  show "bit (push_bit 8 (push_bit m a OR take_bit m (drop_bit 8 v)) OR take_bit 8 v) i \<longleftrightarrow> bit (push_bit (8 + m) a OR take_bit (8 + m) v) i"
  proof (cases "i < 8")
    case True
    then show ?thesis by (simp add: bit_simps)
  next
    case False
    then have "8 + (i - 8) = i" "i - 8 < m \<longleftrightarrow> i < 8 + m" "m \<le> i - 8 \<longleftrightarrow> 8 + m \<le> i" by linarith+
    with i False show ?thesis by (simp add: bit_simps)
  qed
qed

lemma u64_bytes_fold:
  "foldl (\<lambda>v b. push_bit 8 v OR ucast b) a (u64_bytes n v acc) =
   foldl (\<lambda>v b. push_bit 8 v OR ucast b) (push_bit (8 * n) a OR take_bit (8 * n) v) acc"
proof (induction n arbitrary: v acc)
  case (Suc n)
  then show ?case by (simp only: u64_bytes.simps foldl_Cons low_byte shift_in_byte mult_Suc_right)
qed simp

lemma length_u64_bytes: "length (u64_bytes n v acc) = n + length acc"
  by (induction n arbitrary: v acc) simp_all

lemma u64_bytes_value: "v < 2 ^ 48 \<Longrightarrow> foldl (\<lambda>v b. push_bit 8 v OR ucast b) 0 (u64_bytes 6 v []) = v"
  by (simp add: u64_bytes_fold take_bit_eq_mod word_unat_eq_iff unat_mod word_less_nat_alt)

subsection \<open>Properties\<close>

text \<open>
  C39. Hexadecimal round trip. Bytes converted to a hexadecimal string, in either letter case, are
  converted back to themselves; the string has two characters per byte and the rest of both
  buffers is untouched; and the two spellings are equal for the comparison that ignores case.
\<close>

theorem hex_round_trip:
  assumes "2 * length bs + 1 < 2 ^ 32" "2 * length bs + 1 \<le> length out" "length out < 2 ^ 32" "length bs \<le> length back" "length back < 2 ^ 32"
  shows "\<exists>t u. length t = 2 * length bs \<and> length u = 2 * length bs \<and>
    ConvertBytesToHexString (Some out) (of_nat (length out)) (Some bs) (of_nat (length bs)) = Done (SOFTBUS_OK, Some (t @ drop (2 * length bs) out)) \<and>
    ConvertBytesToUpperCaseHexString (Some out) (of_nat (length out)) (Some bs) (of_nat (length bs)) = Done (SOFTBUS_OK, Some (u @ drop (2 * length bs) out)) \<and>
    ConvertHexStringToBytes (Some back) (of_nat (length back)) (Some (t @ drop (2 * length bs) out)) (of_nat (2 * length bs)) =
      Done (SOFTBUS_OK, Some (bs @ drop (length bs) back)) \<and>
    ConvertHexStringToBytes (Some back) (of_nat (length back)) (Some (u @ drop (2 * length bs) out)) (of_nat (2 * length bs)) =
      Done (SOFTBUS_OK, Some (bs @ drop (length bs) back)) \<and>
    StrCmpIgnoreCase (Some t) (Some u) = SOFTBUS_OK"
proof (rule exI [of _ "concat (map (hex_byte 97) bs)"], rule exI [of _ "concat (map (hex_byte 65) bs)"], intro conjI)
  have n: "2 * length bs + 1 \<le> unat (of_nat (length out) :: u32)" "length bs \<le> unat (of_nat (length back) :: u32)"
    using assms by (simp_all add: unat_of_nat)
  have "2 * length bs \<le> length out" "2 * length bs < 2 ^ 32" using assms by simp_all
  note h = hexify_ok [OF assms(1) n(1) this(1)] and u = unhex_ok [OF this(2) n(2) assms(4)]
  show "ConvertBytesToHexString (Some out) (of_nat (length out)) (Some bs) (of_nat (length bs)) =
      Done (SOFTBUS_OK, Some (concat (map (hex_byte 97) bs) @ drop (2 * length bs) out))"
    "ConvertBytesToUpperCaseHexString (Some out) (of_nat (length out)) (Some bs) (of_nat (length bs)) =
      Done (SOFTBUS_OK, Some (concat (map (hex_byte 65) bs) @ drop (2 * length bs) out))"
    by (simp_all add: ConvertBytesToHexString_def ConvertBytesToUpperCaseHexString_def h)
  show "ConvertHexStringToBytes (Some back) (of_nat (length back)) (Some (concat (map (hex_byte 97) bs) @ drop (2 * length bs) out)) (of_nat (2 * length bs)) =
      Done (SOFTBUS_OK, Some (bs @ drop (length bs) back))"
    "ConvertHexStringToBytes (Some back) (of_nat (length back)) (Some (concat (map (hex_byte 65) bs) @ drop (2 * length bs) out)) (of_nat (2 * length bs)) =
      Done (SOFTBUS_OK, Some (bs @ drop (length bs) back))"
    by (rule u, simp)+
  have "map ToUpperCase (concat (map (hex_byte 97) bs)) = map ToUpperCase (concat (map (hex_byte 65) bs))"
    by (simp only: upper_hex [symmetric] map_map) (simp only: comp_def upper_idem)
  then show "StrCmpIgnoreCase (Some (concat (map (hex_byte 97) bs))) (Some (concat (map (hex_byte 65) bs))) = SOFTBUS_OK"
    by (simp add: StrCmpIgnoreCase_def cmp_loop_iff)
qed (rule length_hex)+

theorem hex_round_trip_witness:
  "\<exists>t u. length t = 2 * length [0xAB, 7 :: u8] \<and> length u = 2 * length [0xAB, 7 :: u8] \<and>
    ConvertBytesToHexString (Some (replicate 5 0)) (of_nat (length (replicate 5 (0 :: u8)))) (Some [0xAB, 7]) (of_nat (length [0xAB, 7 :: u8])) =
      Done (SOFTBUS_OK, Some (t @ drop (2 * length [0xAB, 7 :: u8]) (replicate 5 0))) \<and>
    ConvertBytesToUpperCaseHexString (Some (replicate 5 0)) (of_nat (length (replicate 5 (0 :: u8)))) (Some [0xAB, 7]) (of_nat (length [0xAB, 7 :: u8])) =
      Done (SOFTBUS_OK, Some (u @ drop (2 * length [0xAB, 7 :: u8]) (replicate 5 0))) \<and>
    ConvertHexStringToBytes (Some [0, 0]) (of_nat (length [0, 0 :: u8])) (Some (t @ drop (2 * length [0xAB, 7 :: u8]) (replicate 5 0))) (of_nat (2 * length [0xAB, 7 :: u8])) =
      Done (SOFTBUS_OK, Some ([0xAB, 7] @ drop (length [0xAB, 7 :: u8]) [0, 0])) \<and>
    ConvertHexStringToBytes (Some [0, 0]) (of_nat (length [0, 0 :: u8])) (Some (u @ drop (2 * length [0xAB, 7 :: u8]) (replicate 5 0))) (of_nat (2 * length [0xAB, 7 :: u8])) =
      Done (SOFTBUS_OK, Some ([0xAB, 7] @ drop (length [0xAB, 7 :: u8]) [0, 0])) \<and>
    StrCmpIgnoreCase (Some t) (Some u) = SOFTBUS_OK"
  by (rule hex_round_trip) simp_all

text \<open>
  Address round trip. A 48-bit Bluetooth address other than 0, printed by
  \<^verbatim>\<open>ConvertU64MacToStr\<close> into a buffer of at least 18 bytes, is read back by \<^verbatim>\<open>ConvertBtMacToU64\<close> as
  the same number, through the tokens and numbers of the C library; and printing the six bytes of any
  address and reading them with \<^verbatim>\<open>ConvertBtMacToBinary\<close> gives those bytes.
\<close>

theorem mac_round_trip:
  assumes "healthy e" "0 < v" "v < 2 ^ 48" "18 \<le> length s" "18 \<le> unat n" "length bs = 6" "6 \<le> length b"
  shows "(\<exists>t. ConvertU64MacToStr v (Some s) n = Done (SOFTBUS_OK, Some t) \<and> ConvertBtMacToU64 e (Some t) n (Some x) = Done (SOFTBUS_OK, Some v)) \<and>
    (\<exists>t. ConvertBtMacToStr (Some s) n (Some bs) 6 = Done (SOFTBUS_OK, Some t) \<and>
      ConvertBtMacToBinary e (Some t) 18 (Some b) 6 = Done (SOFTBUS_OK, Some (bs @ drop 6 b)))"
proof
  let ?b = "u64_bytes 6 v []"
  have l: "length ?b = 6" by (simp add: length_u64_bytes)
  have "\<not> n < 18" using assms(5) by (simp add: word_less_nat_alt)
  then show "\<exists>t. ConvertU64MacToStr v (Some s) n = Done (SOFTBUS_OK, Some t) \<and> ConvertBtMacToU64 e (Some t) n (Some x) = Done (SOFTBUS_OK, Some v)"
    using mac_to_str [OF l assms(4,5)] str_to_mac [OF assms(1) l, of "replicate 6 0"] assms(2) u64_bytes_value [OF assms(3)]
    by (auto simp: ConvertU64MacToStr_def ConvertBtMacToU64_def)
  show "\<exists>t. ConvertBtMacToStr (Some s) n (Some bs) 6 = Done (SOFTBUS_OK, Some t) \<and>
      ConvertBtMacToBinary e (Some t) 18 (Some b) 6 = Done (SOFTBUS_OK, Some (bs @ drop 6 b))"
    using mac_to_str [OF assms(6,4,5)] str_to_mac [OF assms(1,6,7)] by auto
qed

theorem mac_round_trip_witness:
  "(\<exists>t. ConvertU64MacToStr 0x0123456789AB (Some (replicate 18 0)) 18 = Done (SOFTBUS_OK, Some t) \<and>
      ConvertBtMacToU64 ideal_env (Some t) 18 (Some 0) = Done (SOFTBUS_OK, Some 0x0123456789AB)) \<and>
    (\<exists>t. ConvertBtMacToStr (Some (replicate 18 0)) 18 (Some [1, 2, 3, 4, 5, 6]) 6 = Done (SOFTBUS_OK, Some t) \<and>
      ConvertBtMacToBinary ideal_env (Some t) 18 (Some (replicate 6 0)) 6 = Done (SOFTBUS_OK, Some ([1, 2, 3, 4, 5, 6] @ drop 6 (replicate 6 0))))"
  by (rule mac_round_trip) simp_all

text \<open>
  Random strings need an odd length. With a working environment \<^verbatim>\<open>GenerateRandomStr\<close> fills a buffer
  whose stated length is odd with the hexadecimal digits of the random bytes, one character less
  than the length; for every even length it fails and leaves the buffer as it was, since the
  conversion asks for one byte more than the two characters per random byte.
\<close>

theorem random_string_odd_only:
  assumes "healthy e" "2 \<le> len" "len div 2 \<le> 0x1FFFFFFF" "rand (len div 2) = Some r" "length r = unat (len div 2)" "unat len \<le> length str"
  shows "GenerateRandomStr e rand (Some str) len =
    (if odd (unat len) then Done (SOFTBUS_OK, Some (concat (map (hex_byte 97) r) @ drop (unat len - 1) str)) else Done (SOFTBUS_ERR, Some str))"
proof -
  have d: "unat (len div 2) = unat len div 2" by (simp add: unat_div)
  have small: "unat len div 2 \<le> 0x1FFFFFFF" using assms(3) by (simp add: word_le_nat_alt d)
  have m: "SoftBusMalloc e 0 (unat (len div 2))" using assms(1) small by (simp add: SoftBusMalloc_def d)
  have l2: "\<not> len < 2" using assms(2) by simp
  have r: "of_nat (length r) = len div 2" using assms(5) by simp
  show ?thesis
  proof (cases "odd (unat len)")
    case True
    then have len: "unat len = 2 * length r + 1" using assms(5) d by presburger
    have "2 * length r + 1 < 2 ^ 32" using small assms(5) d by simp
    from hexify_ok [OF this, of len str 97] show ?thesis
      using True len m l2 assms(4,6) by (simp add: GenerateRandomStr_def ConvertBytesToHexString_def Let_def r)
  next
    case False
    then have len: "unat len = 2 * length r" using assms(5) d by presburger
    have "unat (HEXIFY_LEN (len div 2)) = 2 * length r + 1"
      using small assms(5) d by (simp add: HEXIFY_LEN_def unat_word_ariths)
    then have "len < HEXIFY_LEN (len div 2)" using len by (simp add: word_less_nat_alt)
    then show ?thesis
      using False m l2 assms(4) by (simp add: GenerateRandomStr_def ConvertBytesToHexString_def hexify_def Let_def)
  qed
qed

theorem random_string_odd_only_witness:
  "GenerateRandomStr ideal_env (\<lambda>n. Some (replicate (unat n) 0xAB)) (Some (replicate 4 0)) 4 =
    (if odd (unat (4 :: u32)) then Done (SOFTBUS_OK, Some (concat (map (hex_byte 97) (replicate 2 0xAB)) @ drop (unat (4 :: u32) - 1) (replicate 4 0)))
     else Done (SOFTBUS_ERR, Some (replicate 4 0)))"
  by (rule random_string_odd_only) simp_all

text \<open>
  The size check of the conversion wraps: for \<open>2 ^ 31\<close> bytes and more it accepts any buffer.
\<close>

lemma hexify_length_wraps: "HEXIFY_LEN 0x80000000 = 1"
  by (simp add: HEXIFY_LEN_def)

lemma hexify_overflows:
  "\<lbrakk>unat (0x80000000 :: u32) \<le> length inp; length out < 2 ^ 32\<rbrakk> \<Longrightarrow>
   ConvertBytesToHexString (Some out) 1 (Some inp) 0x80000000 = Undef"
  by (simp add: ConvertBytesToHexString_def hexify_def hexify_length_wraps read_front_def write_front_def)

text \<open>An empty identifier makes the mask write behind its buffer.\<close>

lemma id_instead_empty: "length data < 2 ^ 32 - 1 \<Longrightarrow> IdInstead data 0 = Undef"
proof -
  assume "length data < 2 ^ 32 - 1"
  moreover have "unat (- 1 :: u32) = 2 ^ 32 - 1" by (simp add: unsigned_minus_1_eq_mask mask_eq_exp_minus_1)
  ultimately show ?thesis by (simp add: IdInstead_def Let_def)
qed

text \<open>A string that does not fit its buffer is written past its end, whatever size is passed.\<close>

lemma case_copy_overflows: "\<lbrakk>memset_ok e n n; n \<le> length buf; length buf < length str\<rbrakk> \<Longrightarrow> StringToUpperCase e (Some str) (Some buf) n = Undef"
  by (simp add: StringToUpperCase_def case_copy_def write_front_def)

end
