(* ===== verification/Lnn_Ledger.thy ===== *)
theory Lnn_Ledger
  imports Lnn_Map Softbus_Utils
begin

text \<open>
  The ledger of remote nodes,
  \<^verbatim>\<open>core/bus_center/lnn/net_ledger/distributed_ledger/src/lnn_distributed_net_ledger.c\<close>, with the accessors of
  \<^verbatim>\<open>net_ledger/common/src/lnn_node_info.c\<close>: which devices are known, which are online and over which
  kinds of connection, and the lookups by the identifiers of a device. Nodes are kept in the hash
  map of \<^verbatim>\<open>lnn_map.c\<close> under their udid. Calls into other components (the profile store, the account
  notice, the notices to applications, the connection manager, the store of devices seen over BLE) are
  recorded as events. The hash function, the clocks, the node of the local device, what fresh memory
  holds and whether a plain \<^verbatim>\<open>char\<close> is signed are arguments.
\<close>

unbundle bit_operations_syntax

subsection \<open>State\<close>

datatype DistributedLedgerStatus = DL_INIT_UNKNOWN | DL_INIT_FAIL | DL_INIT_SUCCESS
datatype ConnectStatus = STATUS_OFFLINE | STATUS_ONLINE
datatype IdCategory = CATEGORY_UDID | CATEGORY_UUID | CATEGORY_NETWORK_ID | CATEGORY_OTHER
datatype ReportCategory = REPORT_NONE | REPORT_CHANGE | REPORT_ONLINE | REPORT_OFFLINE

type_synonym addr_type = nat
type_synonym disc_type = nat

abbreviation (input) CONNECTION_ADDR_WLAN :: addr_type where "CONNECTION_ADDR_WLAN \<equiv> 0"
abbreviation (input) CONNECTION_ADDR_BR :: addr_type where "CONNECTION_ADDR_BR \<equiv> 1"
abbreviation (input) CONNECTION_ADDR_BLE :: addr_type where "CONNECTION_ADDR_BLE \<equiv> 2"
abbreviation (input) CONNECTION_ADDR_ETH :: addr_type where "CONNECTION_ADDR_ETH \<equiv> 3"
abbreviation (input) CONNECTION_ADDR_SESSION :: addr_type where "CONNECTION_ADDR_SESSION \<equiv> 4"
abbreviation (input) CONNECTION_ADDR_MAX :: addr_type where "CONNECTION_ADDR_MAX \<equiv> 5"

abbreviation (input) DISCOVERY_TYPE_WIFI :: disc_type where "DISCOVERY_TYPE_WIFI \<equiv> 1"
abbreviation (input) DISCOVERY_TYPE_BLE :: disc_type where "DISCOVERY_TYPE_BLE \<equiv> 2"
abbreviation (input) DISCOVERY_TYPE_BR :: disc_type where "DISCOVERY_TYPE_BR \<equiv> 3"
abbreviation (input) DISCOVERY_TYPE_LSA :: disc_type where "DISCOVERY_TYPE_LSA \<equiv> 5"
abbreviation (input) DISCOVERY_TYPE_COUNT :: disc_type where "DISCOVERY_TYPE_COUNT \<equiv> 6"

abbreviation (input) ONLINE_HICHAIN :: nat where "ONLINE_HICHAIN \<equiv> 0"
abbreviation (input) ONLINE_METANODE :: nat where "ONLINE_METANODE \<equiv> 1"
abbreviation (input) AUTH_TYPE_BUTT :: nat where "AUTH_TYPE_BUTT \<equiv> 3"

abbreviation (input) SIZEOF_NODE_INFO :: u32 where "SIZEOF_NODE_INFO \<equiv> 2616"
abbreviation (input) SIZEOF_NODE_BASIC_INFO :: nat where "SIZEOF_NODE_BASIC_INFO \<equiv> 196"
abbreviation (input) SHA_256_HASH_LEN :: nat where "SHA_256_HASH_LEN \<equiv> 32"
abbreviation (input) UUID_BUF_LEN :: nat where "UUID_BUF_LEN \<equiv> 65"
abbreviation (input) NETWORK_ID_BUF_LEN :: nat where "NETWORK_ID_BUF_LEN \<equiv> 65"
abbreviation (input) DEVICE_NAME_BUF_LEN :: nat where "DEVICE_NAME_BUF_LEN \<equiv> 128"
abbreviation (input) INT_TO_STR_SIZE :: nat where "INT_TO_STR_SIZE \<equiv> 12"
abbreviation (input) LONG_TO_STRING_MAX_LEN :: nat where "LONG_TO_STRING_MAX_LEN \<equiv> 21"
abbreviation (input) LNN_RELATION_MASK :: u8 where "LNN_RELATION_MASK \<equiv> 3"
abbreviation (input) INVALID_CONNECTION_CODE_VALUE :: "16 word" where "INVALID_CONNECTION_CODE_VALUE \<equiv> - 1"
abbreviation (input) MAC_LEN :: nat where "MAC_LEN \<equiv> 18"
abbreviation (input) MAX_ADDR_LEN :: nat where "MAX_ADDR_LEN \<equiv> 46"
abbreviation (input) ID_MAX_LEN :: u32 where "ID_MAX_LEN \<equiv> 72"

text \<open>The fields the ledger works with; \<open>ni_rest\<close> holds the others, which are only copied along.\<close>

record 'r NodeInfo =
  ni_softBusVersion :: bytes
  ni_uuid :: bytes
  ni_networkId :: bytes
  ni_status :: ConnectStatus
  ni_discoveryType :: u32
  ni_deviceName :: bytes
  ni_deviceUdid :: bytes
  ni_deviceTypeId :: u16
  ni_deviceIp :: bytes
  ni_macAddr :: bytes
  ni_authPort :: int
  ni_proxyPort :: int
  ni_sessionPort :: int
  ni_authSeqNum :: i64
  ni_authChannelId :: "(int \<times> int) list"
  ni_accountHash :: bytes
  ni_accountId :: i64
  ni_offlineCode :: bytes
  ni_isMetaNode :: bool
  ni_metaDiscType :: u32
  ni_AuthTypeValue :: u32
  ni_bleStartTimestamp :: int
  ni_groupType :: int
  ni_relation :: "u8 list"
  ni_heartbeatTimestamp :: u64
  ni_onlinetTimestamp :: u64
  ni_rest :: 'r

record NodeBasicInfo =
  nb_networkId :: bytes
  nb_deviceName :: bytes
  nb_deviceTypeId :: u16

datatype 'r ledger_event =
  BasicInfoChanged NodeBasicInfo
  | NotifyMigrate bool NodeBasicInfo
  | OnNodeOnline NodeBasicInfo
  | UpdateProfile "'r NodeInfo"
  | InsertToProfile "'r NodeInfo"
  | BleDirectlyOnlineProc "'r NodeInfo"
  | UpdateDpSameAccount bytes bytes
  | PreventConnection bytes

record 'r ledger =
  lg_udidMap :: "'r NodeInfo lnn_map"
  lg_ipMap :: "'r NodeInfo lnn_map"
  lg_macMap :: "'r NodeInfo lnn_map"
  lg_connectionCode :: "16 word lnn_map"
  lg_status :: DistributedLedgerStatus
  lg_events :: "'r ledger_event list"

text \<open>What the code is given from outside: environments by position of the call, and the arguments above.\<close>

record 'r host =
  ho_signed_char :: bool
  ho_env :: "nat \<Rightarrow> env"
  ho_hash :: "bytes \<Rightarrow> bytes option"
  ho_local :: "'r NodeInfo option"
  ho_now :: u64
  ho_clock :: "(u64 \<times> u64) option"
  ho_junk :: "nat \<Rightarrow> NodeBasicInfo"

definition GetCurrentTime :: "'r host \<Rightarrow> u64" where
  "GetCurrentTime h = (case ho_clock h of None \<Rightarrow> 0 | Some (sec, usec) \<Rightarrow> sec * 1000 + usec div 1000)"

definition ledger_event :: "'r ledger_event \<Rightarrow> 'r ledger \<Rightarrow> 'r ledger" where
  "ledger_event ev lg = lg\<lparr>lg_events := lg_events lg @ [ev]\<rparr>"

text \<open>\<^verbatim>\<open>strcpy_s\<close> into a field of the given size: a string that does not fit leaves it empty.\<close>

definition str_copy :: "nat \<Rightarrow> bytes \<Rightarrow> bool \<times> bytes" where
  "str_copy n s = (if length s < n then (True, s) else (False, []))"

text \<open>
  \<^verbatim>\<open>strcpy_s\<close> into a buffer of the caller, whose size may be anything: with no room, or with more than the
  function accepts, the buffer is not written.
\<close>

definition strcpy_s :: "u32 \<Rightarrow> bytes \<Rightarrow> bool \<times> bytes option" where
  "strcpy_s len s = (if len = 0 \<or> len > 0x7fffffff then (False, None) else map_prod id Some (str_copy (unat len) s))"

text \<open>The sign of \<^verbatim>\<open>strcmp\<close>, which compares bytes as unsigned.\<close>

fun strcmp :: "bytes \<Rightarrow> bytes \<Rightarrow> int" where
  "strcmp [] [] = 0"
| "strcmp [] (y # ys) = - 1"
| "strcmp (x # xs) [] = 1"
| "strcmp (x # xs) (y # ys) = (if x < y then - 1 else if y < x then 1 else strcmp xs ys)"

text \<open>The decimal digits of \<^verbatim>\<open>sprintf_s\<close>.\<close>

fun dec_nat :: "nat \<Rightarrow> bytes" where
  "dec_nat n = (if n < 10 then [of_nat (48 + n)] else dec_nat (n div 10) @ [of_nat (48 + n mod 10)])"

declare dec_nat.simps [simp del]

definition dec_int :: "int \<Rightarrow> bytes" where
  "dec_int z = (if z < 0 then 45 # dec_nat (nat (- z)) else dec_nat (nat z))"

subsection \<open>Fields of a node\<close>

definition LnnHasDiscoveryType :: "'r NodeInfo option \<Rightarrow> disc_type \<Rightarrow> bool" where
  "LnnHasDiscoveryType info type =
     (case info of
        None \<Rightarrow> False
      | Some i \<Rightarrow> if type \<ge> DISCOVERY_TYPE_COUNT then False else ni_discoveryType i AND push_bit type 1 \<noteq> 0)"

definition LnnSetDiscoveryType :: "'r NodeInfo \<Rightarrow> disc_type \<Rightarrow> status \<times> 'r NodeInfo" where
  "LnnSetDiscoveryType i type =
     (if type \<ge> DISCOVERY_TYPE_COUNT then (SOFTBUS_INVALID_PARAM, i)
      else (SOFTBUS_OK, i\<lparr>ni_discoveryType := ni_discoveryType i OR push_bit type 1\<rparr>))"

definition LnnClearDiscoveryType :: "'r NodeInfo \<Rightarrow> disc_type \<Rightarrow> status \<times> 'r NodeInfo" where
  "LnnClearDiscoveryType i type =
     (if type \<ge> DISCOVERY_TYPE_COUNT then (SOFTBUS_INVALID_PARAM, i)
      else (SOFTBUS_OK, i\<lparr>ni_discoveryType := ni_discoveryType i AND NOT (push_bit type 1)\<rparr>))"

definition LnnIsNodeOnline :: "'r NodeInfo option \<Rightarrow> bool" where
  "LnnIsNodeOnline info = (case info of None \<Rightarrow> False | Some i \<Rightarrow> ni_status i = STATUS_ONLINE)"

definition LnnSetNodeConnStatus :: "'r NodeInfo \<Rightarrow> ConnectStatus \<Rightarrow> 'r NodeInfo" where
  "LnnSetNodeConnStatus i status = i\<lparr>ni_status := status\<rparr>"

definition LnnSetBtMac :: "'r NodeInfo \<Rightarrow> bytes \<Rightarrow> 'r NodeInfo" where
  "LnnSetBtMac i mac = i\<lparr>ni_macAddr := snd (str_copy MAC_LEN mac)\<rparr>"

definition LnnSetWiFiIp :: "'r NodeInfo \<Rightarrow> bytes \<Rightarrow> 'r NodeInfo" where
  "LnnSetWiFiIp i ip = i\<lparr>ni_deviceIp := snd (str_copy MAX_ADDR_LEN ip)\<rparr>"

definition LOCAL_IP :: bytes where
  "LOCAL_IP = [49, 50, 55, 46, 48, 46, 48, 46, 49]"

definition LnnConvAddrTypeToDiscType :: "addr_type \<Rightarrow> disc_type" where
  "LnnConvAddrTypeToDiscType type =
     (if type = CONNECTION_ADDR_WLAN \<or> type = CONNECTION_ADDR_ETH then DISCOVERY_TYPE_WIFI
      else if type = CONNECTION_ADDR_BR then DISCOVERY_TYPE_BR
      else if type = CONNECTION_ADDR_BLE then DISCOVERY_TYPE_BLE
      else if type = CONNECTION_ADDR_SESSION then DISCOVERY_TYPE_BLE
      else DISCOVERY_TYPE_COUNT)"

definition LnnDiscTypeToConnAddrType :: "disc_type \<Rightarrow> addr_type" where
  "LnnDiscTypeToConnAddrType type =
     (if type = DISCOVERY_TYPE_WIFI then CONNECTION_ADDR_WLAN
      else if type = DISCOVERY_TYPE_BLE then CONNECTION_ADDR_BLE
      else if type = DISCOVERY_TYPE_BR then CONNECTION_ADDR_BR
      else CONNECTION_ADDR_MAX)"

definition LnnSetAuthTypeValue :: "u32 option \<Rightarrow> nat \<Rightarrow> status \<times> u32 option" where
  "LnnSetAuthTypeValue v type =
     (case v of
        None \<Rightarrow> (SOFTBUS_INVALID_PARAM, None)
      | Some x \<Rightarrow> if type \<ge> AUTH_TYPE_BUTT then (SOFTBUS_INVALID_PARAM, v) else (SOFTBUS_OK, Some (x OR push_bit type 1)))"

definition LnnClearAuthTypeValue :: "u32 option \<Rightarrow> nat \<Rightarrow> status \<times> u32 option" where
  "LnnClearAuthTypeValue v type =
     (case v of
        None \<Rightarrow> (SOFTBUS_INVALID_PARAM, None)
      | Some x \<Rightarrow> if type \<ge> AUTH_TYPE_BUTT then (SOFTBUS_INVALID_PARAM, v) else (SOFTBUS_OK, Some (x AND NOT (push_bit type 1))))"

definition set_auth_type :: "nat \<Rightarrow> 'r NodeInfo \<Rightarrow> 'r NodeInfo" where
  "set_auth_type type i = i\<lparr>ni_AuthTypeValue := the (snd (LnnSetAuthTypeValue (Some (ni_AuthTypeValue i)) type))\<rparr>"

definition clear_auth_type :: "nat \<Rightarrow> 'r NodeInfo \<Rightarrow> 'r NodeInfo" where
  "clear_auth_type type i = i\<lparr>ni_AuthTypeValue := the (snd (LnnClearAuthTypeValue (Some (ni_AuthTypeValue i)) type))\<rparr>"

subsection \<open>Setting up\<close>

definition InitDistributedInfo :: "'r ledger \<Rightarrow> 'r ledger" where
  "InitDistributedInfo lg = lg\<lparr>lg_udidMap := LnnMapInit, lg_ipMap := LnnMapInit, lg_macMap := LnnMapInit\<rparr>"

definition DeinitDistributedInfo :: "'r ledger \<Rightarrow> 'r ledger" where
  "DeinitDistributedInfo lg =
     lg\<lparr>lg_udidMap := LnnMapDelete (lg_udidMap lg), lg_ipMap := LnnMapDelete (lg_ipMap lg), lg_macMap := LnnMapDelete (lg_macMap lg)\<rparr>"

definition InitConnectionCode :: "'r ledger \<Rightarrow> 'r ledger" where
  "InitConnectionCode lg = lg\<lparr>lg_connectionCode := LnnMapInit\<rparr>"

definition DeinitConnectionCode :: "'r ledger \<Rightarrow> 'r ledger" where
  "DeinitConnectionCode lg = lg\<lparr>lg_connectionCode := LnnMapDelete (lg_connectionCode lg)\<rparr>"

definition LnnDeinitDistributedLedger :: "'r host \<Rightarrow> 'r ledger \<Rightarrow> 'r ledger" where
  "LnnDeinitDistributedLedger h lg =
     (if \<not> lock_ok (ho_env h 0) 0 then lg else DeinitConnectionCode (DeinitDistributedInfo (lg\<lparr>lg_status := DL_INIT_UNKNOWN\<rparr>)))"

text \<open>Whether the mutex can be created and the dump function registered are arguments.\<close>

definition LnnInitDistributedLedger :: "bool \<Rightarrow> bool \<Rightarrow> 'r ledger \<Rightarrow> status \<times> 'r ledger" where
  "LnnInitDistributedLedger mutex_ok dump_ok lg =
     (if lg_status lg = DL_INIT_SUCCESS then (SOFTBUS_OK, lg)
      else let lg = InitConnectionCode (InitDistributedInfo lg) in
        if \<not> mutex_ok then (SOFTBUS_ERR, lg\<lparr>lg_status := DL_INIT_FAIL\<rparr>)
        else if \<not> dump_ok then (SOFTBUS_ERR, lg)
        else (SOFTBUS_OK, lg\<lparr>lg_status := DL_INIT_SUCCESS\<rparr>))"

subsection \<open>Lookups\<close>

text \<open>The search functions return a pointer into one of the maps; here, the node it points to.\<close>

definition GetNodeInfoFromMap :: "'r host \<Rightarrow> 'r ledger \<Rightarrow> bytes \<Rightarrow> 'r NodeInfo option" where
  "GetNodeInfoFromMap h lg key =
     (case LnnMapGet (ho_signed_char h) (Some (lg_udidMap lg)) (Some key) of
        Some i \<Rightarrow> Some i
      | None \<Rightarrow>
          (case LnnMapGet (ho_signed_char h) (Some (lg_macMap lg)) (Some key) of
             Some i \<Rightarrow> Some i
           | None \<Rightarrow> LnnMapGet (ho_signed_char h) (Some (lg_ipMap lg)) (Some key)))"

text \<open>
  The nodes the loops over \<^verbatim>\<open>LnnMapHasNext\<close> and \<^verbatim>\<open>LnnMapNext\<close> visit, in order; one more round than there
  are nodes is enough for the loop to end.
\<close>

definition visited :: "'v lnn_map \<Rightarrow> 'v MapIterator \<Rightarrow> 'v list" where
  "visited m it = (case iterate (Suc (unat (mp_nodeSize m))) m it of None \<Rightarrow> [] | Some ns \<Rightarrow> map mn_value ns)"

definition LnnGetNodeInfoById :: "'r host \<Rightarrow> nat \<Rightarrow> 'r ledger \<Rightarrow> bytes option \<Rightarrow> IdCategory \<Rightarrow> 'r NodeInfo option" where
  "LnnGetNodeInfoById h k lg key type =
     (case key of
        None \<Rightarrow> None
      | Some x \<Rightarrow>
          if type = CATEGORY_UDID then GetNodeInfoFromMap h lg x
          else (case LnnMapInitIterator (ho_env h k) (Some (lg_udidMap lg)) of
              None \<Rightarrow> None
            | Some it \<Rightarrow>
                find (\<lambda>i. type = CATEGORY_NETWORK_ID \<and> ni_networkId i = x \<or> type = CATEGORY_UUID \<and> ni_uuid i = x)
                  (visited (lg_udidMap lg) it)))"

definition LnnGetNodeInfoByDeviceId :: "'r host \<Rightarrow> nat \<Rightarrow> 'r ledger \<Rightarrow> bytes \<Rightarrow> 'r NodeInfo option" where
  "LnnGetNodeInfoByDeviceId h k lg key =
     (case GetNodeInfoFromMap h lg key of
        Some i \<Rightarrow> Some i
      | None \<Rightarrow>
          (case LnnMapInitIterator (ho_env h k) (Some (lg_udidMap lg)) of
             None \<Rightarrow> None
           | Some it \<Rightarrow>
               find (\<lambda>i. ni_networkId i = key \<or> ni_uuid i = key \<or> StrCmpIgnoreCase (Some (ni_macAddr i)) (Some key) = SOFTBUS_OK \<or>
                   ni_deviceIp i = key)
                 (visited (lg_udidMap lg) it)))"

text \<open>Results are written to the caller's node: \<open>None\<close> leaves it as it was.\<close>

definition copy_node :: "env \<Rightarrow> 'r NodeInfo option \<Rightarrow> status \<times> 'r NodeInfo option" where
  "copy_node e info =
     (case info of
        None \<Rightarrow> (SOFTBUS_NETWORK_GET_NODE_INFO_ERR, None)
      | Some i \<Rightarrow> if \<not> memcpy_ok e (unat SIZEOF_NODE_INFO) (unat SIZEOF_NODE_INFO) then (SOFTBUS_MEM_ERR, None) else (SOFTBUS_OK, Some i))"

definition LnnGetRemoteNodeInfoById :: "'r host \<Rightarrow> 'r ledger \<Rightarrow> bytes option \<Rightarrow> IdCategory \<Rightarrow> bool \<Rightarrow> status \<times> 'r NodeInfo option" where
  "LnnGetRemoteNodeInfoById h lg key type info_null =
     (if key = None \<or> info_null then (SOFTBUS_INVALID_PARAM, None)
      else if \<not> lock_ok (ho_env h 0) 0 then (SOFTBUS_LOCK_ERR, None)
      else copy_node (ho_env h 2) (LnnGetNodeInfoById h 1 lg key type))"

definition LnnGetRemoteNodeInfoByKey :: "'r host \<Rightarrow> 'r ledger \<Rightarrow> bytes option \<Rightarrow> bool \<Rightarrow> status \<times> 'r NodeInfo option" where
  "LnnGetRemoteNodeInfoByKey h lg key info_null =
     (case key of
        None \<Rightarrow> (SOFTBUS_INVALID_PARAM, None)
      | Some x \<Rightarrow>
          if info_null then (SOFTBUS_INVALID_PARAM, None)
          else if \<not> lock_ok (ho_env h 0) 0 then (SOFTBUS_LOCK_ERR, None)
          else copy_node (ho_env h 2) (LnnGetNodeInfoByDeviceId h 1 lg x))"

definition LnnGetOnlineStateById :: "'r host \<Rightarrow> 'r ledger \<Rightarrow> bytes option \<Rightarrow> IdCategory \<Rightarrow> bool" where
  "LnnGetOnlineStateById h lg key type =
     (if \<not> IsValidString key ID_MAX_LEN then False
      else if \<not> lock_ok (ho_env h 0) 0 then False
      else case LnnGetNodeInfoById h 1 lg key type of
        None \<Rightarrow> False
      | Some i \<Rightarrow> if ni_status i = STATUS_ONLINE then True else ni_isMetaNode i)"

definition ConvertNodeInfoToBasicInfo :: "'r NodeInfo option \<Rightarrow> NodeBasicInfo option \<Rightarrow> status \<times> NodeBasicInfo option" where
  "ConvertNodeInfoToBasicInfo info basic =
     (case (info, basic) of
        (Some i, Some b) \<Rightarrow>
          (case str_copy DEVICE_NAME_BUF_LEN (ni_deviceName i) of
             (False, s) \<Rightarrow> (SOFTBUS_MEM_ERR, Some (b\<lparr>nb_deviceName := s\<rparr>))
           | (True, s) \<Rightarrow>
               let b = b\<lparr>nb_deviceName := s\<rparr> in
               (case str_copy NETWORK_ID_BUF_LEN (ni_networkId i) of
                  (False, s) \<Rightarrow> (SOFTBUS_MEM_ERR, Some (b\<lparr>nb_networkId := s\<rparr>))
                | (True, s) \<Rightarrow> (SOFTBUS_OK, Some (b\<lparr>nb_networkId := s, nb_deviceTypeId := ni_deviceTypeId i\<rparr>))))
      | _ \<Rightarrow> (SOFTBUS_INVALID_PARAM, basic))"

definition empty_basic :: NodeBasicInfo where
  "empty_basic = \<lparr>nb_networkId = [], nb_deviceName = [], nb_deviceTypeId = 0\<rparr>"

definition LnnGetBasicInfoByUdid :: "'r host \<Rightarrow> nat \<Rightarrow> 'r ledger \<Rightarrow> bytes option \<Rightarrow> NodeBasicInfo option \<Rightarrow> status \<times> NodeBasicInfo option" where
  "LnnGetBasicInfoByUdid h k lg udid basic =
     (if udid = None \<or> basic = None then (SOFTBUS_INVALID_PARAM, basic)
      else if \<not> lock_ok (ho_env h k) 0 then (SOFTBUS_LOCK_ERR, basic)
      else ConvertNodeInfoToBasicInfo (LnnMapGet (ho_signed_char h) (Some (lg_udidMap lg)) udid) basic)"

definition LnnConvertDLidToUdid :: "'r host \<Rightarrow> 'r ledger \<Rightarrow> bytes option \<Rightarrow> IdCategory \<Rightarrow> bytes option" where
  "LnnConvertDLidToUdid h lg key type = map_option ni_deviceUdid (LnnGetNodeInfoById h 0 lg key type)"

text \<open>The destination buffer has room for \<open>len\<close> bytes; the result is the string in it, if it was written.\<close>

definition LnnConvertDlId ::
  "'r host \<Rightarrow> 'r ledger \<Rightarrow> bytes option \<Rightarrow> IdCategory \<Rightarrow> IdCategory \<Rightarrow> bool \<Rightarrow> u32 \<Rightarrow> status \<times> bytes option" where
  "LnnConvertDlId h lg srcId srcIdType dstIdType dst_null len =
     (if srcId = None \<or> dst_null then (SOFTBUS_INVALID_PARAM, None)
      else if \<not> lock_ok (ho_env h 0) 0 then (SOFTBUS_LOCK_ERR, None)
      else case LnnGetNodeInfoById h 1 lg srcId srcIdType of
        None \<Rightarrow> (SOFTBUS_NOT_FIND, None)
      | Some i \<Rightarrow>
          (case dstIdType of
             CATEGORY_OTHER \<Rightarrow> (SOFTBUS_INVALID_PARAM, None)
           | _ \<Rightarrow>
               let ident = (case dstIdType of CATEGORY_UDID \<Rightarrow> ni_deviceUdid i | CATEGORY_UUID \<Rightarrow> ni_uuid i | _ \<Rightarrow> ni_networkId i)
               in (case strcpy_s len ident of (True, s) \<Rightarrow> (SOFTBUS_OK, s) | (False, s) \<Rightarrow> (SOFTBUS_MEM_ERR, s))))"

definition LnnGetLnnRelation :: "'r host \<Rightarrow> 'r ledger \<Rightarrow> bytes option \<Rightarrow> IdCategory \<Rightarrow> bool \<Rightarrow> u32 \<Rightarrow> status \<times> u8 list option" where
  "LnnGetLnnRelation h lg key type rel_null len =
     (if key = None \<or> rel_null then (SOFTBUS_INVALID_PARAM, None)
      else if \<not> lock_ok (ho_env h 0) 0 then (SOFTBUS_LOCK_ERR, None)
      else let info = LnnGetNodeInfoById h 1 lg key type in
        if info = None \<or> \<not> LnnIsNodeOnline info then (SOFTBUS_NOT_FIND, None)
        else if \<not> memcpy_ok (ho_env h 2) (unat len) CONNECTION_ADDR_MAX then (SOFTBUS_MEM_ERR, None)
        else (SOFTBUS_OK, Some (ni_relation (the info))))"

definition wanted :: "bool \<Rightarrow> 'r NodeInfo \<Rightarrow> bool" where
  "wanted isNeedMeta i \<longleftrightarrow> (if \<not> isNeedMeta then LnnIsNodeOnline (Some i) else LnnIsNodeOnline (Some i) \<or> ni_isMetaNode i)"

definition GetDLOnlineNodeNumLocked :: "'r host \<Rightarrow> nat \<Rightarrow> 'r ledger \<Rightarrow> bool \<Rightarrow> status \<times> nat option" where
  "GetDLOnlineNodeNumLocked h k lg isNeedMeta =
     (case LnnMapInitIterator (ho_env h k) (Some (lg_udidMap lg)) of
        None \<Rightarrow> (SOFTBUS_ERR, None)
      | Some it \<Rightarrow> (SOFTBUS_OK, Some (length (filter (wanted isNeedMeta) (visited (lg_udidMap lg) it)))))"

text \<open>The array \<open>arr\<close> is filled from index \<open>i\<close> on, while there are nodes and \<open>i\<close> is below \<open>infoNum\<close>.\<close>

fun fill_loop :: "bool \<Rightarrow> nat \<Rightarrow> 'r NodeInfo list \<Rightarrow> nat \<Rightarrow> NodeBasicInfo list \<Rightarrow> NodeBasicInfo list outcome" where
  "fill_loop isNeedMeta infoNum [] i arr = Done arr"
| "fill_loop isNeedMeta infoNum (x # xs) i arr =
     (if \<not> i < infoNum then Done arr
      else if wanted isNeedMeta x then
        (if i \<ge> length arr then Undef
         else fill_loop isNeedMeta infoNum xs (Suc i)
           (arr[i := the (snd (ConvertNodeInfoToBasicInfo (Some x) (Some (arr ! i))))]))
      else fill_loop isNeedMeta infoNum xs i arr)"

definition FillDLOnlineNodeInfoLocked ::
  "'r host \<Rightarrow> nat \<Rightarrow> 'r ledger \<Rightarrow> NodeBasicInfo list \<Rightarrow> nat \<Rightarrow> bool \<Rightarrow> (status \<times> NodeBasicInfo list) outcome" where
  "FillDLOnlineNodeInfoLocked h k lg arr infoNum isNeedMeta =
     (case LnnMapInitIterator (ho_env h k) (Some (lg_udidMap lg)) of
        None \<Rightarrow> Done (SOFTBUS_ERR, arr)
      | Some it \<Rightarrow>
          bind_outcome (fill_loop isNeedMeta infoNum (visited (lg_udidMap lg) it) 0 arr) (\<lambda>arr. Done (SOFTBUS_OK, arr)))"

text \<open>The result is the status, the array (\<open>None\<close> a null pointer) and the count; \<open>None\<close> if the outputs are not written.\<close>

definition GetAllOnlineAndMetaNodeInfo ::
  "'r host \<Rightarrow> 'r ledger \<Rightarrow> bool \<Rightarrow> bool \<Rightarrow> (status \<times> (NodeBasicInfo list option \<times> nat) option) outcome" where
  "GetAllOnlineAndMetaNodeInfo h lg out_null isNeedMeta =
     (if out_null then Done (SOFTBUS_INVALID_PARAM, None)
      else if \<not> lock_ok (ho_env h 0) 0 then Done (SOFTBUS_LOCK_ERR, None)
      else case GetDLOnlineNodeNumLocked h 1 lg isNeedMeta of
        (st, None) \<Rightarrow> Done (SOFTBUS_ERR, Some (None, 0))
      | (st, Some infoNum) \<Rightarrow>
          if infoNum = 0 then Done (SOFTBUS_OK, Some (None, 0))
          else if \<not> SoftBusMalloc (ho_env h 2) 0 (infoNum * SIZEOF_NODE_BASIC_INFO) then Done (SOFTBUS_ERR, Some (None, 0))
          else bind_outcome (FillDLOnlineNodeInfoLocked h 3 lg (map (ho_junk h) [0..<infoNum]) infoNum isNeedMeta) (\<lambda>(st, arr).
            if st \<noteq> SOFTBUS_OK then Done (SOFTBUS_ERR, Some (None, 0)) else Done (SOFTBUS_OK, Some (Some arr, infoNum))))"

definition LnnGetAllOnlineNodeInfo ::
  "'r host \<Rightarrow> 'r ledger \<Rightarrow> bool \<Rightarrow> (status \<times> (NodeBasicInfo list option \<times> nat) option) outcome" where
  "LnnGetAllOnlineNodeInfo h lg out_null = GetAllOnlineAndMetaNodeInfo h lg out_null False"

definition LnnGetAllOnlineAndMetaNodeInfo ::
  "'r host \<Rightarrow> 'r ledger \<Rightarrow> bool \<Rightarrow> (status \<times> (NodeBasicInfo list option \<times> nat) option) outcome" where
  "LnnGetAllOnlineAndMetaNodeInfo h lg out_null = GetAllOnlineAndMetaNodeInfo h lg out_null True"

definition LnnGetAllOnlineNodeNum :: "'r host \<Rightarrow> 'r ledger \<Rightarrow> bool \<Rightarrow> status \<times> nat option" where
  "LnnGetAllOnlineNodeNum h lg out_null =
     (if out_null then (SOFTBUS_INVALID_PARAM, None)
      else if \<not> lock_ok (ho_env h 0) 0 then (SOFTBUS_LOCK_ERR, None)
      else case GetDLOnlineNodeNumLocked h 1 lg True of
        (st, n) \<Rightarrow> if st \<noteq> SOFTBUS_OK then (SOFTBUS_NOT_FIND, n) else (SOFTBUS_OK, n))"

definition LnnIsLSANode :: "'r host \<Rightarrow> 'r ledger \<Rightarrow> NodeBasicInfo \<Rightarrow> bool" where
  "LnnIsLSANode h lg b =
     (let info = LnnGetNodeInfoById h 0 lg (Some (nb_networkId b)) CATEGORY_NETWORK_ID
      in info \<noteq> None \<and> LnnHasDiscoveryType info DISCOVERY_TYPE_LSA)"

definition LnnGetNetworkIdByBtMac :: "'r host \<Rightarrow> 'r ledger \<Rightarrow> bytes option \<Rightarrow> bool \<Rightarrow> u32 \<Rightarrow> status \<times> bytes option" where
  "LnnGetNetworkIdByBtMac h lg btMac buf_null len =
     (if btMac = None \<or> btMac = Some [] \<or> buf_null then (SOFTBUS_INVALID_PARAM, None)
      else if \<not> lock_ok (ho_env h 0) 0 then (SOFTBUS_LOCK_ERR, None)
      else case LnnMapInitIterator (ho_env h 1) (Some (lg_udidMap lg)) of
        None \<Rightarrow> (SOFTBUS_ERR, None)
      | Some it \<Rightarrow>
          (case find (\<lambda>i. (LnnIsNodeOnline (Some i) \<or> ni_isMetaNode i) \<and> StrCmpIgnoreCase (Some (ni_macAddr i)) btMac = SOFTBUS_OK)
                  (visited (lg_udidMap lg) it) of
             None \<Rightarrow> (SOFTBUS_NOT_FIND, None)
           | Some i \<Rightarrow> (case strcpy_s len (ni_networkId i) of (True, s) \<Rightarrow> (SOFTBUS_OK, s) | (False, s) \<Rightarrow> (SOFTBUS_MEM_ERR, s))))"

text \<open>
  The comparison reads \<^verbatim>\<open>SHA_256_HASH_LEN\<close> bytes of the caller's hash, which has \<open>length udidHash\<close> bytes,
  whenever there is a node to compare with.
\<close>

fun udid_hash_loop :: "'r host \<Rightarrow> bytes \<Rightarrow> u32 \<Rightarrow> 'r NodeInfo list \<Rightarrow> (status \<times> bytes option) outcome" where
  "udid_hash_loop h udidHash len [] = Done (SOFTBUS_NOT_FIND, None)"
| "udid_hash_loop h udidHash len (i # is) =
     (if LnnIsNodeOnline (Some i) \<or> ni_isMetaNode i then
        (case ho_hash h (ni_deviceUdid i) of
           None \<Rightarrow> udid_hash_loop h udidHash len is
         | Some x \<Rightarrow>
             if length udidHash < SHA_256_HASH_LEN then Undef
             else if x \<noteq> take SHA_256_HASH_LEN udidHash then udid_hash_loop h udidHash len is
             else (case strcpy_s len (ni_networkId i) of (True, s) \<Rightarrow> Done (SOFTBUS_OK, s) | (False, s) \<Rightarrow> Done (SOFTBUS_MEM_ERR, s)))
      else udid_hash_loop h udidHash len is)"

definition LnnGetNetworkIdByUdidHash ::
  "'r host \<Rightarrow> 'r ledger \<Rightarrow> bytes option \<Rightarrow> bool \<Rightarrow> u32 \<Rightarrow> (status \<times> bytes option) outcome" where
  "LnnGetNetworkIdByUdidHash h lg udidHash buf_null len =
     (if udidHash = None \<or> buf_null \<or> udidHash = Some [] then Done (SOFTBUS_INVALID_PARAM, None)
      else if \<not> lock_ok (ho_env h 0) 0 then Done (SOFTBUS_LOCK_ERR, None)
      else case LnnMapInitIterator (ho_env h 1) (Some (lg_udidMap lg)) of
        None \<Rightarrow> Done (SOFTBUS_ERR, None)
      | Some it \<Rightarrow> udid_hash_loop h (the udidHash) len (visited (lg_udidMap lg) it))"

text \<open>One record is filled for all callbacks.\<close>

fun post_loop :: "'r NodeInfo list \<Rightarrow> NodeBasicInfo \<Rightarrow> 'r ledger \<Rightarrow> 'r ledger" where
  "post_loop [] basic lg = lg"
| "post_loop (i # is) basic lg =
     (if LnnIsNodeOnline (Some i)
      then let basic = the (snd (ConvertNodeInfoToBasicInfo (Some i) (Some basic))) in post_loop is basic (ledger_event (OnNodeOnline basic) lg)
      else post_loop is basic lg)"

definition PostOnlineNodesToCb :: "'r host \<Rightarrow> bool \<Rightarrow> 'r ledger \<Rightarrow> 'r ledger" where
  "PostOnlineNodesToCb h cb_null lg =
     (if cb_null then lg
      else case LnnMapInitIterator (ho_env h 0) (Some (lg_udidMap lg)) of
        None \<Rightarrow> lg
      | Some it \<Rightarrow> post_loop (visited (lg_udidMap lg) it) empty_basic lg)"

subsection \<open>Connection codes\<close>

definition CreateCnnCodeKey :: "env \<Rightarrow> bytes option \<Rightarrow> disc_type \<Rightarrow> bytes option" where
  "CreateCnnCodeKey e uuid type =
     (case uuid of
        None \<Rightarrow> None
      | Some u \<Rightarrow>
          if length u \<ge> UUID_BUF_LEN then None
          else if \<not> SoftBusCalloc e 0 (INT_TO_STR_SIZE + UUID_BUF_LEN) then None
          else let key = dec_int (int type) @ u in
            if length key \<ge> INT_TO_STR_SIZE + UUID_BUF_LEN then None else Some key)"

definition AddCnnCode ::
  "bool \<Rightarrow> env \<Rightarrow> env \<Rightarrow> 16 word lnn_map \<Rightarrow> bytes option \<Rightarrow> disc_type \<Rightarrow> i64 \<Rightarrow> status \<times> 16 word lnn_map" where
  "AddCnnCode sc e e' m uuid type authSeqNum =
     (case CreateCnnCodeKey e uuid type of
        None \<Rightarrow> (SOFTBUS_ERR, m)
      | Some key \<Rightarrow>
          (case LnnMapSet sc e' (Some m) (Some key) (Some (ucast authSeqNum)) 2 of
             (st, m') \<Rightarrow> (if st \<noteq> SOFTBUS_OK then SOFTBUS_ERR else SOFTBUS_OK, the m')))"

definition RemoveCnnCode :: "bool \<Rightarrow> env \<Rightarrow> 16 word lnn_map \<Rightarrow> bytes option \<Rightarrow> disc_type \<Rightarrow> 16 word lnn_map" where
  "RemoveCnnCode sc e m uuid type =
     (case CreateCnnCodeKey e uuid type of None \<Rightarrow> m | Some key \<Rightarrow> the (snd (LnnMapErase sc (Some m) (Some key))))"

definition LnnGetCnnCode :: "'r host \<Rightarrow> 'r ledger \<Rightarrow> bytes option \<Rightarrow> disc_type \<Rightarrow> 16 word" where
  "LnnGetCnnCode h lg uuid type =
     (case CreateCnnCodeKey (ho_env h 0) uuid type of
        None \<Rightarrow> INVALID_CONNECTION_CODE_VALUE
      | Some key \<Rightarrow>
          (case LnnMapGet (ho_signed_char h) (Some (lg_connectionCode lg)) (Some key) of
             None \<Rightarrow> INVALID_CONNECTION_CODE_VALUE
           | Some code \<Rightarrow> code))"

subsection \<open>A node comes online\<close>

record NodeInfoAbility =
  ab_isOffline :: bool
  ab_oldWifiFlag :: bool
  ab_oldBrFlag :: bool
  ab_oldBleFlag :: bool
  ab_isChanged :: bool
  ab_isMigrateEvent :: bool
  ab_isNetworkChanged :: bool
  ab_newWifiFlag :: bool
  ab_newBleBrFlag :: bool

definition UpdateNetworkInfo :: "'r host \<Rightarrow> nat \<Rightarrow> bytes option \<Rightarrow> 'r ledger \<Rightarrow> 'r ledger" where
  "UpdateNetworkInfo h k udid lg =
     (case LnnGetBasicInfoByUdid h k lg udid (Some empty_basic) of
        (st, b) \<Rightarrow> if st \<noteq> SOFTBUS_OK then lg else ledger_event (BasicInfoChanged (the b)) lg)"

definition NewWifiDiscovered :: "'r NodeInfo \<Rightarrow> 'r NodeInfo \<Rightarrow> 'r NodeInfo" where
  "NewWifiDiscovered oldInfo newInfo =
     (let i = newInfo\<lparr>ni_discoveryType := ni_discoveryType newInfo OR ni_discoveryType oldInfo\<rparr>
      in if ni_macAddr i = [] then LnnSetBtMac i (ni_macAddr oldInfo) else i)"

definition NewBrBleDiscovered :: "'r NodeInfo \<Rightarrow> 'r NodeInfo \<Rightarrow> 'r NodeInfo" where
  "NewBrBleDiscovered oldInfo newInfo =
     (let i = newInfo\<lparr>ni_discoveryType := ni_discoveryType newInfo OR ni_discoveryType oldInfo\<rparr>;
          i = (if ni_deviceIp i = [] then LnnSetWiFiIp i (ni_deviceIp oldInfo) else i)
      in i\<lparr>ni_authPort := ni_authPort oldInfo, ni_proxyPort := ni_proxyPort oldInfo, ni_sessionPort := ni_sessionPort oldInfo\<rparr>)"

definition RetainOfflineCode :: "env \<Rightarrow> 'r NodeInfo \<Rightarrow> 'r NodeInfo \<Rightarrow> 'r NodeInfo" where
  "RetainOfflineCode e oldInfo newInfo =
     (if \<not> memcpy_ok e 4 4 then newInfo else newInfo\<lparr>ni_offlineCode := ni_offlineCode oldInfo\<rparr>)"

definition IsNetworkIdChanged :: "'r NodeInfo \<Rightarrow> 'r NodeInfo \<Rightarrow> bool" where
  "IsNetworkIdChanged newInfo oldInfo \<longleftrightarrow> ni_networkId newInfo \<noteq> ni_networkId oldInfo"

definition MergeLnnInfo :: "'r NodeInfo \<Rightarrow> 'r NodeInfo \<Rightarrow> 'r NodeInfo" where
  "MergeLnnInfo oldInfo i =
     i\<lparr>ni_relation := map2 (\<lambda>r r'. (r + r') AND LNN_RELATION_MASK) (ni_relation i) (ni_relation oldInfo),
       ni_authChannelId := map2 (\<lambda>(c, s) (c', s'). (if c' \<noteq> 0 \<and> c = 0 then c' else c, if s' \<noteq> 0 \<and> s = 0 then s' else s))
         (ni_authChannelId i) (ni_authChannelId oldInfo)\<rparr>"

definition UpdateNewNodeAccountHash :: "'r host \<Rightarrow> 'r NodeInfo \<Rightarrow> 'r NodeInfo" where
  "UpdateNewNodeAccountHash h i =
     (let accountString = dec_int (sint (ni_accountId i)) in
      if length accountString \<ge> LONG_TO_STRING_MAX_LEN then i
      else case ho_hash h accountString of None \<Rightarrow> i | Some x \<Rightarrow> i\<lparr>ni_accountHash := x\<rparr>)"

text \<open>The branch for a node that is online already; \<open>wifi\<close> and \<open>blebr\<close> are the flags of the new information.\<close>

definition merge_discovery :: "env \<Rightarrow> 'r NodeInfo \<Rightarrow> 'r NodeInfo \<Rightarrow> bool \<Rightarrow> bool \<Rightarrow> bool \<times> 'r NodeInfo" where
  "merge_discovery e old i wifi blebr =
     (let oldWifi = LnnHasDiscoveryType (Some old) DISCOVERY_TYPE_WIFI;
          oldBle = LnnHasDiscoveryType (Some old) DISCOVERY_TYPE_BLE;
          oldBr = LnnHasDiscoveryType (Some old) DISCOVERY_TYPE_BR
      in if (oldBle \<or> oldBr) \<and> wifi then (True, NewWifiDiscovered old i)
      else if oldWifi \<and> blebr then (True, NewBrBleDiscovered old (RetainOfflineCode e old i))
      else (False, RetainOfflineCode e old i))"

definition GetNodeInfoDiscovery ::
  "env \<Rightarrow> 'r NodeInfo option \<Rightarrow> 'r NodeInfo \<Rightarrow> 'r ledger \<Rightarrow> 'r NodeInfo \<times> NodeInfoAbility \<times> 'r ledger" where
  "GetNodeInfoDiscovery e oldInfo i lg =
     (let wifi = LnnHasDiscoveryType (Some i) DISCOVERY_TYPE_WIFI;
          blebr = LnnHasDiscoveryType (Some i) DISCOVERY_TYPE_BLE \<or> LnnHasDiscoveryType (Some i) DISCOVERY_TYPE_BR;
          ab = \<lparr>ab_isOffline = True, ab_oldWifiFlag = False, ab_oldBrFlag = False, ab_oldBleFlag = False, ab_isChanged = False,
            ab_isMigrateEvent = False, ab_isNetworkChanged = False, ab_newWifiFlag = wifi, ab_newBleBrFlag = blebr\<rparr>
      in case oldInfo of
        None \<Rightarrow> (i, ab, lg)
      | Some old \<Rightarrow>
          let i = i\<lparr>ni_isMetaNode := ni_isMetaNode old, ni_metaDiscType := ni_metaDiscType old\<rparr> in
          if \<not> LnnIsNodeOnline oldInfo then (i, ab, lg)
          else let oldWifi = LnnHasDiscoveryType oldInfo DISCOVERY_TYPE_WIFI;
              oldBle = LnnHasDiscoveryType oldInfo DISCOVERY_TYPE_BLE;
              oldBr = LnnHasDiscoveryType oldInfo DISCOVERY_TYPE_BR;
              isChanged = IsNetworkIdChanged i old;
              (isNetworkChanged, i) = merge_discovery e old i wifi blebr;
              i = MergeLnnInfo old (i\<lparr>ni_discoveryType := ni_discoveryType i OR ni_discoveryType old, ni_heartbeatTimestamp := ni_heartbeatTimestamp old\<rparr>)
            in (i, ab\<lparr>ab_isOffline := False, ab_isChanged := isChanged, ab_oldWifiFlag := oldWifi, ab_oldBleFlag := oldBle,
                ab_oldBrFlag := oldBr, ab_isNetworkChanged := isNetworkChanged,
                ab_isMigrateEvent := (oldBle \<or> oldBr) \<and> \<not> oldWifi \<and> wifi\<rparr>,
              ledger_event (UpdateProfile i) lg))"

definition SOFTBUS_VERSION_FOR_INITCONNECTFLAG :: bytes where
  "SOFTBUS_VERSION_FOR_INITCONNECTFLAG = [49, 49, 46, 49, 46, 48, 46, 48, 48, 49]"

definition prevent_flag :: "'r NodeInfo \<Rightarrow> 'r NodeInfo \<Rightarrow> bool" where
  "prevent_flag localNodeInfo i =
     (if ni_bleStartTimestamp localNodeInfo < ni_bleStartTimestamp i then True
      else if ni_bleStartTimestamp localNodeInfo > ni_bleStartTimestamp i then False
      else if strcmp (ni_softBusVersion i) SOFTBUS_VERSION_FOR_INITCONNECTFLAG < 0 then True
      else if strcmp (ni_networkId i) (ni_networkId localNodeInfo) \<le> 0 then True
      else False)"

definition OnlinePreventBrConnection :: "'r host \<Rightarrow> 'r NodeInfo \<Rightarrow> 'r ledger \<Rightarrow> 'r ledger" where
  "OnlinePreventBrConnection h i lg =
     (case ho_local h of
        None \<Rightarrow> lg
      | Some localNodeInfo \<Rightarrow>
          (case str_copy (unat BT_MAC_LEN) (ni_macAddr i) of
             (False, s) \<Rightarrow> lg
           | (True, s) \<Rightarrow> if prevent_flag localNodeInfo i then ledger_event (PreventConnection s) lg else lg))"

definition NotifyMigrateUpgrade :: "'r host \<Rightarrow> nat \<Rightarrow> 'r NodeInfo \<Rightarrow> 'r ledger \<Rightarrow> 'r ledger" where
  "NotifyMigrateUpgrade h k i lg =
     (case LnnGetBasicInfoByUdid h k lg (Some (ni_deviceUdid i)) (Some empty_basic) of
        (st, b) \<Rightarrow> if st = SOFTBUS_OK then ledger_event (NotifyMigrate True (the b)) lg else lg)"

definition NodeOnlineProc :: "env \<Rightarrow> 'r NodeInfo \<Rightarrow> 'r ledger \<Rightarrow> 'r ledger" where
  "NodeOnlineProc e i lg =
     (if \<not> memcpy_ok e (unat SIZEOF_NODE_INFO) (unat SIZEOF_NODE_INFO) then lg else ledger_event (BleDirectlyOnlineProc i) lg)"

text \<open>Setting a node in the map of udids; the callers ignore the status.\<close>

definition put_node :: "'r host \<Rightarrow> nat \<Rightarrow> bytes \<Rightarrow> 'r NodeInfo \<Rightarrow> 'r ledger \<Rightarrow> 'r ledger" where
  "put_node h k udid i lg =
     lg\<lparr>lg_udidMap := the (snd (LnnMapSet (ho_signed_char h) (ho_env h k) (Some (lg_udidMap lg)) (Some udid) (Some i) SIZEOF_NODE_INFO))\<rparr>"

definition find_node :: "'r host \<Rightarrow> bytes option \<Rightarrow> 'r ledger \<Rightarrow> 'r NodeInfo option" where
  "find_node h udid lg = LnnMapGet (ho_signed_char h) (Some (lg_udidMap lg)) udid"

text \<open>What follows once the node is in the map and the lock is released.\<close>

definition online_notices :: "'r host \<Rightarrow> NodeInfoAbility \<Rightarrow> 'r NodeInfo \<Rightarrow> 'r ledger \<Rightarrow> ReportCategory \<times> 'r ledger" where
  "online_notices h ab i lg =
     (let lg = ledger_event (UpdateDpSameAccount (ni_accountHash i) (ni_deviceUdid i)) (NodeOnlineProc (ho_env h 5) i lg);
          lg = (if ab_isNetworkChanged ab then UpdateNetworkInfo h 6 (Some (ni_deviceUdid i)) lg else lg)
      in if ab_isOffline ab then
           let lg = (if \<not> ab_oldWifiFlag ab \<and> \<not> ab_newWifiFlag ab \<and> ab_newBleBrFlag ab then OnlinePreventBrConnection h i lg else lg)
           in (REPORT_ONLINE, ledger_event (InsertToProfile i) lg)
         else let lg = (if ab_isMigrateEvent ab then NotifyMigrateUpgrade h 7 i lg else lg)
           in (if ab_isChanged ab then REPORT_CHANGE else REPORT_NONE, lg))"

text \<open>The node is stamped before the pointer is checked. The result is the report and the node of the caller.\<close>

definition LnnAddOnlineNode ::
  "'r host \<Rightarrow> 'r NodeInfo option \<Rightarrow> 'r ledger \<Rightarrow> (ReportCategory \<times> 'r NodeInfo \<times> 'r ledger) outcome" where
  "LnnAddOnlineNode h info lg =
     (case info of
        None \<Rightarrow> Undef
      | Some i \<Rightarrow>
          let i = i\<lparr>ni_onlinetTimestamp := ho_now h\<rparr>;
              lg = (if LnnHasDiscoveryType (Some i) DISCOVERY_TYPE_BR
                    then lg\<lparr>lg_connectionCode := snd (AddCnnCode (ho_signed_char h) (ho_env h 0) (ho_env h 1) (lg_connectionCode lg)
                      (Some (ni_uuid i)) DISCOVERY_TYPE_BR (ni_authSeqNum i))\<rparr>
                    else lg)
          in if \<not> lock_ok (ho_env h 2) 0 then Done (REPORT_NONE, i, lg)
          else let (i, ab, lg) = GetNodeInfoDiscovery (ho_env h 3) (find_node h (Some (ni_deviceUdid i)) lg) i lg;
              i = UpdateNewNodeAccountHash h (set_auth_type ONLINE_HICHAIN (LnnSetNodeConnStatus i STATUS_ONLINE));
              (r, lg) = online_notices h ab i (put_node h 4 (ni_deviceUdid i) i lg)
            in Done (r, i, lg))"

subsection \<open>A node goes offline\<close>

definition NotifyMigrateDegrade :: "'r host \<Rightarrow> nat \<Rightarrow> bytes option \<Rightarrow> 'r ledger \<Rightarrow> 'r ledger" where
  "NotifyMigrateDegrade h k udid lg =
     (case LnnGetBasicInfoByUdid h k lg udid (Some empty_basic) of
        (st, b) \<Rightarrow> if st = SOFTBUS_OK then ledger_event (NotifyMigrate False (the b)) lg else lg)"

text \<open>Access to \<^verbatim>\<open>authChannelId\<close> outside its bounds is undefined.\<close>

definition ClearAuthChannelId :: "'r NodeInfo \<Rightarrow> addr_type \<Rightarrow> int \<Rightarrow> (ReportCategory \<times> 'r NodeInfo) outcome" where
  "ClearAuthChannelId i type authId =
     (if type \<ge> length (ni_authChannelId i) then Undef
      else let (c, s) = ni_authChannelId i ! type;
          c' = (if c = authId then 0 else c);
          s' = (if s = authId then 0 else s)
        in if (LnnHasDiscoveryType (Some i) DISCOVERY_TYPE_WIFI \<and> LnnConvAddrTypeToDiscType type = DISCOVERY_TYPE_WIFI) \<and> (c' \<noteq> 0 \<or> s' \<noteq> 0)
        then Done (REPORT_NONE, i\<lparr>ni_authChannelId := (ni_authChannelId i)[type := (c', s')]\<rparr>)
        else Done (REPORT_OFFLINE, i\<lparr>ni_authChannelId := (ni_authChannelId i)[type := (0, 0)]\<rparr>))"

definition LnnCleanNodeInfo :: "'r NodeInfo \<Rightarrow> 'r NodeInfo" where
  "LnnCleanNodeInfo i = clear_auth_type ONLINE_HICHAIN (LnnSetNodeConnStatus i STATUS_OFFLINE)"

text \<open>The counter of the connections of one type goes down.\<close>

definition drop_relation :: "addr_type \<Rightarrow> 'r NodeInfo \<Rightarrow> 'r NodeInfo outcome" where
  "drop_relation type i =
     (if type = CONNECTION_ADDR_MAX then Done i
      else if type \<ge> length (ni_relation i) then Undef
      else if ni_relation i ! type > 0 then Done (i\<lparr>ni_relation := (ni_relation i)[type := ni_relation i ! type - 1]\<rparr>)
      else Done i)"

definition write_node_at :: "'r host \<Rightarrow> bytes option \<Rightarrow> 'r NodeInfo \<Rightarrow> 'r ledger \<Rightarrow> 'r ledger" where
  "write_node_at h udid i lg =
     (case udid of
        None \<Rightarrow> lg
      | Some u \<Rightarrow> lg\<lparr>lg_udidMap := LnnMapGet_write (ho_signed_char h) u (\<lambda>_. i) (lg_udidMap lg)\<rparr>)"

text \<open>From the clearing of the discovery type on, with the lock held at first.\<close>

definition offline_finish :: "'r host \<Rightarrow> bytes option \<Rightarrow> addr_type \<Rightarrow> 'r NodeInfo \<Rightarrow> 'r ledger \<Rightarrow> ReportCategory \<times> 'r ledger" where
  "offline_finish h udid type i lg =
     (let i = (if LnnConvAddrTypeToDiscType type = DISCOVERY_TYPE_WIFI then LnnSetWiFiIp i LOCAL_IP else i);
          i = snd (LnnClearDiscoveryType i (LnnConvAddrTypeToDiscType type))
      in if ni_discoveryType i \<noteq> 0 then
           let lg = UpdateNetworkInfo h 2 udid (write_node_at h udid i lg)
           in (REPORT_NONE, if type = CONNECTION_ADDR_WLAN then NotifyMigrateDegrade h 3 udid lg else lg)
         else if \<not> LnnIsNodeOnline (Some i) then (REPORT_NONE, write_node_at h udid i lg)
         else (REPORT_OFFLINE, write_node_at h udid (LnnCleanNodeInfo i) lg))"

definition drop_code :: "'r host \<Rightarrow> addr_type \<Rightarrow> 'r NodeInfo \<Rightarrow> 'r ledger \<Rightarrow> 'r ledger" where
  "drop_code h type i lg =
     (if LnnHasDiscoveryType (Some i) DISCOVERY_TYPE_BR \<and> LnnConvAddrTypeToDiscType type = DISCOVERY_TYPE_BR
      then lg\<lparr>lg_connectionCode := RemoveCnnCode (ho_signed_char h) (ho_env h 1) (lg_connectionCode lg) (Some (ni_uuid i)) DISCOVERY_TYPE_BR\<rparr>
      else lg)"

definition LnnSetNodeOffline ::
  "'r host \<Rightarrow> bytes option \<Rightarrow> addr_type \<Rightarrow> int \<Rightarrow> 'r ledger \<Rightarrow> (ReportCategory \<times> 'r ledger) outcome" where
  "LnnSetNodeOffline h udid type authId lg =
     (if \<not> lock_ok (ho_env h 0) 0 then Done (REPORT_NONE, lg)
      else case find_node h udid lg of
        None \<Rightarrow> Done (REPORT_NONE, lg)
      | Some i \<Rightarrow>
          bind_outcome (drop_relation type i) (\<lambda>i.
            let lg = drop_code h type i lg
            in bind_outcome (ClearAuthChannelId i type authId) (\<lambda>(r, i).
              if r = REPORT_NONE then Done (REPORT_NONE, write_node_at h udid i lg)
              else Done (offline_finish h udid type i lg))))"

subsection \<open>Updates\<close>

definition LnnRemoveNode :: "'r host \<Rightarrow> bytes option \<Rightarrow> 'r ledger \<Rightarrow> 'r ledger" where
  "LnnRemoveNode h udid lg =
     (if udid = None then lg
      else if \<not> lock_ok (ho_env h 0) 0 then lg
      else lg\<lparr>lg_udidMap := the (snd (LnnMapErase (ho_signed_char h) (Some (lg_udidMap lg)) udid))\<rparr>)"

definition LnnUpdateNetworkId :: "'r host \<Rightarrow> 'r NodeInfo \<Rightarrow> 'r ledger \<Rightarrow> status \<times> 'r ledger" where
  "LnnUpdateNetworkId h newInfo lg =
     (if \<not> lock_ok (ho_env h 0) 0 then (SOFTBUS_LOCK_ERR, lg)
      else case find_node h (Some (ni_deviceUdid newInfo)) lg of
        None \<Rightarrow> (SOFTBUS_ERR, lg)
      | Some old \<Rightarrow>
          (case str_copy NETWORK_ID_BUF_LEN (ni_networkId newInfo) of
             (c, s) \<Rightarrow> (SOFTBUS_OK, write_node_at h (Some (ni_deviceUdid newInfo)) (old\<lparr>ni_networkId := s\<rparr>) lg)))"

text \<open>What a node found over Wi-Fi brings.\<close>

definition renew_ports :: "'r NodeInfo \<Rightarrow> 'r NodeInfo \<Rightarrow> 'r NodeInfo" where
  "renew_ports newInfo old =
     (if LnnHasDiscoveryType (Some newInfo) DISCOVERY_TYPE_WIFI \<or> LnnHasDiscoveryType (Some newInfo) DISCOVERY_TYPE_LSA
      then old\<lparr>ni_discoveryType := ni_discoveryType newInfo OR ni_discoveryType old,
        ni_authPort := ni_authPort newInfo, ni_proxyPort := ni_proxyPort newInfo, ni_sessionPort := ni_sessionPort newInfo\<rparr>
      else old)"

definition LnnUpdateNodeInfo :: "'r host \<Rightarrow> 'r NodeInfo \<Rightarrow> 'r ledger \<Rightarrow> status \<times> 'r NodeInfo \<times> 'r ledger" where
  "LnnUpdateNodeInfo h newInfo lg =
     (let newInfo = UpdateNewNodeAccountHash h newInfo;
          lg = ledger_event (UpdateDpSameAccount (ni_accountHash newInfo) (ni_deviceUdid newInfo)) lg;
          udid = ni_deviceUdid newInfo
      in if \<not> lock_ok (ho_env h 0) 0 then (SOFTBUS_LOCK_ERR, newInfo, lg)
      else case find_node h (Some udid) lg of
        None \<Rightarrow> (SOFTBUS_ERR, newInfo, lg)
      | Some old \<Rightarrow>
          let old = renew_ports newInfo old
          in (case str_copy DEVICE_NAME_BUF_LEN (ni_deviceName newInfo) of
               (False, s) \<Rightarrow> (SOFTBUS_STRCPY_ERR, newInfo, write_node_at h (Some udid) (old\<lparr>ni_deviceName := s\<rparr>) lg)
             | (True, s) \<Rightarrow>
                 let old = old\<lparr>ni_deviceName := s\<rparr> in
                 if \<not> memcpy_ok (ho_env h 1) SHA_256_HASH_LEN SHA_256_HASH_LEN
                 then (SOFTBUS_ERR, newInfo, write_node_at h (Some udid) old lg)
                 else (SOFTBUS_OK, newInfo, write_node_at h (Some udid)
                   (old\<lparr>ni_accountHash := ni_accountHash newInfo, ni_accountId := ni_accountId newInfo\<rparr>) lg)))"

text \<open>The key given to the map is the udid in the node of the caller, after that node was overwritten.\<close>

definition LnnAddMetaInfo :: "'r host \<Rightarrow> 'r NodeInfo \<Rightarrow> 'r ledger \<Rightarrow> status \<times> 'r NodeInfo \<times> 'r ledger" where
  "LnnAddMetaInfo h info lg =
     (if \<not> lock_ok (ho_env h 0) 0 then (SOFTBUS_LOCK_ERR, info, lg)
      else let oldInfo = find_node h (Some (ni_deviceUdid info)) lg;
          same = (case oldInfo of None \<Rightarrow> False | Some old \<Rightarrow> ni_networkId old = ni_networkId info)
        in if same \<and> \<not> memcpy_ok (ho_env h 1) (unat SIZEOF_NODE_INFO) (unat SIZEOF_NODE_INFO) then (SOFTBUS_MEM_ERR, info, lg)
        else let i = (if same then (the oldInfo)\<lparr>ni_isMetaNode := True,
                        ni_metaDiscType := ni_metaDiscType (the oldInfo) OR ni_metaDiscType info\<rparr> else info);
            i = set_auth_type ONLINE_METANODE i
          in (SOFTBUS_OK, i, put_node h 2 (ni_deviceUdid i) i lg))"

definition LnnDeleteMetaInfo :: "'r host \<Rightarrow> bytes option \<Rightarrow> addr_type \<Rightarrow> 'r ledger \<Rightarrow> status \<times> 'r ledger" where
  "LnnDeleteMetaInfo h udid type lg =
     (let discType = LnnConvAddrTypeToDiscType type in
      if discType = DISCOVERY_TYPE_COUNT then (SOFTBUS_NETWORK_DELETE_INFO_ERR, lg)
      else if \<not> lock_ok (ho_env h 0) 0 then (SOFTBUS_LOCK_ERR, lg)
      else case find_node h udid lg of
        None \<Rightarrow> (SOFTBUS_NETWORK_DELETE_INFO_ERR, lg)
      | Some i \<Rightarrow>
          let i = i\<lparr>ni_metaDiscType := ni_metaDiscType i AND NOT (push_bit discType 1)\<rparr>;
              i = (if ni_metaDiscType i = 0 then i\<lparr>ni_isMetaNode := False\<rparr> else i);
              i = clear_auth_type ONLINE_METANODE i
          in (SOFTBUS_OK, put_node h 1 (the udid) i (write_node_at h udid i lg)))"

definition LnnUpdateAccountInfo :: "'r host \<Rightarrow> 'r NodeInfo option \<Rightarrow> 'r ledger \<Rightarrow> status \<times> 'r ledger" where
  "LnnUpdateAccountInfo h info lg =
     (case info of
        None \<Rightarrow> (SOFTBUS_INVALID_PARAM, lg)
      | Some i \<Rightarrow>
          if \<not> lock_ok (ho_env h 0) 0 then (SOFTBUS_OK, lg)
          else (case find_node h (Some (ni_deviceUdid i)) lg of
              None \<Rightarrow> (SOFTBUS_OK, lg)
            | Some old \<Rightarrow>
                (SOFTBUS_OK, write_node_at h (Some (ni_deviceUdid i)) (UpdateNewNodeAccountHash h (old\<lparr>ni_accountId := ni_accountId i\<rparr>)) lg)))"

text \<open>What \<^verbatim>\<open>AuthGetGroupType\<close> returns is an argument.\<close>

definition LnnUpdateGroupType :: "'r host \<Rightarrow> int \<Rightarrow> 'r NodeInfo option \<Rightarrow> 'r ledger \<Rightarrow> status \<times> 'r ledger" where
  "LnnUpdateGroupType h groupType info lg =
     (case info of
        None \<Rightarrow> (SOFTBUS_INVALID_PARAM, lg)
      | Some i \<Rightarrow>
          if \<not> lock_ok (ho_env h 0) 0 then (SOFTBUS_LOCK_ERR, lg)
          else (case find_node h (Some (ni_deviceUdid i)) lg of
              None \<Rightarrow> (SOFTBUS_ERR, lg)
            | Some old \<Rightarrow> (SOFTBUS_OK, write_node_at h (Some (ni_deviceUdid i)) (old\<lparr>ni_groupType := groupType\<rparr>) lg)))"


end
