(* ===== verification/Lnn_Ledger_Laws.thy ===== *)
theory Lnn_Ledger_Laws
  imports Lnn_Ledger
begin

text \<open>
  The laws of the ledger of remote nodes: an invariant kept by every operation whatever fails in it,
  the agreement between the reports to applications and the state of the nodes, the queries, and
  which of two devices holds back its BR connection. The steps are proved one operation at a time
  (\<open>good_step\<close>), from what the primitives do to the map of nodes, and composed along histories.
\<close>

unbundle bit_operations_syntax

subsection \<open>Histories\<close>

text \<open>
  The operations that change the ledger, as one type. A history is a list of operations, each with
  what it is given from outside.
\<close>

datatype 'r ledger_op =
  AddOnline "'r NodeInfo"
  | SetOffline bytes addr_type int
  | UpdateNode "'r NodeInfo"
  | UpdateNetId "'r NodeInfo"
  | UpdateAccount "'r NodeInfo"
  | UpdateGroup int "'r NodeInfo"
  | AddMeta "'r NodeInfo"
  | DeleteMeta bytes addr_type
  | RemoveNode bytes

fun op_udid :: "'r ledger_op \<Rightarrow> bytes" where
  "op_udid (AddOnline i) = ni_deviceUdid i"
| "op_udid (SetOffline u t a) = u"
| "op_udid (UpdateNode i) = ni_deviceUdid i"
| "op_udid (UpdateNetId i) = ni_deviceUdid i"
| "op_udid (UpdateAccount i) = ni_deviceUdid i"
| "op_udid (UpdateGroup g i) = ni_deviceUdid i"
| "op_udid (AddMeta i) = ni_deviceUdid i"
| "op_udid (DeleteMeta u t) = u"
| "op_udid (RemoveNode u) = u"

fun ledger_step :: "'r host \<Rightarrow> 'r ledger_op \<Rightarrow> 'r ledger \<Rightarrow> (ReportCategory \<times> 'r ledger) outcome" where
  "ledger_step h (AddOnline i) lg = bind_outcome (LnnAddOnlineNode h (Some i) lg) (\<lambda>(r, i, lg). Done (r, lg))"
| "ledger_step h (SetOffline u t a) lg = LnnSetNodeOffline h (Some u) t a lg"
| "ledger_step h (UpdateNode i) lg = Done (REPORT_NONE, snd (snd (LnnUpdateNodeInfo h i lg)))"
| "ledger_step h (UpdateNetId i) lg = Done (REPORT_NONE, snd (LnnUpdateNetworkId h i lg))"
| "ledger_step h (UpdateAccount i) lg = Done (REPORT_NONE, snd (LnnUpdateAccountInfo h (Some i) lg))"
| "ledger_step h (UpdateGroup g i) lg = Done (REPORT_NONE, snd (LnnUpdateGroupType h g (Some i) lg))"
| "ledger_step h (AddMeta i) lg = Done (REPORT_NONE, snd (snd (LnnAddMetaInfo h i lg)))"
| "ledger_step h (DeleteMeta u t) lg = Done (REPORT_NONE, snd (LnnDeleteMetaInfo h (Some u) t lg))"
| "ledger_step h (RemoveNode u) lg = Done (REPORT_NONE, LnnRemoveNode h (Some u) lg)"

fun ledger_run ::
  "('r host \<times> 'r ledger_op) list \<Rightarrow> 'r ledger \<Rightarrow> ((bytes \<times> ReportCategory) list \<times> 'r ledger) outcome" where
  "ledger_run [] lg = Done ([], lg)"
| "ledger_run ((h, c) # ops) lg =
     bind_outcome (ledger_step h c lg) (\<lambda>(r, lg).
       bind_outcome (ledger_run ops lg) (\<lambda>(rs, lg). Done ((op_udid c, r) # rs, lg)))"

subsection \<open>Well-formed ledgers\<close>

definition node_sizes :: "'r NodeInfo \<Rightarrow> bool" where
  "node_sizes i \<longleftrightarrow> length (ni_relation i) = CONNECTION_ADDR_MAX \<and> length (ni_authChannelId i) = CONNECTION_ADDR_MAX \<and>
     length (ni_accountHash i) = SHA_256_HASH_LEN \<and> length (ni_offlineCode i) = 4 \<and> length (ni_networkId i) < NETWORK_ID_BUF_LEN \<and>
     length (ni_uuid i) < UUID_BUF_LEN \<and> length (ni_deviceUdid i) < 65 \<and> length (ni_deviceName i) < DEVICE_NAME_BUF_LEN \<and>
     length (ni_macAddr i) < MAC_LEN \<and> length (ni_deviceIp i) < MAX_ADDR_LEN"

text \<open>A node that is online was authenticated as a device of the trusted group.\<close>

definition node_wf :: "'r NodeInfo \<Rightarrow> bool" where
  "node_wf i \<longleftrightarrow> node_sizes i \<and> (ni_status i = STATUS_ONLINE \<longrightarrow> bit (ni_AuthTypeValue i) ONLINE_HICHAIN)"

definition nodes :: "'r ledger \<Rightarrow> bytes \<Rightarrow> (u32 \<times> 'r NodeInfo) option" where
  "nodes lg = map_view (lg_udidMap lg)"

definition ledger_ok :: "bool \<Rightarrow> 'r ledger \<Rightarrow> bool" where
  "ledger_ok sc lg \<longleftrightarrow> map_ok sc (lg_udidMap lg) \<and> map_ok sc (lg_connectionCode lg) \<and>
     lg_ipMap lg = LnnMapInit \<and> lg_macMap lg = LnnMapInit \<and>
     (\<forall>u z i. nodes lg u = Some (z, i) \<longrightarrow> z = SIZEOF_NODE_INFO \<and> u = ni_deviceUdid i \<and> node_wf i)"

text \<open>The hash is that of a 256 bit function; the arguments of the calls are C objects of their types.\<close>

definition host_ok :: "bool \<Rightarrow> 'r host \<Rightarrow> bool" where
  "host_ok sc h \<longleftrightarrow> ho_signed_char h = sc \<and> (\<forall>x y. ho_hash h x = Some y \<longrightarrow> length y = SHA_256_HASH_LEN)"

fun op_ok :: "'r ledger_op \<Rightarrow> bool" where
  "op_ok (AddOnline i) \<longleftrightarrow> node_sizes i"
| "op_ok (SetOffline u t a) \<longleftrightarrow> t < CONNECTION_ADDR_MAX"
| "op_ok (UpdateNode i) \<longleftrightarrow> node_sizes i"
| "op_ok (UpdateNetId i) \<longleftrightarrow> node_sizes i"
| "op_ok (UpdateAccount i) \<longleftrightarrow> node_sizes i"
| "op_ok (UpdateGroup g i) \<longleftrightarrow> node_sizes i"
| "op_ok (AddMeta i) \<longleftrightarrow> node_wf i"
| "op_ok (DeleteMeta u t) \<longleftrightarrow> True"
| "op_ok (RemoveNode u) \<longleftrightarrow> True"

definition online :: "bytes \<Rightarrow> 'r ledger \<Rightarrow> bool" where
  "online u lg \<longleftrightarrow> (\<exists>z i. nodes lg u = Some (z, i) \<and> ni_status i = STATUS_ONLINE)"

text \<open>Following the reports about one device: \<open>None\<close> if one of them contradicts the state reported before.\<close>

fun follow :: "bool \<Rightarrow> ReportCategory list \<Rightarrow> bool option" where
  "follow b [] = Some b"
| "follow b (REPORT_ONLINE # rs) = (if b then None else follow True rs)"
| "follow b (REPORT_OFFLINE # rs) = (if b then follow False rs else None)"
| "follow b (r # rs) = follow b rs"

subsection \<open>Frames\<close>

named_theorems ledger_frame

lemma event_frame [ledger_frame]:
  "lg_udidMap (ledger_event ev lg) = lg_udidMap lg" "lg_ipMap (ledger_event ev lg) = lg_ipMap lg"
  "lg_macMap (ledger_event ev lg) = lg_macMap lg" "lg_connectionCode (ledger_event ev lg) = lg_connectionCode lg"
  by (simp_all add: ledger_event_def)

lemma notify_frame [ledger_frame]:
  "lg_udidMap (UpdateNetworkInfo h k u lg) = lg_udidMap lg" "lg_ipMap (UpdateNetworkInfo h k u lg) = lg_ipMap lg"
  "lg_macMap (UpdateNetworkInfo h k u lg) = lg_macMap lg" "lg_connectionCode (UpdateNetworkInfo h k u lg) = lg_connectionCode lg"
  "lg_udidMap (NotifyMigrateUpgrade h k i lg) = lg_udidMap lg" "lg_ipMap (NotifyMigrateUpgrade h k i lg) = lg_ipMap lg"
  "lg_macMap (NotifyMigrateUpgrade h k i lg) = lg_macMap lg" "lg_connectionCode (NotifyMigrateUpgrade h k i lg) = lg_connectionCode lg"
  "lg_udidMap (NotifyMigrateDegrade h k u lg) = lg_udidMap lg" "lg_ipMap (NotifyMigrateDegrade h k u lg) = lg_ipMap lg"
  "lg_macMap (NotifyMigrateDegrade h k u lg) = lg_macMap lg" "lg_connectionCode (NotifyMigrateDegrade h k u lg) = lg_connectionCode lg"
  by (auto simp: UpdateNetworkInfo_def NotifyMigrateUpgrade_def NotifyMigrateDegrade_def ledger_frame split: prod.splits)

lemma online_frame [ledger_frame]:
  "lg_udidMap (OnlinePreventBrConnection h i lg) = lg_udidMap lg" "lg_ipMap (OnlinePreventBrConnection h i lg) = lg_ipMap lg"
  "lg_macMap (OnlinePreventBrConnection h i lg) = lg_macMap lg" "lg_connectionCode (OnlinePreventBrConnection h i lg) = lg_connectionCode lg"
  "lg_udidMap (NodeOnlineProc e i lg) = lg_udidMap lg" "lg_ipMap (NodeOnlineProc e i lg) = lg_ipMap lg"
  "lg_macMap (NodeOnlineProc e i lg) = lg_macMap lg" "lg_connectionCode (NodeOnlineProc e i lg) = lg_connectionCode lg"
  by (auto simp: OnlinePreventBrConnection_def NodeOnlineProc_def ledger_frame split: option.splits prod.splits bool.splits)

lemma notices_frame [ledger_frame]:
  "lg_udidMap (snd (online_notices h ab i lg)) = lg_udidMap lg" "lg_ipMap (snd (online_notices h ab i lg)) = lg_ipMap lg"
  "lg_macMap (snd (online_notices h ab i lg)) = lg_macMap lg" "lg_connectionCode (snd (online_notices h ab i lg)) = lg_connectionCode lg"
  by (simp_all add: online_notices_def Let_def ledger_frame)

lemma notices_report:
  "fst (online_notices h ab i lg) = (if ab_isOffline ab then REPORT_ONLINE else if ab_isChanged ab then REPORT_CHANGE else REPORT_NONE)"
  by (simp add: online_notices_def Let_def)

lemma map_frame [ledger_frame]:
  "lg_ipMap (put_node h k u i lg) = lg_ipMap lg" "lg_macMap (put_node h k u i lg) = lg_macMap lg"
  "lg_connectionCode (put_node h k u i lg) = lg_connectionCode lg"
  "lg_ipMap (write_node_at h v i lg) = lg_ipMap lg" "lg_macMap (write_node_at h v i lg) = lg_macMap lg"
  "lg_connectionCode (write_node_at h v i lg) = lg_connectionCode lg"
  by (simp_all add: put_node_def write_node_at_def split: option.splits)

lemma nodes_cong: "lg_udidMap lg = lg_udidMap lg' \<Longrightarrow> nodes lg = nodes lg'"
  by (simp add: nodes_def)


subsection \<open>What the primitives do\<close>

lemma find_nodes:
  "\<lbrakk>ledger_ok sc lg; host_ok sc h\<rbrakk> \<Longrightarrow> find_node h (Some u) lg = map_option snd (nodes lg u)"
  by (simp add: find_node_def ledger_ok_def host_ok_def nodes_def get_view)

lemma put_node_nodes:
  assumes "ledger_ok sc lg" "host_ok sc h" "card (dom (nodes lg)) < 2 ^ 32 - 1"
  shows "map_ok sc (lg_udidMap (put_node h k u i lg))"
    "nodes (put_node h k u i lg) = (nodes lg)(u \<mapsto> (SIZEOF_NODE_INFO, i)) \<or> nodes (put_node h k u i lg) = nodes lg"
proof -
  obtain st mo where r: "LnnMapSet sc (ho_env h k) (Some (lg_udidMap lg)) (Some u) (Some i) SIZEOF_NODE_INFO = (st, mo)" by fastforce
  have "length (entries (lg_udidMap lg)) < 2 ^ 32 - 1"
    using assms(1,3) by (simp add: nodes_def ledger_ok_def flip: map_ok_card [of sc])
  from set_step(1) [OF _ this r] obtain m' where "mo = Some m'" "map_ok sc m'"
    "map_view m' = (if st = SOFTBUS_OK then (map_view (lg_udidMap lg))(u \<mapsto> (SIZEOF_NODE_INFO, i)) else map_view (lg_udidMap lg))"
    using assms(1) by (auto simp: ledger_ok_def)
  then show "map_ok sc (lg_udidMap (put_node h k u i lg))"
    "nodes (put_node h k u i lg) = (nodes lg)(u \<mapsto> (SIZEOF_NODE_INFO, i)) \<or> nodes (put_node h k u i lg) = nodes lg"
    using r assms(2) by (auto simp: put_node_def nodes_def host_ok_def)
qed

lemma put_node_healthy:
  assumes "ledger_ok sc lg" "host_ok sc h" "card (dom (nodes lg)) < 2 ^ 32 - 1" "healthy (ho_env h k)" "length u < 65"
  shows "nodes (put_node h k u i lg) = (nodes lg)(u \<mapsto> (SIZEOF_NODE_INFO, i))"
proof -
  obtain st mo where r: "LnnMapSet sc (ho_env h k) (Some (lg_udidMap lg)) (Some u) (Some i) SIZEOF_NODE_INFO = (st, mo)" by fastforce
  have room: "length (entries (lg_udidMap lg)) < 2 ^ 32 - 1"
    using assms(1,3) by (simp add: nodes_def ledger_ok_def flip: map_ok_card [of sc])
  have ok: "map_ok sc (lg_udidMap lg)" using assms(1) by (simp add: ledger_ok_def)
  have "st = set_status (nodes lg) u SIZEOF_NODE_INFO" using set_step(2) [OF ok room r assms(4)] by (simp add: nodes_def)
  moreover have "set_status (nodes lg) u SIZEOF_NODE_INFO = SOFTBUS_OK"
    using assms(1,5) by (auto simp: set_status_def ledger_ok_def split: option.splits)
  ultimately show ?thesis using set_step(1) [OF ok room r] r assms(2) by (auto simp: put_node_def nodes_def host_ok_def)
qed

lemma write_node_nodes:
  assumes "ledger_ok sc lg" "host_ok sc h"
  shows "map_ok sc (lg_udidMap (write_node_at h (Some u) i lg))"
    "nodes (write_node_at h (Some u) i lg) = (nodes lg)(u := map_option (\<lambda>(z, v). (z, i)) (nodes lg u))"
  using write_view [of sc "lg_udidMap lg" u "\<lambda>_. i"] assms by (simp_all add: write_node_at_def nodes_def ledger_ok_def host_ok_def)

lemma ledger_okI:
  assumes "ledger_ok sc lg" "map_ok sc (lg_udidMap lg')" "map_ok sc (lg_connectionCode lg')"
    "lg_ipMap lg' = lg_ipMap lg" "lg_macMap lg' = lg_macMap lg"
    "\<And>u z i. nodes lg' u = Some (z, i) \<Longrightarrow> nodes lg u = Some (z, i) \<or> z = SIZEOF_NODE_INFO \<and> u = ni_deviceUdid i \<and> node_wf i"
  shows "ledger_ok sc lg'"
  using assms unfolding ledger_ok_def by metis

lemma write_node_ok:
  assumes "ledger_ok sc lg" "host_ok sc h" "nodes lg u = Some (z, old)" "ni_deviceUdid i = ni_deviceUdid old" "node_wf i"
  shows "ledger_ok sc (write_node_at h (Some u) i lg)"
proof (rule ledger_okI [OF assms(1)])
  show "map_ok sc (lg_udidMap (write_node_at h (Some u) i lg))" by (rule write_node_nodes(1) [OF assms(1,2)])
  show "map_ok sc (lg_connectionCode (write_node_at h (Some u) i lg))" using assms(1) by (simp add: ledger_frame ledger_ok_def)
  show "nodes lg v = Some (y, j) \<or> y = SIZEOF_NODE_INFO \<and> v = ni_deviceUdid j \<and> node_wf j"
    if "nodes (write_node_at h (Some u) i lg) v = Some (y, j)" for v y j
    using that assms by (auto simp: write_node_nodes(2) [OF assms(1,2)] ledger_ok_def split: if_splits)
qed (simp_all add: ledger_frame)

lemma put_node_ok:
  assumes "ledger_ok sc lg" "host_ok sc h" "card (dom (nodes lg)) < 2 ^ 32 - 1" "ni_deviceUdid i = u" "node_wf i"
  shows "ledger_ok sc (put_node h k u i lg)"
proof (rule ledger_okI [OF assms(1)])
  show "map_ok sc (lg_udidMap (put_node h k u i lg))" by (rule put_node_nodes(1) [OF assms(1-3)])
  show "map_ok sc (lg_connectionCode (put_node h k u i lg))" using assms(1) by (simp add: ledger_frame ledger_ok_def)
  show "nodes lg v = Some (y, j) \<or> y = SIZEOF_NODE_INFO \<and> v = ni_deviceUdid j \<and> node_wf j"
    if "nodes (put_node h k u i lg) v = Some (y, j)" for v y j
    using that assms(4,5) put_node_nodes(2) [OF assms(1-3), of k u i] by (auto split: if_splits)
qed (simp_all add: ledger_frame)

lemma ledger_ok_event: "ledger_ok sc (ledger_event ev lg) = ledger_ok sc lg"
  by (simp add: ledger_ok_def ledger_frame nodes_def)

lemma ledger_ok_cong:
  "\<lbrakk>lg_udidMap lg' = lg_udidMap lg; lg_ipMap lg' = lg_ipMap lg; lg_macMap lg' = lg_macMap lg; map_ok sc (lg_connectionCode lg')\<rbrakk> \<Longrightarrow>
   ledger_ok sc lg \<Longrightarrow> ledger_ok sc lg'"
  by (simp add: ledger_ok_def nodes_def)

lemma cnn_code_ok:
  "\<lbrakk>map_ok sc m; length (entries m) < 2 ^ 32 - 1\<rbrakk> \<Longrightarrow> map_ok sc (snd (AddCnnCode sc e e' m uuid type s))"
  "map_ok sc m \<Longrightarrow> map_ok sc (RemoveCnnCode sc e m uuid type)"
proof -
  show "map_ok sc (snd (AddCnnCode sc e e' m uuid type s))" if m: "map_ok sc m" "length (entries m) < 2 ^ 32 - 1"
  proof (cases "CreateCnnCodeKey e uuid type")
    case (Some key)
    obtain st mo where r: "LnnMapSet sc e' (Some m) (Some key) (Some (ucast s :: 16 word)) 2 = (st, mo)" by fastforce
    show ?thesis using set_step(1) [OF m r] r Some by (auto simp: AddCnnCode_def)
  qed (use m in \<open>simp add: AddCnnCode_def\<close>)
  show "map_ok sc (RemoveCnnCode sc e m uuid type)" if m: "map_ok sc m"
  proof (cases "CreateCnnCodeKey e uuid type")
    case (Some key)
    obtain st mo where r: "LnnMapErase sc (Some m) (Some key) = (st, mo)" by fastforce
    show ?thesis using erase_step(1) [OF m r] r Some by (auto simp: RemoveCnnCode_def)
  qed (use m in \<open>simp add: RemoveCnnCode_def\<close>)
qed


lemma add_code_card:
  assumes m: "map_ok sc m" "length (entries m) < 2 ^ 32 - 1"
  shows "card (dom (map_view (snd (AddCnnCode sc e e' m uuid type s)))) \<le> Suc (card (dom (map_view m)))"
proof (cases "CreateCnnCodeKey e uuid type")
  case (Some key)
  obtain st mo where r: "LnnMapSet sc e' (Some m) (Some key) (Some (ucast s :: 16 word)) 2 = (st, mo)" by fastforce
  show ?thesis
    using set_step(1) [OF m r] r Some by (auto simp: AddCnnCode_def card_insert_if map_view_def finite_dom_map_of)
qed (simp add: AddCnnCode_def)

lemma remove_code_card:
  assumes m: "map_ok sc m"
  shows "card (dom (map_view (RemoveCnnCode sc e m uuid type))) \<le> card (dom (map_view m))"
proof (cases "CreateCnnCodeKey e uuid type")
  case (Some key)
  obtain st mo where r: "LnnMapErase sc (Some m) (Some key) = (st, mo)" by fastforce
  show ?thesis
    using erase_step(1) [OF m r] r Some by (auto simp: RemoveCnnCode_def map_view_def finite_dom_map_of card_Diff1_le)
qed (simp add: RemoveCnnCode_def)

subsection \<open>Nodes under the operations\<close>

lemma sizes_update [simp]:
  "node_sizes (i\<lparr>ni_discoveryType := d\<rparr>) = node_sizes i"
  "node_sizes (i\<lparr>ni_onlinetTimestamp := t\<rparr>) = node_sizes i"
  "node_sizes (i\<lparr>ni_heartbeatTimestamp := t\<rparr>) = node_sizes i"
  "node_sizes (i\<lparr>ni_status := st\<rparr>) = node_sizes i"
  "node_sizes (i\<lparr>ni_AuthTypeValue := a\<rparr>) = node_sizes i"
  "node_sizes (i\<lparr>ni_isMetaNode := b\<rparr>) = node_sizes i"
  "node_sizes (i\<lparr>ni_metaDiscType := d\<rparr>) = node_sizes i"
  "node_sizes (i\<lparr>ni_authPort := p\<rparr>) = node_sizes i"
  "node_sizes (i\<lparr>ni_proxyPort := p\<rparr>) = node_sizes i"
  "node_sizes (i\<lparr>ni_sessionPort := p\<rparr>) = node_sizes i"
  "node_sizes (i\<lparr>ni_groupType := g\<rparr>) = node_sizes i"
  "node_sizes (i\<lparr>ni_accountId := c\<rparr>) = node_sizes i"
  by (simp_all add: node_sizes_def)

lemma sizes_strings:
  "node_sizes i \<Longrightarrow> node_sizes (LnnSetBtMac i mac)" "node_sizes i \<Longrightarrow> node_sizes (LnnSetWiFiIp i ip)"
  by (simp_all add: LnnSetBtMac_def LnnSetWiFiIp_def str_copy_def node_sizes_def)

lemma keep_strings [simp]:
  "ni_deviceUdid (LnnSetBtMac i mac) = ni_deviceUdid i" "ni_deviceUdid (LnnSetWiFiIp i ip) = ni_deviceUdid i"
  "ni_status (LnnSetWiFiIp i ip) = ni_status i" "ni_AuthTypeValue (LnnSetWiFiIp i ip) = ni_AuthTypeValue i"
  "ni_discoveryType (LnnSetWiFiIp i ip) = ni_discoveryType i"
  by (simp_all add: LnnSetBtMac_def LnnSetWiFiIp_def)

lemma sizes_discovery:
  assumes "node_sizes i" "node_sizes old"
  shows "node_sizes (NewWifiDiscovered old i)" "node_sizes (NewBrBleDiscovered old i)" "node_sizes (RetainOfflineCode e old i)"
    "node_sizes (MergeLnnInfo old i)"
  using assms
  by (simp_all add: NewWifiDiscovered_def NewBrBleDiscovered_def Let_def sizes_strings)
    (simp_all add: RetainOfflineCode_def MergeLnnInfo_def node_sizes_def)

lemma udid_discovery [simp]:
  "ni_deviceUdid (NewWifiDiscovered old i) = ni_deviceUdid i" "ni_deviceUdid (NewBrBleDiscovered old i) = ni_deviceUdid i"
  "ni_deviceUdid (RetainOfflineCode e old i) = ni_deviceUdid i" "ni_deviceUdid (MergeLnnInfo old i) = ni_deviceUdid i"
  by (simp_all add: NewWifiDiscovered_def NewBrBleDiscovered_def RetainOfflineCode_def MergeLnnInfo_def Let_def)

lemma sizes_account: "\<lbrakk>node_sizes i; host_ok sc h\<rbrakk> \<Longrightarrow> node_sizes (UpdateNewNodeAccountHash h i)"
  by (auto simp: UpdateNewNodeAccountHash_def Let_def host_ok_def node_sizes_def split: option.splits)

lemma keep_account [simp]:
  "ni_deviceUdid (UpdateNewNodeAccountHash h i) = ni_deviceUdid i" "ni_status (UpdateNewNodeAccountHash h i) = ni_status i"
  "ni_AuthTypeValue (UpdateNewNodeAccountHash h i) = ni_AuthTypeValue i"
  by (simp_all add: UpdateNewNodeAccountHash_def Let_def split: option.splits)

lemma auth_types:
  "bit (ni_AuthTypeValue (set_auth_type ONLINE_HICHAIN i)) ONLINE_HICHAIN"
  "bit (ni_AuthTypeValue (set_auth_type ONLINE_METANODE i)) ONLINE_HICHAIN = bit (ni_AuthTypeValue i) ONLINE_HICHAIN"
  "bit (ni_AuthTypeValue (clear_auth_type ONLINE_METANODE i)) ONLINE_HICHAIN = bit (ni_AuthTypeValue i) ONLINE_HICHAIN"
  by (simp_all add: set_auth_type_def clear_auth_type_def LnnSetAuthTypeValue_def LnnClearAuthTypeValue_def bit_simps)

lemmas auth_types_Suc = auth_types [unfolded One_nat_def]

lemma keep_auth [simp]:
  "node_sizes (set_auth_type t i) = node_sizes i" "node_sizes (clear_auth_type t i) = node_sizes i"
  "ni_deviceUdid (set_auth_type t i) = ni_deviceUdid i" "ni_deviceUdid (clear_auth_type t i) = ni_deviceUdid i"
  "ni_status (set_auth_type t i) = ni_status i" "ni_status (clear_auth_type t i) = ni_status i"
  by (simp_all add: set_auth_type_def clear_auth_type_def)

lemma discovery:
  assumes "GetNodeInfoDiscovery e oldInfo i lg = (i', ab, lg')" "node_sizes i" "\<And>old. oldInfo = Some old \<Longrightarrow> node_sizes old"
  shows "node_sizes i'" "ni_deviceUdid i' = ni_deviceUdid i" "ab_isOffline ab = (\<not> LnnIsNodeOnline oldInfo)"
    "lg' = lg \<or> lg' = ledger_event (UpdateProfile i') lg"
  using assms
  by (auto simp: GetNodeInfoDiscovery_def merge_discovery_def Let_def LnnIsNodeOnline_def sizes_discovery split: option.splits if_splits prod.splits)


subsection \<open>Steps\<close>

definition room :: "nat \<Rightarrow> 'r ledger \<Rightarrow> bool" where
  "room n lg \<longleftrightarrow> card (dom (nodes lg)) + n \<le> 2 ^ 32 - 1 \<and> card (dom (map_view (lg_connectionCode lg))) + n \<le> 2 ^ 32 - 1"

definition healthy_host :: "'r host \<Rightarrow> bool" where
  "healthy_host h \<longleftrightarrow> (\<forall>k. healthy (ho_env h k))"

text \<open>The operations whose reports tell applications what became of a node.\<close>

fun reporting :: "'r ledger_op \<Rightarrow> bool" where
  "reporting (AddMeta i) \<longleftrightarrow> False"
| "reporting (RemoveNode u) \<longleftrightarrow> False"
| "reporting c \<longleftrightarrow> True"

text \<open>What a step that returns has done.\<close>

definition good_step :: "bool \<Rightarrow> 'r host \<Rightarrow> 'r ledger_op \<Rightarrow> 'r ledger \<Rightarrow> ReportCategory \<Rightarrow> 'r ledger \<Rightarrow> bool" where
  "good_step sc h c lg r lg' \<longleftrightarrow> ledger_ok sc lg' \<and> dom (nodes lg') \<subseteq> insert (op_udid c) (dom (nodes lg)) \<and>
     card (dom (map_view (lg_connectionCode lg'))) \<le> Suc (card (dom (map_view (lg_connectionCode lg)))) \<and>
     (\<forall>v. v \<noteq> op_udid c \<longrightarrow> nodes lg' v = nodes lg v) \<and>
     (healthy_host h \<and> reporting c \<longrightarrow> follow (online (op_udid c) lg) [r] = Some (online (op_udid c) lg'))"

lemma good_same:
  "\<lbrakk>ledger_ok sc lg'; nodes lg' = nodes lg; card (dom (map_view (lg_connectionCode lg'))) \<le> Suc (card (dom (map_view (lg_connectionCode lg))));
    r = REPORT_NONE\<rbrakk> \<Longrightarrow> good_step sc h c lg r lg'"
  by (auto simp: good_step_def online_def)

text \<open>Writing to the node of the operation.\<close>

lemma good_write:
  assumes ok: "ledger_ok sc lg" "host_ok sc h" and old: "nodes lg (op_udid c) = Some (z, old)"
    and i: "ni_deviceUdid i = ni_deviceUdid old" "node_wf i"
    and m: "lg_udidMap lg0 = lg_udidMap lg" "lg_ipMap lg0 = lg_ipMap lg" "lg_macMap lg0 = lg_macMap lg" "map_ok sc (lg_connectionCode lg0)"
      "card (dom (map_view (lg_connectionCode lg0))) \<le> Suc (card (dom (map_view (lg_connectionCode lg))))"
    and r: "follow (ni_status old = STATUS_ONLINE) [r] = Some (ni_status i = STATUS_ONLINE)"
  shows "good_step sc h c lg r (write_node_at h (Some (op_udid c)) i lg0)"
proof -
  have ok0: "ledger_ok sc lg0" by (rule ledger_ok_cong [OF m(1-4) ok(1)])
  have n0: "nodes lg0 = nodes lg" by (rule nodes_cong [OF m(1)])
  have n: "nodes (write_node_at h (Some (op_udid c)) i lg0) = (nodes lg)(op_udid c \<mapsto> (z, i))"
    using write_node_nodes(2) [OF ok0 ok(2), of "op_udid c" i] old by (simp add: n0)
  have "ledger_ok sc (write_node_at h (Some (op_udid c)) i lg0)"
    by (rule write_node_ok [OF ok0 ok(2) _ i]) (use old n0 in simp)
  then show ?thesis using n old m(5) r by (auto simp: good_step_def online_def ledger_frame)
qed

lemma good_frame:
  assumes "good_step sc h c lg r lg1" "lg_udidMap lg' = lg_udidMap lg1" "lg_ipMap lg' = lg_ipMap lg1" "lg_macMap lg' = lg_macMap lg1"
    "lg_connectionCode lg' = lg_connectionCode lg1"
  shows "good_step sc h c lg r lg'"
  using assms by (simp add: good_step_def ledger_ok_def online_def nodes_def)

lemma grow_card:
  assumes "dom N' \<subseteq> insert u (dom N)" "finite (dom N)"
  shows "card (dom N') \<le> Suc (card (dom N))"
proof -
  have "card (dom N') \<le> card (insert u (dom N))" by (rule card_mono) (use assms in simp_all)
  also have "\<dots> \<le> Suc (card (dom N))" by (simp add: assms(2) card_insert_if)
  finally show ?thesis .
qed

lemma finite_nodes: "finite (dom (nodes lg))"
  by (simp add: nodes_def map_view_def finite_dom_map_of)

lemma good_put:
  assumes ok: "ledger_ok sc lg" "host_ok sc h" "card (dom (nodes lg)) < 2 ^ 32 - 1" and i: "ni_deviceUdid i = op_udid c" "node_wf i"
    and m: "lg_udidMap lg0 = lg_udidMap lg" "lg_ipMap lg0 = lg_ipMap lg" "lg_macMap lg0 = lg_macMap lg" "map_ok sc (lg_connectionCode lg0)"
      "card (dom (map_view (lg_connectionCode lg0))) \<le> Suc (card (dom (map_view (lg_connectionCode lg))))"
    and r: "reporting c \<Longrightarrow> follow (online (op_udid c) lg) [r] = Some (ni_status i = STATUS_ONLINE)"
  shows "good_step sc h c lg r (put_node h k (op_udid c) i lg0)"
proof -
  have ok0: "ledger_ok sc lg0" by (rule ledger_ok_cong [OF m(1-4) ok(1)])
  have n0: "nodes lg0 = nodes lg" by (rule nodes_cong [OF m(1)])
  then have c0: "card (dom (nodes lg0)) < 2 ^ 32 - 1" using ok(3) by simp
  have len: "length (op_udid c) < 65" using i by (auto simp: node_wf_def node_sizes_def)
  have "ledger_ok sc (put_node h k (op_udid c) i lg0)" by (rule put_node_ok [OF ok0 ok(2) c0 i])
  moreover have "follow (online (op_udid c) lg) [r] = Some (online (op_udid c) (put_node h k (op_udid c) i lg0))"
    if "healthy_host h" "reporting c"
    using put_node_healthy [OF ok0 ok(2) c0 _ len, of k i] that r by (auto simp: online_def healthy_host_def)
  ultimately show ?thesis
    using put_node_nodes(2) [OF ok0 ok(2) c0, of k "op_udid c" i] m(5) n0 by (auto simp: good_step_def ledger_frame)
qed

lemma code_room: "\<lbrakk>ledger_ok sc lg; room (Suc 0) lg\<rbrakk> \<Longrightarrow> length (entries (lg_connectionCode lg)) < 2 ^ 32 - 1"
  by (simp add: room_def ledger_ok_def flip: map_ok_card [of sc])

lemma old_sizes: "\<lbrakk>ledger_ok sc lg; host_ok sc h; find_node h (Some u) lg = Some old\<rbrakk> \<Longrightarrow> node_sizes old"
  by (auto simp: find_nodes ledger_ok_def node_wf_def)

lemma find_online: "\<lbrakk>ledger_ok sc lg; host_ok sc h\<rbrakk> \<Longrightarrow> LnnIsNodeOnline (find_node h (Some u) lg) = online u lg"
  by (auto simp: find_nodes online_def LnnIsNodeOnline_def split: option.splits)


lemma add_online_step:
  assumes ok: "ledger_ok sc lg" "host_ok sc h" "room (Suc 0) lg" and sz: "node_sizes i"
  shows "\<exists>r lg'. ledger_step h (AddOnline i) lg = Done (r, lg') \<and> good_step sc h (AddOnline i) lg r lg'"
proof -
  define i1 where "i1 = i\<lparr>ni_onlinetTimestamp := ho_now h\<rparr>"
  define lg1 where "lg1 = (if LnnHasDiscoveryType (Some i1) DISCOVERY_TYPE_BR
    then lg\<lparr>lg_connectionCode := snd (AddCnnCode (ho_signed_char h) (ho_env h 0) (ho_env h 1) (lg_connectionCode lg)
      (Some (ni_uuid i1)) DISCOVERY_TYPE_BR (ni_authSeqNum i1))\<rparr> else lg)"
  have m1: "lg_udidMap lg1 = lg_udidMap lg" "lg_ipMap lg1 = lg_ipMap lg" "lg_macMap lg1 = lg_macMap lg" by (simp_all add: lg1_def)
  have m2: "map_ok sc (lg_connectionCode lg1)"
    "card (dom (map_view (lg_connectionCode lg1))) \<le> Suc (card (dom (map_view (lg_connectionCode lg))))"
    using ok(1,2) code_room [OF ok(1,3)] cnn_code_ok(1) add_code_card by (auto simp: lg1_def ledger_ok_def host_ok_def)
  have ok1: "ledger_ok sc lg1" by (rule ledger_ok_cong [OF m1 m2(1) ok(1)])
  have n1: "nodes lg1 = nodes lg" by (rule nodes_cong [OF m1(1)])
  show ?thesis
  proof (cases "lock_ok (ho_env h 2) 0")
    case False
    then have "ledger_step h (AddOnline i) lg = Done (REPORT_NONE, lg1)"
      by (simp add: LnnAddOnlineNode_def Let_def flip: i1_def lg1_def)
    then show ?thesis using good_same [OF ok1 n1 m2(2) refl] by blast
  next
    case True
    obtain i2 ab lg2 where d: "GetNodeInfoDiscovery (ho_env h 3) (find_node h (Some (ni_deviceUdid i1)) lg1) i1 lg1 = (i2, ab, lg2)"
      by (metis prod_cases3)
    have d': "node_sizes i2" "ni_deviceUdid i2 = ni_deviceUdid i" "ab_isOffline ab = (\<not> online (ni_deviceUdid i) lg)"
      "lg2 = lg1 \<or> lg2 = ledger_event (UpdateProfile i2) lg1"
      using discovery [OF d] sz old_sizes [OF ok1 ok(2)] find_online [OF ok1 ok(2)] by (auto simp: i1_def online_def n1)
    define i3 where "i3 = UpdateNewNodeAccountHash h (set_auth_type ONLINE_HICHAIN (LnnSetNodeConnStatus i2 STATUS_ONLINE))"
    have i3: "ni_deviceUdid i3 = op_udid (AddOnline i)" "node_wf i3" "ni_status i3 = STATUS_ONLINE"
      using d'(1,2) sizes_account [OF _ ok(2)] auth_types(1) by (auto simp: i3_def node_wf_def LnnSetNodeConnStatus_def)
    define lg3 where "lg3 = put_node h 4 (op_udid (AddOnline i)) i3 lg2"
    have "ledger_step h (AddOnline i) lg = Done (online_notices h ab i3 lg3)"
      using True d d'(2) by (simp add: LnnAddOnlineNode_def lg3_def flip: i1_def lg1_def) (simp add: Let_def split_beta LnnSetNodeConnStatus_def i3_def)
    moreover have "good_step sc h (AddOnline i) lg (fst (online_notices h ab i3 lg3)) lg3"
      unfolding lg3_def
      by (rule good_put [OF ok(1,2) _ i3(1,2)]) (use ok(3) m1 m2 d'(3,4) i3(3) in \<open>auto simp: room_def ledger_frame notices_report\<close>)
    ultimately show ?thesis
      using good_frame [of sc h "AddOnline i" lg _ lg3 "snd (online_notices h ab i3 lg3)"] by (metis notices_frame prod.collapse)
  qed
qed

lemma write_conn_codes:
  assumes "ledger_ok sc lg" "host_ok sc h"
  shows "map_ok sc (RemoveCnnCode (ho_signed_char h) e (lg_connectionCode lg) uuid t)"
    "card (dom (map_view (RemoveCnnCode (ho_signed_char h) e (lg_connectionCode lg) uuid t))) \<le> Suc (card (dom (map_view (lg_connectionCode lg))))"
  using assms cnn_code_ok(2) [of sc] remove_code_card [of sc] by (auto simp: ledger_ok_def host_ok_def intro: le_SucI)

lemma drop_relation_spec:
  assumes "t < CONNECTION_ADDR_MAX" "node_wf i"
  shows "\<exists>i'. drop_relation t i = Done i' \<and> node_wf i' \<and> ni_deviceUdid i' = ni_deviceUdid i \<and> ni_status i' = ni_status i \<and>
    ni_discoveryType i' = ni_discoveryType i \<and> ni_authChannelId i' = ni_authChannelId i"
  using assms by (auto simp: drop_relation_def node_wf_def node_sizes_def)

lemma clear_channel_spec:
  assumes "t < CONNECTION_ADDR_MAX" "node_wf i"
  shows "\<exists>r i'. ClearAuthChannelId i t a = Done (r, i') \<and> node_wf i' \<and> ni_deviceUdid i' = ni_deviceUdid i \<and> ni_status i' = ni_status i"
  using assms by (auto simp: ClearAuthChannelId_def Let_def node_wf_def node_sizes_def split: prod.splits)

lemma clear_disc_spec:
  "node_wf i \<Longrightarrow> node_wf (snd (LnnClearDiscoveryType i t))"
  "ni_deviceUdid (snd (LnnClearDiscoveryType i t)) = ni_deviceUdid i" "ni_status (snd (LnnClearDiscoveryType i t)) = ni_status i"
  by (simp_all add: LnnClearDiscoveryType_def node_wf_def)

lemma clean_node_spec:
  "node_wf i \<Longrightarrow> node_wf (LnnCleanNodeInfo i)"
  "ni_deviceUdid (LnnCleanNodeInfo i) = ni_deviceUdid i" "ni_status (LnnCleanNodeInfo i) = STATUS_OFFLINE"
  by (simp_all add: LnnCleanNodeInfo_def LnnSetNodeConnStatus_def node_wf_def)

lemma offline_finish_good:
  assumes wr: "\<And>r j. \<lbrakk>node_wf j; ni_deviceUdid j = ni_deviceUdid i; follow (ni_status i = STATUS_ONLINE) [r] = Some (ni_status j = STATUS_ONLINE)\<rbrakk> \<Longrightarrow>
      good_step sc h c lg r (write_node_at h (Some u) j lg1)"
    and wf: "node_wf i"
  shows "good_step sc h c lg (fst (offline_finish h (Some u) t i lg1)) (snd (offline_finish h (Some u) t i lg1))"
proof -
  define i3 where "i3 = snd (LnnClearDiscoveryType (if LnnConvAddrTypeToDiscType t = DISCOVERY_TYPE_WIFI then LnnSetWiFiIp i LOCAL_IP else i)
    (LnnConvAddrTypeToDiscType t))"
  have "node_wf (if LnnConvAddrTypeToDiscType t = DISCOVERY_TYPE_WIFI then LnnSetWiFiIp i LOCAL_IP else i)"
    using wf by (simp add: node_wf_def sizes_strings(2))
  then have i3: "node_wf i3" "ni_deviceUdid i3 = ni_deviceUdid i" "ni_status i3 = ni_status i" by (simp_all add: i3_def clear_disc_spec)
  have wn: "good_step sc h c lg REPORT_NONE (write_node_at h (Some u) i3 lg1)" by (rule wr) (simp_all add: i3)
  show ?thesis
  proof (cases "ni_discoveryType i3 = 0 \<and> ni_status i3 = STATUS_ONLINE")
    case True
    then have "offline_finish h (Some u) t i lg1 = (REPORT_OFFLINE, write_node_at h (Some u) (LnnCleanNodeInfo i3) lg1)"
      unfolding offline_finish_def i3_def by (simp add: Let_def LnnIsNodeOnline_def)
    moreover have "good_step sc h c lg REPORT_OFFLINE (write_node_at h (Some u) (LnnCleanNodeInfo i3) lg1)"
      by (rule wr) (use True i3 in \<open>simp_all add: clean_node_spec\<close>)
    ultimately show ?thesis by simp
  next
    case False
    then have "fst (offline_finish h (Some u) t i lg1) = REPORT_NONE" unfolding offline_finish_def i3_def by (auto simp: Let_def LnnIsNodeOnline_def)
    moreover have "good_step sc h c lg REPORT_NONE (snd (offline_finish h (Some u) t i lg1))"
      by (rule good_frame [OF wn]) (use False in \<open>unfold offline_finish_def i3_def, auto simp: Let_def LnnIsNodeOnline_def ledger_frame\<close>)
    ultimately show ?thesis by simp
  qed
qed

lemma set_offline_step:
  assumes ok: "ledger_ok sc lg" "host_ok sc h" "t < CONNECTION_ADDR_MAX"
  shows "\<exists>r lg'. ledger_step h (SetOffline u t a) lg = Done (r, lg') \<and> good_step sc h (SetOffline u t a) lg r lg'"
proof (cases "lock_ok (ho_env h 0) 0 \<and> find_node h (Some u) lg \<noteq> None")
  case False
  then have "ledger_step h (SetOffline u t a) lg = Done (REPORT_NONE, lg)" by (auto simp: LnnSetNodeOffline_def)
  then show ?thesis using good_same [OF ok(1) refl _ refl] by auto
next
  case True
  then obtain z old where old: "nodes lg u = Some (z, old)" "find_node h (Some u) lg = Some old"
    by (auto simp: find_nodes [OF ok(1,2)])
  have wf: "node_wf old" using ok(1) old(1) by (auto simp: ledger_ok_def)
  obtain i1 where i1: "drop_relation t old = Done i1" "node_wf i1" "ni_deviceUdid i1 = ni_deviceUdid old" "ni_status i1 = ni_status old"
    using drop_relation_spec [OF ok(3) wf] by blast
  define lg1 where "lg1 = drop_code h t i1 lg"
  have m: "lg_udidMap lg1 = lg_udidMap lg" "lg_ipMap lg1 = lg_ipMap lg" "lg_macMap lg1 = lg_macMap lg" "map_ok sc (lg_connectionCode lg1)"
    "card (dom (map_view (lg_connectionCode lg1))) \<le> Suc (card (dom (map_view (lg_connectionCode lg))))"
    using write_conn_codes [OF ok(1,2)] ok(1) by (auto simp: lg1_def drop_code_def ledger_ok_def)
  obtain r i2 where i2: "ClearAuthChannelId i1 t a = Done (r, i2)" "node_wf i2" "ni_deviceUdid i2 = ni_deviceUdid old" "ni_status i2 = ni_status old"
    using clear_channel_spec [OF ok(3) i1(2), of a] i1(3,4) by auto
  have wr: "good_step sc h (SetOffline u t a) lg r' (write_node_at h (Some u) j lg1)"
    if "node_wf j" "ni_deviceUdid j = ni_deviceUdid i2" "follow (ni_status i2 = STATUS_ONLINE) [r'] = Some (ni_status j = STATUS_ONLINE)" for r' j
    using good_write [of sc lg h "SetOffline u t a" z old j lg1 r'] ok m old(1) that i2(3,4) by simp
  show ?thesis
  proof (cases "r = REPORT_NONE")
    case none: True
    then have "ledger_step h (SetOffline u t a) lg = Done (REPORT_NONE, write_node_at h (Some u) i2 lg1)"
      using True old(2) i1(1) i2(1) by (simp add: LnnSetNodeOffline_def flip: lg1_def)
    moreover have "good_step sc h (SetOffline u t a) lg REPORT_NONE (write_node_at h (Some u) i2 lg1)" by (rule wr) (simp_all add: i2)
    ultimately show ?thesis by blast
  next
    case False
    then have "ledger_step h (SetOffline u t a) lg = Done (offline_finish h (Some u) t i2 lg1)"
      using True old(2) i1(1) i2(1) by (simp add: LnnSetNodeOffline_def flip: lg1_def)
    then show ?thesis using offline_finish_good [OF wr i2(2), of t] by (metis prod.collapse)
  qed
qed

lemma lookup_cases:
  assumes "ledger_ok sc lg" "host_ok sc h"
  obtains "find_node h (Some u) lg = None"
  | z old where "find_node h (Some u) lg = Some old" "nodes lg u = Some (z, old)" "node_wf old" "ni_deviceUdid old = u"
  using assms by (cases "nodes lg u") (auto simp: find_nodes ledger_ok_def)

text \<open>Operations that only write to the node of the operation, and leave its status.\<close>

lemma quiet_step:
  assumes ok: "ledger_ok sc lg" "host_ok sc h"
    and lg': "lg' = lg \<or> (\<exists>j. lg' = write_node_at h (Some (op_udid c)) j lg \<and>
      (\<forall>old. find_node h (Some (op_udid c)) lg = Some old \<longrightarrow> node_wf old \<longrightarrow> node_wf j \<and> ni_deviceUdid j = ni_deviceUdid old \<and> ni_status j = ni_status old))"
    and found: "lg' \<noteq> lg \<Longrightarrow> find_node h (Some (op_udid c)) lg \<noteq> None"
  shows "good_step sc h c lg REPORT_NONE lg'"
proof (cases "lg' = lg")
  case True
  then show ?thesis by (intro good_same) (use ok in simp_all)
next
  case False
  then obtain j where j: "lg' = write_node_at h (Some (op_udid c)) j lg"
    "\<And>old. find_node h (Some (op_udid c)) lg = Some old \<Longrightarrow> node_wf old \<Longrightarrow> node_wf j \<and> ni_deviceUdid j = ni_deviceUdid old \<and> ni_status j = ni_status old"
    using lg' by blast
  from ok obtain z old where o: "find_node h (Some (op_udid c)) lg = Some old" "nodes lg (op_udid c) = Some (z, old)" "node_wf old"
    using lookup_cases [of sc lg h "op_udid c"] found [OF False] by metis
  show ?thesis
    unfolding j(1) by (rule good_write [OF ok o(2)]) (use j(2) [OF o(1,3)] ok in \<open>simp_all add: ledger_ok_def\<close>)
qed

lemma renew_ports_keep:
  "node_wf old \<Longrightarrow> node_wf (renew_ports i old)" "ni_deviceUdid (renew_ports i old) = ni_deviceUdid old"
  "ni_status (renew_ports i old) = ni_status old"
  by (simp_all add: renew_ports_def node_wf_def)

lemma wf_strings:
  "\<lbrakk>node_wf i; length s < DEVICE_NAME_BUF_LEN\<rbrakk> \<Longrightarrow> node_wf (i\<lparr>ni_deviceName := s\<rparr>)"
  "\<lbrakk>node_wf i; length s < NETWORK_ID_BUF_LEN\<rbrakk> \<Longrightarrow> node_wf (i\<lparr>ni_networkId := s\<rparr>)"
  "\<lbrakk>node_wf i; length x = SHA_256_HASH_LEN\<rbrakk> \<Longrightarrow> node_wf (i\<lparr>ni_accountHash := x, ni_accountId := a\<rparr>)"
  by (simp_all add: node_wf_def node_sizes_def)

lemma update_node_step:
  assumes ok: "ledger_ok sc lg" "host_ok sc h" and sz: "node_sizes i"
  shows "good_step sc h (UpdateNode i) lg REPORT_NONE (snd (snd (LnnUpdateNodeInfo h i lg)))"
proof -
  define j where "j = UpdateNewNodeAccountHash h i"
  have j: "length (ni_accountHash j) = SHA_256_HASH_LEN" "length (ni_deviceName j) < DEVICE_NAME_BUF_LEN" "ni_deviceUdid j = ni_deviceUdid i"
    using sizes_account [OF sz ok(2)] by (simp_all add: j_def node_sizes_def)
  define lg1 where "lg1 = ledger_event (UpdateDpSameAccount (ni_accountHash j) (ni_deviceUdid i)) lg"
  have ok1: "ledger_ok sc lg1" using ok(1) by (simp add: lg1_def ledger_ok_event)
  have "good_step sc h (UpdateNode i) lg1 REPORT_NONE (snd (snd (LnnUpdateNodeInfo h i lg)))"
  proof (cases "lock_ok (ho_env h 0) 0 \<and> find_node h (Some (ni_deviceUdid i)) lg1 \<noteq> None")
    case False
    then have "snd (snd (LnnUpdateNodeInfo h i lg)) = lg1"
      using j(3) unfolding lg1_def j_def LnnUpdateNodeInfo_def Let_def by auto
    then show ?thesis by (intro quiet_step [OF ok1 ok(2)]) simp_all
  next
    case True
    then obtain old where old: "lock_ok (ho_env h 0) 0" "find_node h (Some (ni_deviceUdid i)) lg1 = Some old" by blast
    define k where "k = (let k = (renew_ports j old)\<lparr>ni_deviceName := ni_deviceName j\<rparr> in
      if memcpy_ok (ho_env h 1) SHA_256_HASH_LEN SHA_256_HASH_LEN then k\<lparr>ni_accountHash := ni_accountHash j, ni_accountId := ni_accountId j\<rparr> else k)"
    have "snd (snd (LnnUpdateNodeInfo h i lg)) = write_node_at h (Some (ni_deviceUdid i)) k lg1"
      using old j(2) unfolding k_def lg1_def j_def LnnUpdateNodeInfo_def Let_def by (simp add: str_copy_def)
    moreover have "node_wf k \<and> ni_deviceUdid k = ni_deviceUdid old \<and> ni_status k = ni_status old" if "node_wf old"
      using that j(1,2) by (simp add: k_def Let_def renew_ports_keep wf_strings)
    ultimately show ?thesis using old(2) by (intro quiet_step [OF ok1 ok(2)]) auto
  qed
  then show ?thesis by (simp add: good_step_def lg1_def online_def nodes_def ledger_frame)
qed

lemma other_updates_step:
  assumes ok: "ledger_ok sc lg" "host_ok sc h" and sz: "node_sizes i"
  shows "good_step sc h (UpdateNetId i) lg REPORT_NONE (snd (LnnUpdateNetworkId h i lg))"
    "good_step sc h (UpdateAccount i) lg REPORT_NONE (snd (LnnUpdateAccountInfo h (Some i) lg))"
    "good_step sc h (UpdateGroup g i) lg REPORT_NONE (snd (LnnUpdateGroupType h g (Some i) lg))"
proof -
  show "good_step sc h (UpdateNetId i) lg REPORT_NONE (snd (LnnUpdateNetworkId h i lg))"
    by (rule quiet_step [OF ok]) (auto simp: LnnUpdateNetworkId_def str_copy_def node_wf_def node_sizes_def split: option.splits if_splits)
  show "good_step sc h (UpdateAccount i) lg REPORT_NONE (snd (LnnUpdateAccountInfo h (Some i) lg))"
    by (rule quiet_step [OF ok]) (use sizes_account [OF _ ok(2)] in \<open>auto simp: LnnUpdateAccountInfo_def node_wf_def split: option.splits if_splits\<close>)
  show "good_step sc h (UpdateGroup g i) lg REPORT_NONE (snd (LnnUpdateGroupType h g (Some i) lg))"
    by (rule quiet_step [OF ok]) (auto simp: LnnUpdateGroupType_def node_wf_def split: option.splits if_splits)
qed

lemma remove_node_step:
  assumes ok: "ledger_ok sc lg" "host_ok sc h"
  shows "good_step sc h (RemoveNode u) lg REPORT_NONE (LnnRemoveNode h (Some u) lg)"
proof (cases "lock_ok (ho_env h 0) 0")
  case True
  obtain st mo where r: "LnnMapErase sc (Some (lg_udidMap lg)) (Some u) = (st, mo)" by fastforce
  obtain m' where m': "mo = Some m'" "map_ok sc m'" "map_view m' = (nodes lg)(u := None)"
    using erase_step(1) [OF _ r] ok(1) by (auto simp: ledger_ok_def nodes_def)
  have e: "LnnRemoveNode h (Some u) lg = lg\<lparr>lg_udidMap := m'\<rparr>" using True r m'(1) ok(2) by (simp add: LnnRemoveNode_def host_ok_def)
  have "ledger_ok sc (lg\<lparr>lg_udidMap := m'\<rparr>)"
    by (rule ledger_okI [OF ok(1)]) (use ok(1) m' in \<open>auto simp: ledger_ok_def nodes_def split: if_splits\<close>)
  then show ?thesis using e m'(3) by (auto simp: good_step_def nodes_def)
qed (use ok in \<open>auto simp: LnnRemoveNode_def intro!: good_same\<close>)

lemma add_meta_step:
  assumes ok: "ledger_ok sc lg" "host_ok sc h" "room (Suc 0) lg" and wf: "node_wf i"
  shows "good_step sc h (AddMeta i) lg REPORT_NONE (snd (snd (LnnAddMetaInfo h i lg)))"
proof -
  have put: "good_step sc h (AddMeta i) lg REPORT_NONE (put_node h 2 (ni_deviceUdid j) j lg)" if "node_wf j" "ni_deviceUdid j = ni_deviceUdid i" for j
    using good_put [of sc lg h j "AddMeta i" lg REPORT_NONE 2] ok that by (simp add: room_def ledger_ok_def)
  have keep: "snd (snd (LnnAddMetaInfo h i lg)) = lg \<Longrightarrow> ?thesis" using good_same [OF ok(1) refl _ refl] by simp
  have meta: "node_wf (set_auth_type ONLINE_METANODE j)" if "node_wf j" for j :: "'a NodeInfo"
    using that by (simp add: node_wf_def auth_types_Suc)
  show ?thesis
  proof (cases rule: lookup_cases [OF ok(1,2), of "ni_deviceUdid i"])
    case 1
    then have "snd (snd (LnnAddMetaInfo h i lg)) = lg \<or>
        snd (snd (LnnAddMetaInfo h i lg)) = put_node h 2 (ni_deviceUdid (set_auth_type ONLINE_METANODE i)) (set_auth_type ONLINE_METANODE i) lg"
      by (simp add: LnnAddMetaInfo_def Let_def)
    then show ?thesis using keep put [of "set_auth_type ONLINE_METANODE i"] meta [OF wf] by auto
  next
    case (2 z old)
    define j where "j = (if ni_networkId old = ni_networkId i
      then old\<lparr>ni_isMetaNode := True, ni_metaDiscType := ni_metaDiscType old OR ni_metaDiscType i\<rparr> else i)"
    have j: "node_wf j" "ni_deviceUdid j = ni_deviceUdid i" using 2(3,4) wf by (simp_all add: j_def node_wf_def)
    have "snd (snd (LnnAddMetaInfo h i lg)) = lg \<or>
        snd (snd (LnnAddMetaInfo h i lg)) = put_node h 2 (ni_deviceUdid (set_auth_type ONLINE_METANODE j)) (set_auth_type ONLINE_METANODE j) lg"
      using 2(1) by (simp add: LnnAddMetaInfo_def Let_def j_def)
    then show ?thesis using keep put [of "set_auth_type ONLINE_METANODE j"] meta [OF j(1)] j(2) by auto
  qed
qed

lemma delete_meta_step:
  assumes ok: "ledger_ok sc lg" "host_ok sc h" "room (Suc 0) lg"
  shows "good_step sc h (DeleteMeta u t) lg REPORT_NONE (snd (LnnDeleteMetaInfo h (Some u) t lg))"
proof (cases rule: lookup_cases [OF ok(1,2), of u])
  case 1
  then show ?thesis using ok(1) by (auto simp: LnnDeleteMetaInfo_def Let_def intro!: good_same)
next
  case (2 z old)
  define i where "i = (let i = old\<lparr>ni_metaDiscType := ni_metaDiscType old AND NOT (push_bit (LnnConvAddrTypeToDiscType t) 1)\<rparr>;
    i = (if ni_metaDiscType i = 0 then i\<lparr>ni_isMetaNode := False\<rparr> else i) in clear_auth_type ONLINE_METANODE i)"
  have i: "node_wf i" "ni_deviceUdid i = u" "ni_status i = ni_status old"
    using 2(3,4) by (auto simp: i_def Let_def node_wf_def auth_types_Suc)
  have w: "good_step sc h (DeleteMeta u t) lg REPORT_NONE (write_node_at h (Some u) i lg)"
    using good_write [of sc lg h "DeleteMeta u t" z old i lg REPORT_NONE] ok 2(2,4) i by (simp add: ledger_ok_def)
  have ow: "ledger_ok sc (write_node_at h (Some u) i lg)" by (rule write_node_ok [OF ok(1,2) 2(2) _ i(1)]) (use 2(4) i(2) in simp)
  have nw: "nodes (write_node_at h (Some u) i lg) = (nodes lg)(u \<mapsto> (z, i))" using write_node_nodes(2) [OF ok(1,2), of u i] 2(2) by simp
  have z: "z = SIZEOF_NODE_INFO" using ok(1) 2(2) by (auto simp: ledger_ok_def)
  have cw: "card (dom (nodes (write_node_at h (Some u) i lg))) < 2 ^ 32 - 1"
    using ok(3) 2(2) by (simp add: nw room_def insert_absorb domI)
  have np: "nodes (put_node h k u i (write_node_at h (Some u) i lg)) = nodes (write_node_at h (Some u) i lg)" for k
    using put_node_nodes(2) [OF ow ok(2) cw, of k u i] by (auto simp: nw z)
  have "good_step sc h (DeleteMeta u t) lg REPORT_NONE (put_node h 1 u i (write_node_at h (Some u) i lg))"
    using w put_node_ok [OF ow ok(2) cw i(2,1), of 1] by (simp add: good_step_def np online_def ledger_frame)
  moreover have "snd (LnnDeleteMetaInfo h (Some u) t lg) = lg \<or>
      snd (LnnDeleteMetaInfo h (Some u) t lg) = put_node h 1 u i (write_node_at h (Some u) i lg)"
    using 2(1) by (auto simp: LnnDeleteMetaInfo_def i_def Let_def)
  ultimately show ?thesis using good_same [OF ok(1) refl _ refl] by auto
qed

theorem step_good:
  assumes "ledger_ok sc lg" "host_ok sc h" "room (Suc 0) lg" "op_ok c"
  shows "\<exists>r lg'. ledger_step h c lg = Done (r, lg') \<and> good_step sc h c lg r lg'"
  using assms
  by (cases c) (auto intro: add_online_step set_offline_step update_node_step other_updates_step remove_node_step add_meta_step delete_meta_step
    simp del: ledger_step.simps(1,2))


subsection \<open>Histories preserve the invariant\<close>

lemma room_step: "\<lbrakk>good_step sc h c lg r lg'; room (Suc n) lg\<rbrakk> \<Longrightarrow> room n lg'"
  using grow_card [of "nodes lg'" "op_udid c" "nodes lg", OF _ finite_nodes] by (fastforce simp: good_step_def room_def)

lemma follow_snoc: "follow b [r] = Some b' \<Longrightarrow> follow b (r # rs) = follow b' rs"
  by (cases r) (auto split: if_splits)

definition reports_of :: "bytes \<Rightarrow> (bytes \<times> ReportCategory) list \<Rightarrow> ReportCategory list" where
  "reports_of u rs = map snd (filter (\<lambda>(v, r). v = u) rs)"

lemma run_good:
  assumes "ledger_ok sc lg" "room (length ops) lg" "\<forall>(h, c) \<in> set ops. host_ok sc h \<and> op_ok c"
  shows "\<exists>rs lg'. ledger_run ops lg = Done (rs, lg') \<and> ledger_ok sc lg' \<and>
    ((\<forall>(h, c) \<in> set ops. healthy_host h \<and> reporting c) \<longrightarrow> (\<forall>u. follow (online u lg) (reports_of u rs) = Some (online u lg')))"
  using assms
proof (induction ops arbitrary: lg)
  case (Cons hc ops)
  obtain h c where hc: "hc = (h, c)" by fastforce
  have 1: "room (Suc 0) lg" using Cons.prems(2) by (simp add: room_def)
  obtain r lg1 where s: "ledger_step h c lg = Done (r, lg1)" "good_step sc h c lg r lg1"
    using step_good [OF Cons.prems(1) _ 1, of h c] Cons.prems(3) hc by auto
  have "ledger_ok sc lg1" "room (length ops) lg1" "\<forall>(h, c) \<in> set ops. host_ok sc h \<and> op_ok c"
    using s(2) room_step [OF s(2), of "length ops"] Cons.prems(2,3) by (simp_all add: good_step_def)
  from Cons.IH [OF this] obtain rs lg' where rs: "ledger_run ops lg1 = Done (rs, lg')" "ledger_ok sc lg'"
    "(\<forall>(h, c) \<in> set ops. healthy_host h \<and> reporting c) \<longrightarrow> (\<forall>u. follow (online u lg1) (reports_of u rs) = Some (online u lg'))"
    by blast
  have "follow (online u lg) (reports_of u ((op_udid c, r) # rs)) = follow (online u lg1) (reports_of u rs)"
    if "healthy_host h" "reporting c" for u
    using s(2) that follow_snoc [of "online u lg" r "online u lg1"] by (auto simp: good_step_def reports_of_def online_def)
  then show ?case using s(1) rs hc by simp
qed (simp add: reports_of_def)

lemma init_ledger:
  assumes "LnnInitDistributedLedger True True lg0 = (st, lg)" "lg_status lg0 \<noteq> DL_INIT_SUCCESS"
  shows "ledger_ok sc lg" "nodes lg = Map.empty" "map_view (lg_connectionCode lg) = Map.empty" "lg_status lg = DL_INIT_SUCCESS" "st = SOFTBUS_OK"
  using assms by (auto simp: LnnInitDistributedLedger_def InitConnectionCode_def InitDistributedInfo_def Let_def ledger_ok_def nodes_def map_ok_init)

subsection \<open>A sample\<close>

definition sample_host :: "'r host" where
  "sample_host = \<lparr>ho_signed_char = True, ho_env = (\<lambda>_. ideal_env), ho_hash = (\<lambda>_. Some (replicate 32 7)), ho_local = None, ho_now = 5, ho_clock = None,
     ho_junk = (\<lambda>_. empty_basic)\<rparr>"

definition sample_node_with :: "'r \<Rightarrow> u8 \<Rightarrow> u32 \<Rightarrow> 'r NodeInfo" where
  "sample_node_with r b disc = \<lparr>ni_softBusVersion = [], ni_uuid = [b, 49], ni_networkId = [b, 50], ni_status = STATUS_OFFLINE, ni_discoveryType = disc,
     ni_deviceName = [b], ni_deviceUdid = [b], ni_deviceTypeId = 14, ni_deviceIp = [], ni_macAddr = [], ni_authPort = 0, ni_proxyPort = 0,
     ni_sessionPort = 0, ni_authSeqNum = 9, ni_authChannelId = replicate 5 (0, 0), ni_accountHash = replicate 32 0, ni_accountId = 42,
     ni_offlineCode = replicate 4 0, ni_isMetaNode = False, ni_metaDiscType = 0, ni_AuthTypeValue = 0, ni_bleStartTimestamp = 0, ni_groupType = 0,
     ni_relation = replicate 5 0, ni_heartbeatTimestamp = 0, ni_onlinetTimestamp = 0, ni_rest = r\<rparr>"

abbreviation (input) sample_node :: "u8 \<Rightarrow> u32 \<Rightarrow> unit NodeInfo" where
  "sample_node \<equiv> sample_node_with ()"

definition sample_ledger :: "'r ledger" where
  "sample_ledger = \<lparr>lg_udidMap = LnnMapInit, lg_ipMap = LnnMapInit, lg_macMap = LnnMapInit, lg_connectionCode = LnnMapInit,
     lg_status = DL_INIT_UNKNOWN, lg_events = []\<rparr>"

definition sample_history :: "(unit host \<times> unit ledger_op) list" where
  "sample_history = [(sample_host, AddOnline (sample_node 65 4)), (sample_host, AddOnline (sample_node 66 8)),
     (sample_host, AddOnline (sample_node 65 2)), (sample_host, SetOffline [65] CONNECTION_ADDR_WLAN 0), (sample_host, SetOffline [65] CONNECTION_ADDR_BLE 0),
     (sample_host, DeleteMeta [66] CONNECTION_ADDR_BR)]"

lemma sample_ok:
  "host_ok True sample_host" "healthy_host sample_host" "node_sizes (sample_node_with r b d)"
  by (simp_all add: sample_host_def host_ok_def healthy_host_def sample_node_with_def node_sizes_def)

subsection \<open>Properties\<close>



text \<open>
  C2. Reports agree with the ledger. After initialisation, along any history of nodes coming online,
  going offline, being updated and losing their role as meta nodes, with memory and locks available,
  the reports about each device never contradict each other: \<open>REPORT_ONLINE\<close> is only given for a device
  last reported offline, or never reported, \<open>REPORT_OFFLINE\<close> only for one last reported online, and the
  last of them is the state of the device in the ledger.
\<close>

theorem ledger_reports_agree:
  assumes "lg_status lg0 \<noteq> DL_INIT_SUCCESS" "LnnInitDistributedLedger True True lg0 = (st, lg)" "length ops < 2 ^ 32"
    "\<forall>(h, c) \<in> set ops. host_ok sc h \<and> healthy_host h \<and> op_ok c \<and> reporting c"
  shows "\<exists>rs lg'. ledger_run ops lg = Done (rs, lg') \<and> (\<forall>u. follow False (reports_of u rs) = Some (online u lg'))"
proof -
  note i = init_ledger [OF assms(2,1)]
  have "room (length ops) lg" using assms(3) i(2,3) by (simp add: room_def)
  moreover have "online u lg = False" for u by (simp add: online_def i(2))
  ultimately show ?thesis using run_good [OF i(1), of ops sc] assms(4) by fastforce
qed

theorem ledger_reports_agree_witness:
  "\<exists>rs lg'. ledger_run sample_history (snd (LnnInitDistributedLedger True True sample_ledger)) = Done (rs, lg') \<and>
    (\<forall>u. follow False (reports_of u rs) = Some (online u lg'))"
  by (rule ledger_reports_agree [of sample_ledger _ _ sample_history True, OF _ prod.collapse [symmetric]])
    (simp_all add: sample_history_def sample_ledger_def sample_ok)

lemma strcmp_eq: "strcmp s t = 0 \<longleftrightarrow> s = t"
  by (induction s t rule: strcmp.induct) auto

lemma strcmp_swap: "strcmp t s = - strcmp s t"
  by (induction s t rule: strcmp.induct) auto

text \<open>
  C33. One of two devices holds back. When two devices, both of a version that knows the rule and with
  different network ids, meet over Bluetooth and each judges the other, exactly one of them holds back
  its BR connection.
\<close>

theorem prevent_br_exactly_one:
  assumes "ni_networkId a \<noteq> ni_networkId b"
    "\<not> strcmp (ni_softBusVersion a) SOFTBUS_VERSION_FOR_INITCONNECTFLAG < 0" "\<not> strcmp (ni_softBusVersion b) SOFTBUS_VERSION_FOR_INITCONNECTFLAG < 0"
  shows "prevent_flag a b \<longleftrightarrow> \<not> prevent_flag b a"
  using assms strcmp_eq [of "ni_networkId a" "ni_networkId b"] strcmp_swap [of "ni_networkId a" "ni_networkId b"]
  by (auto simp: prevent_flag_def)

theorem prevent_br_exactly_one_witness:
  "prevent_flag ((sample_node 65 4)\<lparr>ni_softBusVersion := [49, 50]\<rparr>) ((sample_node 66 4)\<lparr>ni_softBusVersion := [49, 50]\<rparr>) \<longleftrightarrow>
    \<not> prevent_flag ((sample_node 66 4)\<lparr>ni_softBusVersion := [49, 50]\<rparr>) ((sample_node 65 4)\<lparr>ni_softBusVersion := [49, 50]\<rparr>)"
  by (rule prevent_br_exactly_one) (simp_all add: sample_node_with_def SOFTBUS_VERSION_FOR_INITCONNECTFLAG_def)

subsection \<open>Queries\<close>

lemma visited_entries:
  "\<lbrakk>map_ok sc m; LnnMapInitIterator e (Some m) = Some it\<rbrakk> \<Longrightarrow> visited m it = map mn_value (entries m)"
  using iterate_entries [of sc m "Suc (unat (mp_nodeSize m))" e it] by (simp add: visited_def map_ok_def)

lemma iterator_healthy: "healthy e \<Longrightarrow> \<exists>it. LnnMapInitIterator e (Some m) = Some it"
  using healthy_SoftBusCalloc [of e 24 0] by (auto simp: LnnMapInitIterator_def)

definition basic_of :: "'r NodeInfo \<Rightarrow> NodeBasicInfo" where
  "basic_of i = \<lparr>nb_networkId = ni_networkId i, nb_deviceName = ni_deviceName i, nb_deviceTypeId = ni_deviceTypeId i\<rparr>"

lemma convert_basic: "node_sizes i \<Longrightarrow> ConvertNodeInfoToBasicInfo (Some i) (Some b) = (SOFTBUS_OK, Some (basic_of i))"
  by (cases b) (simp add: ConvertNodeInfoToBasicInfo_def str_copy_def node_sizes_def basic_of_def)

lemma fill_loop_spec:
  "\<lbrakk>\<forall>x \<in> set xs. node_sizes x; i + length (filter (wanted b) xs) \<le> length arr; length arr \<le> n\<rbrakk> \<Longrightarrow>
   fill_loop b n xs i arr = Done (take i arr @ map basic_of (filter (wanted b) xs) @ drop (i + length (filter (wanted b) xs)) arr)"
proof (induction xs arbitrary: i arr)
  case (Cons x xs)
  show ?case
  proof (cases "wanted b x")
    case True
    then have "i < length arr" "i < n" using Cons.prems by auto
    moreover have "fill_loop b n xs (Suc i) (arr[i := basic_of x]) =
        Done (take (Suc i) (arr[i := basic_of x]) @ map basic_of (filter (wanted b) xs) @
          drop (Suc i + length (filter (wanted b) xs)) (arr[i := basic_of x]))"
      using Cons.prems True by (intro Cons.IH) auto
    ultimately show ?thesis using True Cons.prems by (simp add: convert_basic take_Suc_conv_app_nth)
  next
    case False
    have "filter (wanted b) xs = []" if "\<not> i < n"
    proof -
      have "i + length (filter (wanted b) xs) \<le> n" using Cons.prems(2,3) False by simp
      then have "length (filter (wanted b) xs) = 0" using that by linarith
      then show ?thesis by simp
    qed
    then show ?thesis using Cons False by auto
  qed
qed simp

lemma ledger_nodes_sizes:
  assumes "ledger_ok sc lg" "n \<in> set (entries (lg_udidMap lg))"
  shows "node_sizes (mn_value n)" "mn_key n = ni_deviceUdid (mn_value n)" "nodes lg (mn_key n) = Some (mn_valueSize n, mn_value n)"
proof -
  have "distinct (map mn_key (entries (lg_udidMap lg)))" using assms(1) by (simp add: ledger_ok_def map_ok_def)
  from view_iff [OF this, of "mn_key n" "(mn_valueSize n, mn_value n)"] assms(2)
  show v: "nodes lg (mn_key n) = Some (mn_valueSize n, mn_value n)" unfolding nodes_def by blast
  from v assms(1) show "node_sizes (mn_value n)" "mn_key n = ni_deviceUdid (mn_value n)" by (simp_all add: ledger_ok_def node_wf_def)
qed

lemma nodes_entries:
  assumes "ledger_ok sc lg"
  shows "(\<exists>z. nodes lg (ni_deviceUdid i) = Some (z, i)) \<longleftrightarrow> i \<in> mn_value ` set (entries (lg_udidMap lg))"
proof
  assume "\<exists>z. nodes lg (ni_deviceUdid i) = Some (z, i)"
  then obtain z where "map_view (lg_udidMap lg) (ni_deviceUdid i) = Some (z, i)" by (auto simp: nodes_def)
  moreover have "distinct (map mn_key (entries (lg_udidMap lg)))" using assms by (simp add: ledger_ok_def map_ok_def)
  ultimately show "i \<in> mn_value ` set (entries (lg_udidMap lg))" by (auto simp: view_iff)
next
  assume "i \<in> mn_value ` set (entries (lg_udidMap lg))"
  then show "\<exists>z. nodes lg (ni_deviceUdid i) = Some (z, i)" using ledger_nodes_sizes(2,3) [OF assms] by fastforce
qed

text \<open>
  C31. The list of the nodes online. With memory and locks available, the list given to callers is the
  null pointer with count zero if no node is wanted, and otherwise has, for each node of the ledger
  that is online (or a meta node, where these are asked for), exactly one entry with its network id,
  name and type, whatever the memory for the list held before.
\<close>

theorem online_list_exact:
  assumes "ledger_ok sc lg" "host_ok sc h" "healthy_host h" "unat (MapGetSize (Some (lg_udidMap lg))) * SIZEOF_NODE_BASIC_INFO \<le> MAX_MALLOC_SIZE"
  shows "\<exists>ws. GetAllOnlineAndMetaNodeInfo h lg False isNeedMeta =
      Done (SOFTBUS_OK, Some (if ws = [] then (None, 0) else (Some (map basic_of ws), length ws))) \<and>
    distinct (map ni_deviceUdid ws) \<and>
    (\<forall>i. i \<in> set ws \<longleftrightarrow> find_node h (Some (ni_deviceUdid i)) lg = Some i \<and> wanted isNeedMeta i)"
proof -
  let ?all = "map mn_value (entries (lg_udidMap lg))"
  define ws where "ws = filter (wanted isNeedMeta) ?all"
  have ok: "map_ok sc (lg_udidMap lg)" using assms(1) by (simp add: ledger_ok_def)
  have v: "\<exists>it. LnnMapInitIterator (ho_env h k) (Some (lg_udidMap lg)) = Some it \<and> visited (lg_udidMap lg) it = ?all" for k
    using iterator_healthy visited_entries [OF ok] assms(3) unfolding healthy_host_def by metis
  have n: "GetDLOnlineNodeNumLocked h k lg isNeedMeta = (SOFTBUS_OK, Some (length ws))" for k
    using v [of k] by (auto simp: GetDLOnlineNodeNumLocked_def ws_def)
  have "length ws \<le> length (entries (lg_udidMap lg))" unfolding ws_def by (metis length_filter_le length_map)
  then have "length ws * SIZEOF_NODE_BASIC_INFO \<le> MAX_MALLOC_SIZE" using assms(4) ok by (simp add: MapGetSize_def map_ok_def)
  then have m: "SoftBusMalloc (ho_env h k) 0 (length ws * SIZEOF_NODE_BASIC_INFO)" for k
    using assms(3) by (simp add: SoftBusMalloc_def healthy_host_def)
  have "fill_loop isNeedMeta (length ws) ?all 0 arr = Done (map basic_of ws)" if "length arr = length ws" for arr
    using fill_loop_spec [of ?all 0 isNeedMeta arr "length ws"] ledger_nodes_sizes(1) [OF assms(1)] that by (auto simp: ws_def)
  then have f: "FillDLOnlineNodeInfoLocked h k lg (map (ho_junk h) [0..<length ws]) (length ws) isNeedMeta = Done (SOFTBUS_OK, map basic_of ws)" for k
    using v [of k] by (auto simp: FillDLOnlineNodeInfoLocked_def)
  have "GetAllOnlineAndMetaNodeInfo h lg False isNeedMeta =
      Done (SOFTBUS_OK, Some (if ws = [] then (None, 0) else (Some (map basic_of ws), length ws)))"
    using assms(3) m f by (simp add: GetAllOnlineAndMetaNodeInfo_def n healthy_host_def)
  moreover have "map ni_deviceUdid ?all = map mn_key (entries (lg_udidMap lg))" using ledger_nodes_sizes(2) [OF assms(1)] by simp
  then have "distinct (map ni_deviceUdid ws)" using ok unfolding ws_def map_ok_def by (metis distinct_map_filter)
  moreover have "i \<in> set ws \<longleftrightarrow> find_node h (Some (ni_deviceUdid i)) lg = Some i \<and> wanted isNeedMeta i" for i
    using nodes_entries [OF assms(1), of i] by (auto simp: ws_def find_nodes [OF assms(1,2)])
  ultimately show ?thesis by blast
qed

definition sample_with :: "'r NodeInfo \<Rightarrow> 'r ledger" where
  "sample_with i = put_node sample_host 0 (ni_deviceUdid i) i sample_ledger"

lemma sample_with_ok:
  assumes "node_wf i"
  shows "ledger_ok True (sample_with i)" "nodes (sample_with i) = [ni_deviceUdid i \<mapsto> (SIZEOF_NODE_INFO, i)]"
proof -
  have l: "ledger_ok True sample_ledger" "nodes sample_ledger = Map.empty"
    by (simp_all add: ledger_ok_def sample_ledger_def nodes_def map_ok_init)
  show "ledger_ok True (sample_with i)"
    unfolding sample_with_def by (rule put_node_ok [OF l(1) sample_ok(1) _ refl assms]) (simp add: l(2))
  show "nodes (sample_with i) = [ni_deviceUdid i \<mapsto> (SIZEOF_NODE_INFO, i)]"
    unfolding sample_with_def using assms
    by (subst put_node_healthy [OF l(1) sample_ok(1)]) (simp_all add: l(2) sample_ok(2) [unfolded healthy_host_def] node_wf_def node_sizes_def)
qed

definition sample_online :: "unit NodeInfo" where
  "sample_online = (sample_node 65 2)\<lparr>ni_status := STATUS_ONLINE, ni_AuthTypeValue := 1, ni_authChannelId := [(7, 0), (0, 0), (0, 0), (9, 0), (0, 0)]\<rparr>"

lemma sample_online_wf: "node_wf sample_online"
  by (simp add: sample_online_def sample_node_with_def node_wf_def node_sizes_def)

lemmas sample_online_ok = sample_with_ok [OF sample_online_wf]

theorem online_list_exact_witness:
  "\<exists>ws. GetAllOnlineAndMetaNodeInfo sample_host (sample_with sample_online) False False =
      Done (SOFTBUS_OK, Some (if ws = [] then (None, 0) else (Some (map basic_of ws), length ws))) \<and>
    distinct (map ni_deviceUdid ws) \<and>
    (\<forall>i. i \<in> set ws \<longleftrightarrow> find_node sample_host (Some (ni_deviceUdid i)) (sample_with sample_online) = Some i \<and> wanted False i)"
proof (rule online_list_exact [OF sample_online_ok(1) sample_ok(1,2)])
  have m: "map_ok True (lg_udidMap (sample_with sample_online))" using sample_online_ok(1) by (simp add: ledger_ok_def)
  have "unat (mp_nodeSize (lg_udidMap (sample_with sample_online))) = card (dom (nodes (sample_with sample_online)))"
    using m map_ok_card [OF m] by (simp add: map_ok_def nodes_def)
  then show "unat (MapGetSize (Some (lg_udidMap (sample_with sample_online)))) * SIZEOF_NODE_BASIC_INFO \<le> MAX_MALLOC_SIZE"
    by (simp add: MapGetSize_def sample_online_ok(2))
qed

text \<open>
  Two kinds of Wi-Fi connection share one mark. When a node that is online over both WLAN and
  Ethernet loses its Ethernet connection, it is reported offline and marked so, although its
  authentication channel over WLAN is still there.
\<close>

theorem eth_leave_reports_offline:
  assumes "ledger_ok sc lg" "host_ok sc h" "healthy_host h" "find_node h (Some u) lg = Some i" "LnnIsNodeOnline (Some i)"
    "ni_discoveryType i = 2" "ni_authChannelId i ! CONNECTION_ADDR_ETH = (authId, 0)" "fst (ni_authChannelId i ! CONNECTION_ADDR_WLAN) \<noteq> 0"
  shows "\<exists>lg' i'. LnnSetNodeOffline h (Some u) CONNECTION_ADDR_ETH authId lg = Done (REPORT_OFFLINE, lg') \<and>
    find_node h (Some u) lg' = Some i' \<and> \<not> LnnIsNodeOnline (Some i') \<and> fst (ni_authChannelId i' ! CONNECTION_ADDR_WLAN) \<noteq> 0"
proof -
  obtain z where z: "nodes lg u = Some (z, i)" using assms(1,2,4) by (auto simp: find_nodes)
  have wf: "node_wf i" using assms(1) z by (auto simp: ledger_ok_def)
  obtain i1 where i1: "drop_relation CONNECTION_ADDR_ETH i = Done i1" "node_wf i1" "ni_status i1 = STATUS_ONLINE" "ni_discoveryType i1 = 2"
    "ni_authChannelId i1 = ni_authChannelId i" "ni_deviceUdid i1 = ni_deviceUdid i"
    using drop_relation_spec [OF _ wf, of CONNECTION_ADDR_ETH] assms(5,6) by (auto simp: LnnIsNodeOnline_def)
  define i2 where "i2 = i1\<lparr>ni_authChannelId := (ni_authChannelId i)[CONNECTION_ADDR_ETH := (0, 0)]\<rparr>"
  have c: "ClearAuthChannelId i1 CONNECTION_ADDR_ETH authId = Done (REPORT_OFFLINE, i2)"
    using i1 assms(7) by (simp add: ClearAuthChannelId_def i2_def node_wf_def node_sizes_def)
  define lg1 where "lg1 = drop_code h CONNECTION_ADDR_ETH i1 lg"
  have lg1: "lg1 = lg" by (simp add: lg1_def drop_code_def LnnConvAddrTypeToDiscType_def)
  define i3 where "i3 = LnnCleanNodeInfo (snd (LnnClearDiscoveryType (LnnSetWiFiIp i2 LOCAL_IP) DISCOVERY_TYPE_WIFI))"
  have "offline_finish h (Some u) CONNECTION_ADDR_ETH i2 lg = (REPORT_OFFLINE, write_node_at h (Some u) i3 lg)"
    using i1 by (simp add: offline_finish_def i3_def i2_def LnnConvAddrTypeToDiscType_def LnnClearDiscoveryType_def LnnIsNodeOnline_def)
  then have "LnnSetNodeOffline h (Some u) CONNECTION_ADDR_ETH authId lg = Done (REPORT_OFFLINE, write_node_at h (Some u) i3 lg)"
    using assms(3,4) i1(1) c lg1 by (simp add: LnnSetNodeOffline_def healthy_host_def flip: lg1_def)
  moreover have i3: "node_wf i3" "ni_deviceUdid i3 = ni_deviceUdid i" "ni_status i3 = STATUS_OFFLINE"
      "ni_authChannelId i3 ! CONNECTION_ADDR_WLAN = ni_authChannelId i ! CONNECTION_ADDR_WLAN"
    using i1 by (auto simp: i3_def i2_def LnnCleanNodeInfo_def LnnSetNodeConnStatus_def clear_auth_type_def LnnClearDiscoveryType_def
      LnnSetWiFiIp_def str_copy_def LOCAL_IP_def node_wf_def node_sizes_def)
  moreover have "find_node h (Some u) (write_node_at h (Some u) i3 lg) = Some i3"
    using find_nodes [OF write_node_ok [OF assms(1,2) z i3(2,1)] assms(2), of u] write_node_nodes(2) [OF assms(1,2), of u i3] z by simp
  ultimately show ?thesis using assms(8) by (simp add: LnnIsNodeOnline_def)
qed

theorem eth_leave_reports_offline_witness:
  "\<exists>lg' i'. LnnSetNodeOffline sample_host (Some [65]) CONNECTION_ADDR_ETH 9 (sample_with sample_online) = Done (REPORT_OFFLINE, lg') \<and>
    find_node sample_host (Some [65]) lg' = Some i' \<and> \<not> LnnIsNodeOnline (Some i') \<and> fst (ni_authChannelId i' ! CONNECTION_ADDR_WLAN) \<noteq> 0"
proof (rule eth_leave_reports_offline [OF sample_online_ok(1) sample_ok(1,2), of _ sample_online])
  show "find_node sample_host (Some [65]) (sample_with sample_online) = Some sample_online"
    using find_nodes [OF sample_online_ok(1) sample_ok(1)] sample_online_ok(2) by (simp add: sample_online_def sample_node_with_def)
qed (simp_all add: sample_online_def sample_node_with_def LnnIsNodeOnline_def)

text \<open>The counter of connections kept for each type has two bits: with the fourth connection it is back at zero.\<close>

lemma relation_wraps:
  assumes "t < CONNECTION_ADDR_MAX" "node_sizes old" "node_sizes i" "ni_relation old ! t = 3" "ni_relation i ! t = 1"
  shows "ni_relation (MergeLnnInfo old i) ! t = 0"
  using assms by (simp add: MergeLnnInfo_def node_sizes_def)

text \<open>A connection code whose low sixteen bits are all set is read back as the mark of a missing code.\<close>

lemma code_taken_for_missing:
  assumes "map_ok sc (lg_connectionCode lg)" "length (entries (lg_connectionCode lg)) < 2 ^ 32 - 1"
    "AddCnnCode sc e e' (lg_connectionCode lg) (Some uuid) type 0xFFFF = (SOFTBUS_OK, m)" "ho_signed_char h = sc" "healthy (ho_env h 0)"
  shows "LnnGetCnnCode h (lg\<lparr>lg_connectionCode := m\<rparr>) (Some uuid) type = INVALID_CONNECTION_CODE_VALUE"
proof -
  obtain key where k: "CreateCnnCodeKey e (Some uuid) type = Some key"
    using assms(3) by (cases "CreateCnnCodeKey e (Some uuid) type") (auto simp: AddCnnCode_def)
  obtain st mo where r: "LnnMapSet sc e' (Some (lg_connectionCode lg)) (Some key) (Some (ucast (0xFFFF :: i64) :: 16 word)) 2 = (st, mo)" by fastforce
  have "st = SOFTBUS_OK" "mo = Some m" using assms(3) k r set_step(1) [OF assms(1,2) r] by (auto simp: AddCnnCode_def split: if_splits)
  then have "map_ok sc m" "map_view m key = Some (2, ucast (0xFFFF :: i64))" using set_step(1) [OF assms(1,2) r] by auto
  then have g: "LnnMapGet sc (Some m) (Some key) = Some (ucast (0xFFFF :: i64))" by (simp add: get_view)
  have "CreateCnnCodeKey (ho_env h 0) (Some uuid) type = Some key \<or> CreateCnnCodeKey (ho_env h 0) (Some uuid) type = None"
    using k by (auto simp: CreateCnnCodeKey_def Let_def split: if_splits)
  then show ?thesis using g assms(4) by (auto simp: LnnGetCnnCode_def)
qed

text \<open>Neither a connection of type \<^verbatim>\<open>CONNECTION_ADDR_MAX\<close> nor a null node is handled, although both are looked for.\<close>

lemma address_max_undefined:
  assumes "ledger_ok sc lg" "host_ok sc h" "lock_ok (ho_env h 0) 0" "find_node h (Some u) lg = Some i"
  shows "LnnSetNodeOffline h (Some u) CONNECTION_ADDR_MAX a lg = Undef"
  using assms old_sizes [OF assms(1,2,4)] by (simp add: LnnSetNodeOffline_def drop_relation_def ClearAuthChannelId_def node_sizes_def)

lemma null_node_undefined: "LnnAddOnlineNode h None lg = Undef"
  by (simp add: LnnAddOnlineNode_def)

text \<open>A hash shorter than that of the hash function is read past its end.\<close>

lemma short_hash_overread:
  assumes "LnnMapInitIterator (ho_env h 1) (Some (lg_udidMap lg)) = Some it" "visited (lg_udidMap lg) it = i # is" "lock_ok (ho_env h 0) 0"
    "LnnIsNodeOnline (Some i)" "ho_hash h (ni_deviceUdid i) = Some x" "0 < length udidHash" "length udidHash < SHA_256_HASH_LEN"
  shows "LnnGetNetworkIdByUdidHash h lg (Some udidHash) False len = Undef"
  using assms by (simp add: LnnGetNetworkIdByUdidHash_def)


end
