(* ===== verification/Lnn_Device_Type.thy ===== *)
theory Lnn_Device_Type
  imports Softbus_Prelude
begin

text \<open>
  Names and numbers of device types, \<^verbatim>\<open>core/bus_center/lnn/net_ledger/common/src/lnn_device_info.c\<close>: a
  table of known types, and three hexadecimal digits for the others. The digits are returned in one
  static buffer, \<^verbatim>\<open>g_stringTypeId\<close>, which the conversion in the other direction clears; so strings are
  given by pointers, which may be to that buffer.
\<close>

unbundle bit_operations_syntax

abbreviation (input) TYPE_UNKNOW_ID :: u16 where "TYPE_UNKNOW_ID \<equiv> 0"
abbreviation (input) DEVICE_TYPE_MAX_LENGTH :: nat where "DEVICE_TYPE_MAX_LENGTH \<equiv> 3"
abbreviation (input) HEX_OF_BINARY_BITS :: nat where "HEX_OF_BINARY_BITS \<equiv> 4"

text \<open>UNKNOWN, PHONE, PAD, TV, CAR, WATCH, WiFiCamera, PC and SMART\_DISPLAY in ASCII.\<close>

definition g_typeToIdMap :: "(bytes \<times> u16) list" where
  "g_typeToIdMap =
    [([85, 78, 75, 78, 79, 87, 78], TYPE_UNKNOW_ID),
     ([80, 72, 79, 78, 69], 0x0E),
     ([80, 65, 68], 0x11),
     ([84, 86], 0x9C),
     ([67, 65, 82], 0x83),
     ([87, 65, 84, 67, 72], 0x6D),
     ([87, 105, 70, 105, 67, 97, 109, 101, 114, 97], 0x08),
     ([80, 67], 0x0C),
     ([83, 77, 65, 82, 84, 95, 68, 73, 83, 80, 76, 65, 89], 0xA02)]"

datatype type_str = Literal bytes | StaticBuffer

fun type_text :: "bytes \<Rightarrow> type_str \<Rightarrow> bytes" where
  "type_text g (Literal s) = s"
| "type_text g StaticBuffer = g"

fun string_to_int_loop :: "u16 \<Rightarrow> bytes \<Rightarrow> u16" where
  "string_to_int_loop typeId [] = drop_bit HEX_OF_BINARY_BITS typeId"
| "string_to_int_loop typeId (c # cs) =
     (if c \<le> 57 \<and> c \<ge> 48 then string_to_int_loop (push_bit HEX_OF_BINARY_BITS (typeId OR ucast (c - 48))) cs
      else if c \<le> 70 \<and> c \<ge> 65 then string_to_int_loop (push_bit HEX_OF_BINARY_BITS (typeId OR (ucast (c - 65) + 10))) cs
      else if c \<le> 102 \<and> c \<ge> 97 then string_to_int_loop (push_bit HEX_OF_BINARY_BITS (typeId OR (ucast (c - 97) + 10))) cs
      else TYPE_UNKNOW_ID)"

definition ConvertStringToInt :: "bytes \<Rightarrow> u16" where
  "ConvertStringToInt deviceType = string_to_int_loop 0 deviceType"

definition InterceptTypeId :: "u16 \<Rightarrow> nat \<Rightarrow> u8" where
  "InterceptTypeId typeId i = ucast (drop_bit (HEX_OF_BINARY_BITS * i) typeId mod 16)"

definition type_digit :: "u8 \<Rightarrow> u8" where
  "type_digit d = (if d = 0 then 48 else if d < 10 then d + 48 else d - 10 + 65)"

definition ConvertIntToHexString :: "u16 \<Rightarrow> bytes" where
  "ConvertIntToHexString typeId = map (\<lambda>i. type_digit (InterceptTypeId typeId i)) [2, 1, 0]"

text \<open>The result is the status, what is written to the identifier if it is written, and the static buffer.\<close>

definition LnnConvertDeviceTypeToId :: "env \<Rightarrow> type_str option \<Rightarrow> bool \<Rightarrow> bytes \<Rightarrow> status \<times> u16 option \<times> bytes" where
  "LnnConvertDeviceTypeToId e deviceType out_null g =
     (case deviceType of
        None \<Rightarrow> (SOFTBUS_INVALID_PARAM, None, g)
      | Some p \<Rightarrow>
          if out_null then (SOFTBUS_INVALID_PARAM, None, g)
          else (case map_of g_typeToIdMap (type_text g p) of
             Some typeId \<Rightarrow> (SOFTBUS_OK, Some typeId, g)
           | None \<Rightarrow>
               if length (type_text g p) \<le> DEVICE_TYPE_MAX_LENGTH then
                 (if \<not> memset_ok e (Suc DEVICE_TYPE_MAX_LENGTH) DEVICE_TYPE_MAX_LENGTH then (SOFTBUS_ERR, Some TYPE_UNKNOW_ID, g)
                  else let g = []; typeId = ConvertStringToInt (type_text g p) in
                    if typeId \<noteq> TYPE_UNKNOW_ID then (SOFTBUS_OK, Some typeId, g) else (SOFTBUS_ERR, Some TYPE_UNKNOW_ID, g))
               else (SOFTBUS_ERR, Some TYPE_UNKNOW_ID, g)))"

definition LnnConvertIdToDeviceType :: "u16 \<Rightarrow> bytes \<Rightarrow> type_str option \<times> bytes" where
  "LnnConvertIdToDeviceType typeId g =
     (case find (\<lambda>(s, i). i = typeId) g_typeToIdMap of
        Some (s, i) \<Rightarrow> (Some (Literal s), g)
      | None \<Rightarrow>
          if typeId \<le> 0xF000 \<and> typeId > 0 then (Some StaticBuffer, ConvertIntToHexString typeId)
          else (None, g))"

subsection \<open>Digits\<close>

lemma intercept_less: "InterceptTypeId t i < 16"
proof -
  have "drop_bit (4 * i) t mod 16 < 16" by (rule word_mod_less_divisor) simp
  then have "unat (drop_bit (4 * i) t mod 16) < 16" by (simp add: word_less_nat_alt)
  then show ?thesis by (simp add: InterceptTypeId_def word_less_nat_alt unsigned_ucast_eq take_bit_nat_eq_self)
qed

lemma nibbleI:
  assumes "\<forall>n \<in> set [0..<16]. P (of_nat n)" "(d :: u8) < 16"
  shows "P d"
proof -
  have "unat d \<in> set [0..<16]" using assms(2) by (simp add: word_less_nat_alt)
  then show ?thesis using assms(1) by force
qed

lemma parse_digit: "d < 16 \<Longrightarrow> string_to_int_loop a (type_digit d # cs) = string_to_int_loop (push_bit 4 (a OR ucast d)) cs"
  by (erule nibbleI [rotated]) (simp add: upt_rec type_digit_def)

lemma digit_not_letter: "d < 16 \<Longrightarrow> type_digit d \<notin> {80, 82, 84, 86}"
  by (erule nibbleI [rotated]) (simp add: upt_rec type_digit_def)

lemma intercept_bit: "bit (InterceptTypeId t i) n \<longleftrightarrow> n < 4 \<and> bit t (4 * i + n)"
proof -
  have "drop_bit (4 * i) t mod 16 = take_bit 4 (drop_bit (4 * i) t)" by (simp add: take_bit_eq_mod)
  then show ?thesis by (auto simp: InterceptTypeId_def bit_simps)
qed

lemma digits_assemble:
  "drop_bit 4 (push_bit 4 (push_bit 4 (push_bit 4 (ucast (InterceptTypeId t 2)) OR ucast (InterceptTypeId t 1)) OR ucast (InterceptTypeId t 0)) :: u16) =
   take_bit 12 t"
proof (rule bit_word_eqI)
  fix n assume n: "n < LENGTH(16)"
  have "n < 4 \<or> 4 \<le> n \<and> n < 8 \<or> 8 \<le> n \<and> n < 12 \<or> 12 \<le> n" by linarith
  then show "bit (drop_bit 4 (push_bit 4 (push_bit 4 (push_bit 4 (ucast (InterceptTypeId t 2)) OR ucast (InterceptTypeId t 1)) OR
      ucast (InterceptTypeId t 0)) :: u16)) n = bit (take_bit 12 t) n"
    by (elim disjE) (use n in \<open>auto simp: bit_simps intercept_bit\<close>)
qed

lemma hex_string_parses: "ConvertStringToInt (ConvertIntToHexString t) = take_bit 12 t"
  unfolding ConvertStringToInt_def ConvertIntToHexString_def digits_assemble [symmetric]
  by (simp add: parse_digit intercept_less del: string_to_int_loop.simps(2))

lemma hex_string_not_known: "map_of g_typeToIdMap (ConvertIntToHexString t) = None"
  using digit_not_letter [OF intercept_less, of t 2] digit_not_letter [OF intercept_less, of t 0]
  by (simp add: g_typeToIdMap_def ConvertIntToHexString_def)

lemma known_names: "find (\<lambda>(s, i). i = t) g_typeToIdMap = Some (s, i) \<Longrightarrow> map_of g_typeToIdMap s = Some t"
  by (auto simp: g_typeToIdMap_def split: if_splits)

text \<open>
  Device types survive being named. The name of every type of at most three hexadecimal digits,
  copied out of the static buffer, is converted back to that type; and of a larger type, as far as it
  gets a name of digits, only the last three digits come back.
\<close>

theorem device_type_round_trip:
  assumes "securec e" "LnnConvertIdToDeviceType t g = (Some p, g')" "take_bit 12 t \<noteq> 0 \<or> t = 0"
  shows "\<exists>g''. LnnConvertDeviceTypeToId e (Some (Literal (type_text g' p))) False g' = (SOFTBUS_OK, Some (take_bit 12 t), g'')"
proof (cases "find (\<lambda>(s, i). i = t) g_typeToIdMap")
  case None
  then have "t \<noteq> 0" by (auto simp: g_typeToIdMap_def split: if_splits)
  moreover have "p = StaticBuffer" "g' = ConvertIntToHexString t"
    using None assms(2) by (auto simp: LnnConvertIdToDeviceType_def split: if_splits)
  moreover have "length (ConvertIntToHexString t) = 3" by (simp add: ConvertIntToHexString_def)
  ultimately show ?thesis
    using assms(3) securec_memset [OF assms(1), of 4 3] by (simp add: LnnConvertDeviceTypeToId_def hex_string_not_known hex_string_parses)
next
  case (Some x)
  then obtain s i where x: "find (\<lambda>(s, i). i = t) g_typeToIdMap = Some (s, i)" by (cases x) auto
  then have "p = Literal s" using assms(2) by (simp add: LnnConvertIdToDeviceType_def)
  moreover have "take_bit 12 t = t" using x by (auto simp: g_typeToIdMap_def split: if_splits)
  ultimately show ?thesis using known_names [OF x] by (simp add: LnnConvertDeviceTypeToId_def)
qed

theorem device_type_round_trip_witness:
  "\<exists>g''. LnnConvertDeviceTypeToId ideal_env (Some (Literal (type_text (ConvertIntToHexString 0xA2F) StaticBuffer))) False (ConvertIntToHexString 0xA2F) =
    (SOFTBUS_OK, Some (take_bit 12 0xA2F), g'')"
  by (rule device_type_round_trip [of _ _ "[]"])
    (simp_all add: healthy_securec LnnConvertIdToDeviceType_def g_typeToIdMap_def)

text \<open>
  Passed on without being copied, a name made of digits is cleared before it is read, and the
  conversion fails.
\<close>

lemma device_type_alias_fails:
  assumes "LnnConvertIdToDeviceType t g = (Some StaticBuffer, g')"
  shows "fst (LnnConvertDeviceTypeToId e (Some StaticBuffer) False g') = SOFTBUS_ERR"
proof -
  have "g' = ConvertIntToHexString t" using assms by (auto simp: LnnConvertIdToDeviceType_def split: if_splits option.splits)
  then show ?thesis
    by (auto simp: LnnConvertDeviceTypeToId_def hex_string_not_known ConvertStringToInt_def Let_def)
qed

text \<open>Types that differ in the fourth digit only have one name.\<close>

lemma device_type_names_clash: "LnnConvertIdToDeviceType 0x1A2F g = LnnConvertIdToDeviceType 0xA2F g"
  by (simp add: LnnConvertIdToDeviceType_def g_typeToIdMap_def ConvertIntToHexString_def InterceptTypeId_def type_digit_def)

end
