(* ===== verification/Lnn_Ledger_Keys.thy ===== *)
theory Lnn_Ledger_Keys
  imports Lnn_Ledger_Laws Lnn_Device_Type Lnn_Capability
begin

text \<open>
  Reading and writing single fields of remote nodes: the table of getters of
  \<^verbatim>\<open>lnn_distributed_net_ledger.c\<close> with the accessors that dispatch on it by key, and the setters. The
  accessors hand the getters an untyped pointer; here it comes with the size of the object it points
  to, and writing more than that is undefined.
\<close>

unbundle bit_operations_syntax

subsection \<open>The other fields of a node\<close>

record NodeRest =
  nr_nickName :: bytes
  nr_masterUdid :: bytes
  nr_nodeAddress :: bytes
  nr_masterWeight :: int
  nr_netCapacity :: u32
  nr_bleMacAddr :: bytes
  nr_latestTime :: u64
  nr_bssTransInfo :: bytes
  nr_p2pRole :: int
  nr_wifiCfg :: bytes
  nr_chanList5g :: bytes
  nr_staFrequency :: int
  nr_p2pMac :: bytes
  nr_goMac :: bytes
  nr_p2pIp :: bytes
  nr_wifiDirectAddr :: bytes
  nr_dataChangeFlag :: u16
  nr_isCharging :: bool
  nr_batteryLevel :: int
  nr_feature :: u64
  nr_stateVersion :: int
  nr_peerIrk :: bytes
  nr_publicAddress :: bytes
  nr_cipherKey :: bytes
  nr_cipherIv :: bytes
  nr_bleMacRefreshSwitch :: int
  nr_staticCapability :: bytes
  nr_staticCapLen :: int
  nr_remotePtk :: bytes
  nr_bleDirectTimestamp :: u64

type_synonym full_node = "NodeRest NodeInfo"
type_synonym full_ledger = "NodeRest ledger"
type_synonym full_host = "NodeRest host"

definition on_rest :: "(NodeRest \<Rightarrow> NodeRest) \<Rightarrow> full_node \<Rightarrow> full_node" where
  "on_rest f i = i\<lparr>ni_rest := f (ni_rest i)\<rparr>"

type_synonym info_key = nat

abbreviation (input) STRING_KEY_HICE_VERSION :: info_key where "STRING_KEY_HICE_VERSION \<equiv> 0"
abbreviation (input) STRING_KEY_DEV_UDID :: info_key where "STRING_KEY_DEV_UDID \<equiv> 1"
abbreviation (input) STRING_KEY_UUID :: info_key where "STRING_KEY_UUID \<equiv> 3"
abbreviation (input) STRING_KEY_DEV_TYPE :: info_key where "STRING_KEY_DEV_TYPE \<equiv> 4"
abbreviation (input) STRING_KEY_DEV_NAME :: info_key where "STRING_KEY_DEV_NAME \<equiv> 5"
abbreviation (input) STRING_KEY_BT_MAC :: info_key where "STRING_KEY_BT_MAC \<equiv> 9"
abbreviation (input) STRING_KEY_WLAN_IP :: info_key where "STRING_KEY_WLAN_IP \<equiv> 10"
abbreviation (input) STRING_KEY_MASTER_NODE_UDID :: info_key where "STRING_KEY_MASTER_NODE_UDID \<equiv> 12"
abbreviation (input) STRING_KEY_P2P_MAC :: info_key where "STRING_KEY_P2P_MAC \<equiv> 13"
abbreviation (input) STRING_KEY_P2P_GO_MAC :: info_key where "STRING_KEY_P2P_GO_MAC \<equiv> 14"
abbreviation (input) STRING_KEY_WIFI_CFG :: info_key where "STRING_KEY_WIFI_CFG \<equiv> 15"
abbreviation (input) STRING_KEY_CHAN_LIST_5G :: info_key where "STRING_KEY_CHAN_LIST_5G \<equiv> 16"
abbreviation (input) STRING_KEY_NODE_ADDR :: info_key where "STRING_KEY_NODE_ADDR \<equiv> 17"
abbreviation (input) STRING_KEY_OFFLINE_CODE :: info_key where "STRING_KEY_OFFLINE_CODE \<equiv> 18"
abbreviation (input) STRING_KEY_BLE_MAC :: info_key where "STRING_KEY_BLE_MAC \<equiv> 20"
abbreviation (input) STRING_KEY_WIFIDIRECT_ADDR :: info_key where "STRING_KEY_WIFIDIRECT_ADDR \<equiv> 21"
abbreviation (input) STRING_KEY_P2P_IP :: info_key where "STRING_KEY_P2P_IP \<equiv> 22"
abbreviation (input) STRING_KEY_END :: info_key where "STRING_KEY_END \<equiv> 23"
abbreviation (input) NUM_KEY_BEGIN :: info_key where "NUM_KEY_BEGIN \<equiv> 100"
abbreviation (input) NUM_KEY_SESSION_PORT :: info_key where "NUM_KEY_SESSION_PORT \<equiv> 100"
abbreviation (input) NUM_KEY_AUTH_PORT :: info_key where "NUM_KEY_AUTH_PORT \<equiv> 101"
abbreviation (input) NUM_KEY_PROXY_PORT :: info_key where "NUM_KEY_PROXY_PORT \<equiv> 102"
abbreviation (input) NUM_KEY_META_NODE :: info_key where "NUM_KEY_META_NODE \<equiv> 103"
abbreviation (input) NUM_KEY_NET_CAP :: info_key where "NUM_KEY_NET_CAP \<equiv> 104"
abbreviation (input) NUM_KEY_FEATURE_CAPA :: info_key where "NUM_KEY_FEATURE_CAPA \<equiv> 105"
abbreviation (input) NUM_KEY_DEV_TYPE_ID :: info_key where "NUM_KEY_DEV_TYPE_ID \<equiv> 106"
abbreviation (input) NUM_KEY_MASTER_NODE_WEIGHT :: info_key where "NUM_KEY_MASTER_NODE_WEIGHT \<equiv> 107"
abbreviation (input) NUM_KEY_P2P_ROLE :: info_key where "NUM_KEY_P2P_ROLE \<equiv> 108"
abbreviation (input) NUM_KEY_STA_FREQUENCY :: info_key where "NUM_KEY_STA_FREQUENCY \<equiv> 109"
abbreviation (input) NUM_KEY_DISCOVERY_TYPE :: info_key where "NUM_KEY_DISCOVERY_TYPE \<equiv> 110"
abbreviation (input) NUM_KEY_DATA_CHANGE_FLAG :: info_key where "NUM_KEY_DATA_CHANGE_FLAG \<equiv> 112"
abbreviation (input) NUM_KEY_STATE_VERSION :: info_key where "NUM_KEY_STATE_VERSION \<equiv> 115"
abbreviation (input) NUM_KEY_STATIC_CAP_LEN :: info_key where "NUM_KEY_STATIC_CAP_LEN \<equiv> 116"
abbreviation (input) NUM_KEY_END :: info_key where "NUM_KEY_END \<equiv> 117"
abbreviation (input) BOOL_KEY_BEGIN :: info_key where "BOOL_KEY_BEGIN \<equiv> 118"
abbreviation (input) BOOL_KEY_TLV_NEGOTIATION :: info_key where "BOOL_KEY_TLV_NEGOTIATION \<equiv> 118"
abbreviation (input) BOOL_KEY_END :: info_key where "BOOL_KEY_END \<equiv> 119"
abbreviation (input) BYTE_KEY_BEGIN :: info_key where "BYTE_KEY_BEGIN \<equiv> 120"
abbreviation (input) BYTE_KEY_ACCOUNT_HASH :: info_key where "BYTE_KEY_ACCOUNT_HASH \<equiv> 120"
abbreviation (input) BYTE_KEY_REMOTE_PTK :: info_key where "BYTE_KEY_REMOTE_PTK \<equiv> 121"
abbreviation (input) BYTE_KEY_STATIC_CAPABILITY :: info_key where "BYTE_KEY_STATIC_CAPABILITY \<equiv> 122"
abbreviation (input) BYTE_KEY_IRK :: info_key where "BYTE_KEY_IRK \<equiv> 123"
abbreviation (input) BYTE_KEY_PUB_MAC :: info_key where "BYTE_KEY_PUB_MAC \<equiv> 124"
abbreviation (input) BYTE_KEY_BROADCAST_CIPHER_KEY :: info_key where "BYTE_KEY_BROADCAST_CIPHER_KEY \<equiv> 125"
abbreviation (input) BYTE_KEY_BROADCAST_CIPHER_IV :: info_key where "BYTE_KEY_BROADCAST_CIPHER_IV \<equiv> 126"
abbreviation (input) BYTE_KEY_END :: info_key where "BYTE_KEY_END \<equiv> 127"

abbreviation (input) LNN_COMMON_LEN :: u32 where "LNN_COMMON_LEN \<equiv> 4"
abbreviation (input) LNN_COMMON_LEN_64 :: u32 where "LNN_COMMON_LEN_64 \<equiv> 8"
abbreviation (input) DATA_CHANGE_FLAG_BUF_LEN :: u32 where "DATA_CHANGE_FLAG_BUF_LEN \<equiv> 2"
abbreviation (input) PTK_DEFAULT_LEN :: nat where "PTK_DEFAULT_LEN \<equiv> 32"
abbreviation (input) STATIC_CAP_LEN :: nat where "STATIC_CAP_LEN \<equiv> 100"
abbreviation (input) IP_LEN :: nat where "IP_LEN \<equiv> 46"
abbreviation (input) SHORT_ADDRESS_MAX_LEN :: nat where "SHORT_ADDRESS_MAX_LEN \<equiv> 20"
abbreviation (input) BLE_ADV_LOST_TIME :: u64 where "BLE_ADV_LOST_TIME \<equiv> 5000"
abbreviation (input) BIT_WIFI_DIRECT_TLV_NEGOTIATION :: nat where "BIT_WIFI_DIRECT_TLV_NEGOTIATION \<equiv> 3"

subsection \<open>Getters\<close>

text \<open>
  What is written through the pointer: a string with its end, bytes, or an integer of a width in
  bytes. If the status is an error, what the buffer holds is not a result, and \<open>None\<close> is given.
\<close>

datatype info_out = OutString bytes | OutBytes bytes | OutInt nat int

text \<open>Where a getter writes: the size of the object, and the length it is told.\<close>

record target =
  tg_null :: bool
  tg_cap :: nat
  tg_len :: u32

type_synonym got = "(status \<times> info_out option) outcome"

definition put_string :: "target \<Rightarrow> bytes \<Rightarrow> got" where
  "put_string t s =
     (case strcpy_s (tg_len t) s of
        (True, w) \<Rightarrow> if length s \<ge> tg_cap t then Undef else Done (SOFTBUS_OK, Some (OutString s))
      | (False, None) \<Rightarrow> Done (SOFTBUS_MEM_ERR, None)
      | (False, Some w) \<Rightarrow> if tg_cap t = 0 then Undef else Done (SOFTBUS_MEM_ERR, None))"

text \<open>A copy that does not fit clears the whole of the destination.\<close>

definition put_bytes :: "env \<Rightarrow> target \<Rightarrow> bytes \<Rightarrow> got" where
  "put_bytes e t bs =
     (if \<not> memcpy_ok e (unat (tg_len t)) (length bs) then (if unat (tg_len t) > tg_cap t then Undef else Done (SOFTBUS_MEM_ERR, None))
      else if length bs > tg_cap t then Undef
      else Done (SOFTBUS_OK, Some (OutBytes bs)))"

definition put_int :: "target \<Rightarrow> nat \<Rightarrow> int \<Rightarrow> got" where
  "put_int t w v = (if w > tg_cap t then Undef else Done (SOFTBUS_OK, Some (OutInt w v)))"

type_synonym getter = "full_host \<Rightarrow> full_ledger \<Rightarrow> bytes option \<Rightarrow> target \<Rightarrow> got"

text \<open>
  Strings are lists without their terminator. Only the address over Bluetooth Low Energy is filled as an
  array, with \<^verbatim>\<open>memcpy_s\<close>, so it is kept as its \<^verbatim>\<open>MAC_LEN\<close> bytes; reading it as a string needs a terminator.
\<close>

definition c_string :: "bytes \<Rightarrow> bytes outcome" where
  "c_string a = (if 0 \<in> set a then Done (takeWhile (\<lambda>b. b \<noteq> 0) a) else Undef)"

definition RETURN_IF_GET_NODE_VALID :: "full_host \<Rightarrow> full_ledger \<Rightarrow> bytes option \<Rightarrow> target \<Rightarrow> (full_node \<Rightarrow> got) \<Rightarrow> got" where
  "RETURN_IF_GET_NODE_VALID h lg networkId t f =
     (if networkId = None \<or> tg_null t then Done (SOFTBUS_INVALID_PARAM, None)
      else case LnnGetNodeInfoById h 1 lg networkId CATEGORY_NETWORK_ID of
        None \<Rightarrow> Done (SOFTBUS_ERR, None)
      | Some i \<Rightarrow> f i)"

definition DlGetDeviceUuid :: getter where
  "DlGetDeviceUuid h lg networkId t =
     RETURN_IF_GET_NODE_VALID h lg networkId t (\<lambda>i. put_string t (ni_uuid i))"

definition DlGetDeviceOfflineCode :: getter where
  "DlGetDeviceOfflineCode h lg networkId t =
     RETURN_IF_GET_NODE_VALID h lg networkId t (\<lambda>i. put_bytes (ho_env h 2) t (ni_offlineCode i))"

definition DlGetDeviceUdid :: getter where
  "DlGetDeviceUdid h lg networkId t =
     RETURN_IF_GET_NODE_VALID h lg networkId t (\<lambda>i. put_string t (ni_deviceUdid i))"

definition DlGetNodeSoftBusVersion :: getter where
  "DlGetNodeSoftBusVersion h lg networkId t =
     RETURN_IF_GET_NODE_VALID h lg networkId t (\<lambda>i. put_string t (ni_softBusVersion i))"

text \<open>The name of the type is read where \<^verbatim>\<open>LnnConvertIdToDeviceType\<close> left it.\<close>

definition DlGetDeviceType :: getter where
  "DlGetDeviceType h lg networkId t =
     RETURN_IF_GET_NODE_VALID h lg networkId t (\<lambda>i. case LnnConvertIdToDeviceType (ni_deviceTypeId i) [] of
        (None, g) \<Rightarrow> Done (SOFTBUS_NETWORK_GET_DEVICE_INFO_ERR, None)
      | (Some p, g) \<Rightarrow> put_string t (type_text g p))"

definition DlGetDeviceTypeId :: getter where
  "DlGetDeviceTypeId h lg networkId t =
     RETURN_IF_GET_NODE_VALID h lg networkId t (\<lambda>i. put_int t 4 (uint (ni_deviceTypeId i)))"

definition DlGetAuthType :: getter where
  "DlGetAuthType h lg networkId t =
     RETURN_IF_GET_NODE_VALID h lg networkId t (\<lambda>i. put_int t 4 (uint (ni_AuthTypeValue i)))"

definition DlGetDeviceName :: getter where
  "DlGetDeviceName h lg networkId t =
     RETURN_IF_GET_NODE_VALID h lg networkId t (\<lambda>i. put_string t (ni_deviceName i))"

definition DlGetBtMac :: getter where
  "DlGetBtMac h lg networkId t =
     RETURN_IF_GET_NODE_VALID h lg networkId t (\<lambda>i. put_string t (ni_macAddr i))"

definition DlGetWlanIp :: getter where
  "DlGetWlanIp h lg networkId t =
     RETURN_IF_GET_NODE_VALID h lg networkId t (\<lambda>i. put_string t (ni_deviceIp i))"

definition DlGetMasterUdid :: getter where
  "DlGetMasterUdid h lg networkId t =
     RETURN_IF_GET_NODE_VALID h lg networkId t (\<lambda>i.
        if \<not> LnnIsNodeOnline (Some i) then Done (SOFTBUS_NETWORK_NODE_OFFLINE, None)
        else put_string t (nr_masterUdid (ni_rest i)))"

definition DlGetNodeBleMac :: getter where
  "DlGetNodeBleMac h lg networkId t =
     RETURN_IF_GET_NODE_VALID h lg networkId t (\<lambda>i. bind_outcome (c_string (nr_bleMacAddr (ni_rest i))) (\<lambda>mac.
       if mac = [] then Done (SOFTBUS_ERR, None)
       else if nr_bleMacRefreshSwitch (ni_rest i) \<noteq> 0 \<and> \<not> nr_latestTime (ni_rest i) + BLE_ADV_LOST_TIME \<ge> GetCurrentTime h
       then Done (SOFTBUS_ERR, None)
       else put_string t mac))"

definition DlGetRemotePtk :: getter where
  "DlGetRemotePtk h lg networkId t =
     (if unat (tg_len t) \<noteq> PTK_DEFAULT_LEN then Done (SOFTBUS_INVALID_PARAM, None)
      else RETURN_IF_GET_NODE_VALID h lg networkId t (\<lambda>i. put_bytes (ho_env h 2) t (nr_remotePtk (ni_rest i))))"

definition DlGetStaticCapLen :: getter where
  "DlGetStaticCapLen h lg networkId t =
     (if tg_len t \<noteq> LNN_COMMON_LEN then Done (SOFTBUS_INVALID_PARAM, None)
      else RETURN_IF_GET_NODE_VALID h lg networkId t (\<lambda>i.
        if \<not> LnnIsNodeOnline (Some i) then Done (SOFTBUS_ERR, None) else put_int t 4 (nr_staticCapLen (ni_rest i))))"

definition DlGetStaticCap :: getter where
  "DlGetStaticCap h lg networkId t =
     (if unat (tg_len t) > STATIC_CAP_LEN then Done (SOFTBUS_INVALID_PARAM, None)
      else RETURN_IF_GET_NODE_VALID h lg networkId t (\<lambda>i. put_bytes (ho_env h 2) t (nr_staticCapability (ni_rest i))))"

definition DlGetAuthPort :: getter where
  "DlGetAuthPort h lg networkId t =
     (if tg_len t \<noteq> LNN_COMMON_LEN then Done (SOFTBUS_INVALID_PARAM, None)
      else RETURN_IF_GET_NODE_VALID h lg networkId t (\<lambda>i. put_int t 4 (ni_authPort i)))"

definition DlGetSessionPort :: getter where
  "DlGetSessionPort h lg networkId t =
     (if tg_len t \<noteq> LNN_COMMON_LEN then Done (SOFTBUS_INVALID_PARAM, None)
      else RETURN_IF_GET_NODE_VALID h lg networkId t (\<lambda>i. put_int t 4 (ni_sessionPort i)))"

definition DlGetProxyPort :: getter where
  "DlGetProxyPort h lg networkId t =
     (if tg_len t \<noteq> LNN_COMMON_LEN then Done (SOFTBUS_INVALID_PARAM, None)
      else RETURN_IF_GET_NODE_VALID h lg networkId t (\<lambda>i. put_int t 4 (ni_proxyPort i)))"

definition DlGetNetCap :: getter where
  "DlGetNetCap h lg networkId t =
     (if tg_len t \<noteq> LNN_COMMON_LEN then Done (SOFTBUS_INVALID_PARAM, None)
      else RETURN_IF_GET_NODE_VALID h lg networkId t (\<lambda>i. put_int t 4 (sint (nr_netCapacity (ni_rest i)))))"

definition DlGetFeatureCap :: getter where
  "DlGetFeatureCap h lg networkId t =
     (if tg_len t \<noteq> LNN_COMMON_LEN_64 then Done (SOFTBUS_INVALID_PARAM, None)
      else RETURN_IF_GET_NODE_VALID h lg networkId t (\<lambda>i. put_int t 8 (uint (nr_feature (ni_rest i)))))"

definition DlGetNetType :: getter where
  "DlGetNetType h lg networkId t =
     (if tg_len t \<noteq> LNN_COMMON_LEN then Done (SOFTBUS_INVALID_PARAM, None)
      else RETURN_IF_GET_NODE_VALID h lg networkId t (\<lambda>i. put_int t 4 (sint (ni_discoveryType i))))"

definition DlGetMasterWeight :: getter where
  "DlGetMasterWeight h lg networkId t =
     (if tg_len t \<noteq> LNN_COMMON_LEN then Done (SOFTBUS_INVALID_PARAM, None)
      else RETURN_IF_GET_NODE_VALID h lg networkId t (\<lambda>i. put_int t 4 (nr_masterWeight (ni_rest i))))"

definition DlGetP2pMac :: getter where
  "DlGetP2pMac h lg networkId t =
     RETURN_IF_GET_NODE_VALID h lg networkId t (\<lambda>i.
        if \<not> LnnIsNodeOnline (Some i) \<and> \<not> ni_isMetaNode i then Done (SOFTBUS_NETWORK_NODE_OFFLINE, None)
        else put_string t (nr_p2pMac (ni_rest i)))"

definition DlGetWifiDirectAddr :: getter where
  "DlGetWifiDirectAddr h lg networkId t =
     RETURN_IF_GET_NODE_VALID h lg networkId t (\<lambda>i.
        if \<not> LnnIsNodeOnline (Some i) \<and> \<not> ni_isMetaNode i then Done (SOFTBUS_NETWORK_NODE_OFFLINE, None)
        else put_string t (nr_wifiDirectAddr (ni_rest i)))"

definition DlGetNodeAddr :: getter where
  "DlGetNodeAddr h lg networkId t =
     RETURN_IF_GET_NODE_VALID h lg networkId t (\<lambda>i.
        if \<not> LnnIsNodeOnline (Some i) then Done (SOFTBUS_NETWORK_NODE_OFFLINE, None)
        else put_string t (nr_nodeAddress (ni_rest i)))"

definition DlGetP2pGoMac :: getter where
  "DlGetP2pGoMac h lg networkId t =
     RETURN_IF_GET_NODE_VALID h lg networkId t (\<lambda>i.
        if \<not> LnnIsNodeOnline (Some i) \<and> \<not> ni_isMetaNode i then Done (SOFTBUS_NETWORK_NODE_OFFLINE, None)
        else put_string t (nr_goMac (ni_rest i)))"

definition DlGetWifiCfg :: getter where
  "DlGetWifiCfg h lg networkId t =
     RETURN_IF_GET_NODE_VALID h lg networkId t (\<lambda>i.
        if \<not> LnnIsNodeOnline (Some i) \<and> \<not> ni_isMetaNode i then Done (SOFTBUS_NETWORK_NODE_OFFLINE, None)
        else put_string t (nr_wifiCfg (ni_rest i)))"

definition DlGetChanList5g :: getter where
  "DlGetChanList5g h lg networkId t =
     RETURN_IF_GET_NODE_VALID h lg networkId t (\<lambda>i.
        if \<not> LnnIsNodeOnline (Some i) \<and> \<not> ni_isMetaNode i then Done (SOFTBUS_NETWORK_NODE_OFFLINE, None)
        else put_string t (nr_chanList5g (ni_rest i)))"

definition DlGetP2pRole :: getter where
  "DlGetP2pRole h lg networkId t =
     (if tg_len t \<noteq> LNN_COMMON_LEN then Done (SOFTBUS_INVALID_PARAM, None)
      else RETURN_IF_GET_NODE_VALID h lg networkId t (\<lambda>i.
        if \<not> LnnIsNodeOnline (Some i) \<and> \<not> ni_isMetaNode i then Done (SOFTBUS_NETWORK_NODE_OFFLINE, None)
        else put_int t 4 (nr_p2pRole (ni_rest i))))"

definition DlGetStateVersion :: getter where
  "DlGetStateVersion h lg networkId t =
     (if tg_len t \<noteq> LNN_COMMON_LEN then Done (SOFTBUS_INVALID_PARAM, None)
      else RETURN_IF_GET_NODE_VALID h lg networkId t (\<lambda>i.
        if \<not> LnnIsNodeOnline (Some i) then Done (SOFTBUS_NETWORK_NODE_OFFLINE, None)
        else put_int t 4 (nr_stateVersion (ni_rest i))))"

definition DlGetStaFrequency :: getter where
  "DlGetStaFrequency h lg networkId t =
     (if tg_len t \<noteq> LNN_COMMON_LEN then Done (SOFTBUS_INVALID_PARAM, None)
      else RETURN_IF_GET_NODE_VALID h lg networkId t (\<lambda>i.
        if \<not> LnnIsNodeOnline (Some i) \<and> \<not> ni_isMetaNode i then Done (SOFTBUS_NETWORK_NODE_OFFLINE, None)
        else put_int t 4 (nr_staFrequency (ni_rest i))))"

definition DlGetNodeDataChangeFlag :: getter where
  "DlGetNodeDataChangeFlag h lg networkId t =
     (if tg_len t \<noteq> DATA_CHANGE_FLAG_BUF_LEN then Done (SOFTBUS_INVALID_PARAM, None)
      else RETURN_IF_GET_NODE_VALID h lg networkId t (\<lambda>i.
        if \<not> LnnIsNodeOnline (Some i) then Done (SOFTBUS_NETWORK_NODE_OFFLINE, None)
        else put_int t 2 (sint (nr_dataChangeFlag (ni_rest i)))))"

definition DlGetNodeTlvNegoFlag :: getter where
  "DlGetNodeTlvNegoFlag h lg networkId t =
     (if tg_len t \<noteq> 1 then Done (SOFTBUS_INVALID_PARAM, None)
      else RETURN_IF_GET_NODE_VALID h lg networkId t (\<lambda>i.
        if \<not> LnnIsNodeOnline (Some i) \<and> \<not> ni_isMetaNode i then Done (SOFTBUS_NETWORK_NODE_OFFLINE, None)
        else bind_outcome (IsFeatureSupport (nr_feature (ni_rest i)) BIT_WIFI_DIRECT_TLV_NEGOTIATION)
          (\<lambda>b. put_int t 1 (of_bool b))))"

definition DlGetAccountHash :: getter where
  "DlGetAccountHash h lg networkId t =
     (if unat (tg_len t) \<noteq> SHA_256_HASH_LEN then Done (SOFTBUS_INVALID_PARAM, None)
      else RETURN_IF_GET_NODE_VALID h lg networkId t (\<lambda>i.
        if \<not> LnnIsNodeOnline (Some i) then Done (SOFTBUS_NETWORK_NODE_OFFLINE, None)
        else put_bytes (ho_env h 2) t (ni_accountHash i)))"

definition DlGetDeviceIrk :: getter where
  "DlGetDeviceIrk h lg networkId t =
     RETURN_IF_GET_NODE_VALID h lg networkId t (\<lambda>i. put_bytes (ho_env h 2) t (nr_peerIrk (ni_rest i)))"

definition DlGetDevicePubMac :: getter where
  "DlGetDevicePubMac h lg networkId t =
     RETURN_IF_GET_NODE_VALID h lg networkId t (\<lambda>i. put_bytes (ho_env h 2) t (nr_publicAddress (ni_rest i)))"

definition DlGetDeviceCipherInfoKey :: getter where
  "DlGetDeviceCipherInfoKey h lg networkId t =
     RETURN_IF_GET_NODE_VALID h lg networkId t (\<lambda>i. put_bytes (ho_env h 2) t (nr_cipherKey (ni_rest i)))"

definition DlGetDeviceCipherInfoIv :: getter where
  "DlGetDeviceCipherInfoIv h lg networkId t =
     RETURN_IF_GET_NODE_VALID h lg networkId t (\<lambda>i. put_bytes (ho_env h 2) t (nr_cipherIv (ni_rest i)))"

definition DlGetNodeP2pIp :: getter where
  "DlGetNodeP2pIp h lg networkId t =
     RETURN_IF_GET_NODE_VALID h lg networkId t (\<lambda>i. put_string t (nr_p2pIp (ni_rest i)))"

definition g_dlKeyTable :: "(info_key \<times> getter) list" where
  "g_dlKeyTable =
    [(STRING_KEY_HICE_VERSION, DlGetNodeSoftBusVersion),
     (STRING_KEY_DEV_UDID, DlGetDeviceUdid),
     (STRING_KEY_UUID, DlGetDeviceUuid),
     (STRING_KEY_DEV_TYPE, DlGetDeviceType),
     (STRING_KEY_DEV_NAME, DlGetDeviceName),
     (STRING_KEY_BT_MAC, DlGetBtMac),
     (STRING_KEY_WLAN_IP, DlGetWlanIp),
     (STRING_KEY_MASTER_NODE_UDID, DlGetMasterUdid),
     (STRING_KEY_P2P_MAC, DlGetP2pMac),
     (STRING_KEY_WIFI_CFG, DlGetWifiCfg),
     (STRING_KEY_CHAN_LIST_5G, DlGetChanList5g),
     (STRING_KEY_P2P_GO_MAC, DlGetP2pGoMac),
     (STRING_KEY_NODE_ADDR, DlGetNodeAddr),
     (STRING_KEY_OFFLINE_CODE, DlGetDeviceOfflineCode),
     (STRING_KEY_BLE_MAC, DlGetNodeBleMac),
     (STRING_KEY_WIFIDIRECT_ADDR, DlGetWifiDirectAddr),
     (STRING_KEY_P2P_IP, DlGetNodeP2pIp),
     (NUM_KEY_META_NODE, DlGetAuthType),
     (NUM_KEY_SESSION_PORT, DlGetSessionPort),
     (NUM_KEY_AUTH_PORT, DlGetAuthPort),
     (NUM_KEY_PROXY_PORT, DlGetProxyPort),
     (NUM_KEY_NET_CAP, DlGetNetCap),
     (NUM_KEY_FEATURE_CAPA, DlGetFeatureCap),
     (NUM_KEY_DISCOVERY_TYPE, DlGetNetType),
     (NUM_KEY_MASTER_NODE_WEIGHT, DlGetMasterWeight),
     (NUM_KEY_STA_FREQUENCY, DlGetStaFrequency),
     (NUM_KEY_P2P_ROLE, DlGetP2pRole),
     (NUM_KEY_STATE_VERSION, DlGetStateVersion),
     (NUM_KEY_DATA_CHANGE_FLAG, DlGetNodeDataChangeFlag),
     (NUM_KEY_DEV_TYPE_ID, DlGetDeviceTypeId),
     (NUM_KEY_STATIC_CAP_LEN, DlGetStaticCapLen),
     (BOOL_KEY_TLV_NEGOTIATION, DlGetNodeTlvNegoFlag),
     (BYTE_KEY_ACCOUNT_HASH, DlGetAccountHash),
     (BYTE_KEY_REMOTE_PTK, DlGetRemotePtk),
     (BYTE_KEY_STATIC_CAPABILITY, DlGetStaticCap),
     (BYTE_KEY_IRK, DlGetDeviceIrk),
     (BYTE_KEY_PUB_MAC, DlGetDevicePubMac),
     (BYTE_KEY_BROADCAST_CIPHER_KEY, DlGetDeviceCipherInfoKey),
     (BYTE_KEY_BROADCAST_CIPHER_IV, DlGetDeviceCipherInfoIv)]"

subsection \<open>Accessors\<close>

text \<open>The common body of the accessors, once the arguments are checked.\<close>

definition get_by_key :: "full_host \<Rightarrow> full_ledger \<Rightarrow> bytes option \<Rightarrow> info_key \<Rightarrow> target \<Rightarrow> got" where
  "get_by_key h lg networkId key t =
     (if \<not> lock_ok (ho_env h 0) 0 then Done (SOFTBUS_LOCK_ERR, None)
      else case map_of g_dlKeyTable key of
        None \<Rightarrow> Done (SOFTBUS_NOT_FIND, None)
      | Some get \<Rightarrow> get h lg networkId t)"

definition typed_get :: "(info_key \<Rightarrow> bool) \<Rightarrow> nat \<Rightarrow> u32 \<Rightarrow> full_host \<Rightarrow> full_ledger \<Rightarrow> bytes option \<Rightarrow> info_key \<Rightarrow> bool \<Rightarrow> got" where
  "typed_get in_range cap len h lg networkId key info_null =
     (if \<not> IsValidString networkId ID_MAX_LEN then Done (SOFTBUS_INVALID_PARAM, None)
      else if info_null then Done (SOFTBUS_INVALID_PARAM, None)
      else if \<not> in_range key then Done (SOFTBUS_INVALID_PARAM, None)
      else get_by_key h lg networkId key \<lparr>tg_null = False, tg_cap = cap, tg_len = len\<rparr>)"

text \<open>A caller of the accessors for strings and bytes has a buffer of \<open>cap\<close> bytes and says it has \<open>len\<close>.\<close>

definition LnnGetRemoteStrInfo :: "full_host \<Rightarrow> full_ledger \<Rightarrow> bytes option \<Rightarrow> info_key \<Rightarrow> bool \<Rightarrow> nat \<Rightarrow> u32 \<Rightarrow> got" where
  "LnnGetRemoteStrInfo h lg networkId key info_null cap len =
     typed_get (\<lambda>key. \<not> key \<ge> STRING_KEY_END) cap len h lg networkId key info_null"

definition LnnGetRemoteNumInfo :: "full_host \<Rightarrow> full_ledger \<Rightarrow> bytes option \<Rightarrow> info_key \<Rightarrow> bool \<Rightarrow> got" where
  "LnnGetRemoteNumInfo = typed_get (\<lambda>key. \<not> (key < NUM_KEY_BEGIN \<or> key \<ge> NUM_KEY_END)) 4 LNN_COMMON_LEN"

definition LnnGetRemoteNumU64Info :: "full_host \<Rightarrow> full_ledger \<Rightarrow> bytes option \<Rightarrow> info_key \<Rightarrow> bool \<Rightarrow> got" where
  "LnnGetRemoteNumU64Info = typed_get (\<lambda>key. \<not> (key < NUM_KEY_BEGIN \<or> key \<ge> NUM_KEY_END)) 8 LNN_COMMON_LEN_64"

definition LnnGetRemoteNum16Info :: "full_host \<Rightarrow> full_ledger \<Rightarrow> bytes option \<Rightarrow> info_key \<Rightarrow> bool \<Rightarrow> got" where
  "LnnGetRemoteNum16Info = typed_get (\<lambda>key. \<not> (key < NUM_KEY_BEGIN \<or> key \<ge> NUM_KEY_END)) 2 2"

definition LnnGetRemoteBoolInfo :: "full_host \<Rightarrow> full_ledger \<Rightarrow> bytes option \<Rightarrow> info_key \<Rightarrow> bool \<Rightarrow> got" where
  "LnnGetRemoteBoolInfo = typed_get (\<lambda>key. \<not> (key < BOOL_KEY_BEGIN \<or> key \<ge> BOOL_KEY_END)) 1 1"

definition LnnGetRemoteByteInfo :: "full_host \<Rightarrow> full_ledger \<Rightarrow> bytes option \<Rightarrow> info_key \<Rightarrow> bool \<Rightarrow> nat \<Rightarrow> u32 \<Rightarrow> got" where
  "LnnGetRemoteByteInfo h lg networkId key info_null cap len =
     typed_get (\<lambda>key. \<not> (key < BYTE_KEY_BEGIN \<or> key \<ge> BYTE_KEY_END)) cap len h lg networkId key info_null"

subsection \<open>Writing fields\<close>

text \<open>Where in the maps the pointer returned by a search leads; the setters write through it.\<close>

datatype place = InUdidMap bytes | InMacMap bytes | InIpMap bytes

definition place_in_maps :: "full_host \<Rightarrow> full_ledger \<Rightarrow> bytes \<Rightarrow> place option" where
  "place_in_maps h lg key =
     (if LnnMapGet (ho_signed_char h) (Some (lg_udidMap lg)) (Some key) \<noteq> None then Some (InUdidMap key)
      else if LnnMapGet (ho_signed_char h) (Some (lg_macMap lg)) (Some key) \<noteq> None then Some (InMacMap key)
      else if LnnMapGet (ho_signed_char h) (Some (lg_ipMap lg)) (Some key) \<noteq> None then Some (InIpMap key)
      else None)"

definition visited_nodes :: "'v lnn_map \<Rightarrow> 'v MapIterator \<Rightarrow> 'v MapNode list" where
  "visited_nodes m it = (case iterate (Suc (unat (mp_nodeSize m))) m it of None \<Rightarrow> [] | Some ns \<Rightarrow> ns)"

definition place_by_id :: "full_host \<Rightarrow> nat \<Rightarrow> full_ledger \<Rightarrow> bytes option \<Rightarrow> IdCategory \<Rightarrow> place option" where
  "place_by_id h k lg key type =
     (case key of
        None \<Rightarrow> None
      | Some x \<Rightarrow>
          if type = CATEGORY_UDID then place_in_maps h lg x
          else (case LnnMapInitIterator (ho_env h k) (Some (lg_udidMap lg)) of
              None \<Rightarrow> None
            | Some it \<Rightarrow>
                map_option (\<lambda>n. InUdidMap (mn_key n))
                  (find (\<lambda>n. type = CATEGORY_NETWORK_ID \<and> ni_networkId (mn_value n) = x \<or> type = CATEGORY_UUID \<and> ni_uuid (mn_value n) = x)
                    (visited_nodes (lg_udidMap lg) it))))"

definition write_place :: "full_host \<Rightarrow> place \<Rightarrow> full_node \<Rightarrow> full_ledger \<Rightarrow> full_ledger" where
  "write_place h p i lg =
     (case p of
        InUdidMap k \<Rightarrow> lg\<lparr>lg_udidMap := LnnMapGet_write (ho_signed_char h) k (\<lambda>_. i) (lg_udidMap lg)\<rparr>
      | InMacMap k \<Rightarrow> lg\<lparr>lg_macMap := LnnMapGet_write (ho_signed_char h) k (\<lambda>_. i) (lg_macMap lg)\<rparr>
      | InIpMap k \<Rightarrow> lg\<lparr>lg_ipMap := LnnMapGet_write (ho_signed_char h) k (\<lambda>_. i) (lg_ipMap lg)\<rparr>)"

text \<open>The frame of every setter: take the lock, search, return or change the node in place, release the lock.\<close>

definition edit_node ::
  "full_host \<Rightarrow> bytes option \<Rightarrow> IdCategory \<Rightarrow> 'a \<Rightarrow> 'a \<Rightarrow> (full_node \<Rightarrow> 'a \<times> full_node) \<Rightarrow> full_ledger \<Rightarrow> 'a \<times> full_ledger" where
  "edit_node h key type lock_fails not_found change lg =
     (if \<not> lock_ok (ho_env h 0) 0 then (lock_fails, lg)
      else case (LnnGetNodeInfoById h 1 lg key type, place_by_id h 1 lg key type) of
        (Some i, Some p) \<Rightarrow> (case change i of (r, i') \<Rightarrow> (r, write_place h p i' lg))
      | _ \<Rightarrow> (not_found, lg))"

definition LnnUpdateNodeBleMac :: "full_host \<Rightarrow> bytes option \<Rightarrow> bytes option \<Rightarrow> u32 \<Rightarrow> full_ledger \<Rightarrow> full_ledger" where
  "LnnUpdateNodeBleMac h networkId bleMac len lg =
     (if networkId = None \<or> bleMac = None \<or> unat len \<noteq> MAC_LEN then lg
      else snd (edit_node h networkId CATEGORY_NETWORK_ID () ()
        (\<lambda>i. ((), if \<not> memcpy_ok (ho_env h 2) MAC_LEN (unat len) then i
                  else on_rest (\<lambda>r. r\<lparr>nr_bleMacAddr := the bleMac, nr_latestTime := GetCurrentTime h\<rparr>) i)) lg))"

definition LnnSetDeviceName :: "bytes option \<Rightarrow> full_node \<Rightarrow> status \<times> full_node" where
  "LnnSetDeviceName name i =
     (case name of
        None \<Rightarrow> (SOFTBUS_INVALID_PARAM, i)
      | Some s \<Rightarrow>
          if length s > DEVICE_NAME_BUF_LEN - 1 then (SOFTBUS_INVALID_PARAM, i)
          else (case str_copy DEVICE_NAME_BUF_LEN s of (c, s) \<Rightarrow> (if c then SOFTBUS_OK else SOFTBUS_MEM_ERR, i\<lparr>ni_deviceName := s\<rparr>)))"

definition LnnSetDLDeviceInfoName :: "full_host \<Rightarrow> bytes option \<Rightarrow> bytes option \<Rightarrow> full_ledger \<Rightarrow> bool \<times> full_ledger" where
  "LnnSetDLDeviceInfoName h udid name lg =
     (if udid = None \<or> name = None then (False, lg)
      else edit_node h udid CATEGORY_UDID False False
        (\<lambda>i. if strcmp (ni_deviceName i) (the name) = 0 then (True, i)
             else (case LnnSetDeviceName name i of (st, i) \<Rightarrow> (st = SOFTBUS_OK, i))) lg)"

definition LnnSetDLDeviceNickName :: "full_host \<Rightarrow> bytes option \<Rightarrow> bytes option \<Rightarrow> full_ledger \<Rightarrow> bool \<times> full_ledger" where
  "LnnSetDLDeviceNickName h networkId name lg =
     (if networkId = None \<or> name = None then (False, lg)
      else edit_node h networkId CATEGORY_NETWORK_ID False False
        (\<lambda>i. case str_copy DEVICE_NAME_BUF_LEN (the name) of (c, s) \<Rightarrow> (c, on_rest (\<lambda>r. r\<lparr>nr_nickName := s\<rparr>) i)) lg)"

definition LnnSetP2pRole :: "int \<Rightarrow> full_node \<Rightarrow> status \<times> full_node" where
  "LnnSetP2pRole role i = (SOFTBUS_OK, on_rest (\<lambda>r. r\<lparr>nr_p2pRole := role\<rparr>) i)"

definition LnnSetP2pMac :: "bytes \<Rightarrow> full_node \<Rightarrow> status \<times> full_node" where
  "LnnSetP2pMac mac i =
     (case str_copy MAC_LEN mac of (c, s) \<Rightarrow> (if c then SOFTBUS_OK else SOFTBUS_MEM_ERR, on_rest (\<lambda>r. r\<lparr>nr_p2pMac := s\<rparr>) i))"

definition LnnSetP2pGoMac :: "bytes \<Rightarrow> full_node \<Rightarrow> status \<times> full_node" where
  "LnnSetP2pGoMac mac i =
     (case str_copy MAC_LEN mac of (c, s) \<Rightarrow> (if c then SOFTBUS_OK else SOFTBUS_MEM_ERR, on_rest (\<lambda>r. r\<lparr>nr_goMac := s\<rparr>) i))"

text \<open>Of the information on a peer-to-peer group only the role and the two addresses are taken; each is set when the one before was.\<close>

definition LnnSetDLP2pInfo :: "full_host \<Rightarrow> bytes option \<Rightarrow> (int \<times> bytes \<times> bytes) option \<Rightarrow> full_ledger \<Rightarrow> bool \<times> full_ledger" where
  "LnnSetDLP2pInfo h networkId info lg =
     (if networkId = None \<or> info = None then (False, lg)
      else edit_node h networkId CATEGORY_NETWORK_ID False False
        (\<lambda>i. case the info of (role, p2pMac, goMac) \<Rightarrow>
          (case LnnSetP2pRole role i of (st, i) \<Rightarrow> if st \<noteq> SOFTBUS_OK then (False, i)
           else case LnnSetP2pMac p2pMac i of (st, i) \<Rightarrow> if st \<noteq> SOFTBUS_OK then (False, i)
           else case LnnSetP2pGoMac goMac i of (st, i) \<Rightarrow> (st = SOFTBUS_OK, i))) lg)"

definition LnnSetPtk :: "env \<Rightarrow> bytes \<Rightarrow> full_node \<Rightarrow> status \<times> full_node" where
  "LnnSetPtk e ptk i =
     (if \<not> memcpy_ok e PTK_DEFAULT_LEN PTK_DEFAULT_LEN then (SOFTBUS_MEM_ERR, i)
      else (SOFTBUS_OK, on_rest (\<lambda>r. r\<lparr>nr_remotePtk := take PTK_DEFAULT_LEN ptk\<rparr>) i))"

definition LnnSetDlPtk :: "full_host \<Rightarrow> bytes option \<Rightarrow> bytes option \<Rightarrow> full_ledger \<Rightarrow> bool \<times> full_ledger" where
  "LnnSetDlPtk h networkId remotePtk lg =
     (if networkId = None \<or> remotePtk = None then (False, lg)
      else edit_node h networkId CATEGORY_NETWORK_ID False False
        (\<lambda>i. case LnnSetPtk (ho_env h 2) (the remotePtk) i of (st, i) \<Rightarrow> (st = SOFTBUS_OK, i)) lg)"

definition LnnSetWifiDirectAddr :: "bytes \<Rightarrow> full_node \<Rightarrow> status \<times> full_node" where
  "LnnSetWifiDirectAddr addr i =
     (case str_copy MAC_LEN addr of (c, s) \<Rightarrow> (if c then SOFTBUS_OK else SOFTBUS_MEM_ERR, on_rest (\<lambda>r. r\<lparr>nr_wifiDirectAddr := s\<rparr>) i))"

definition LnnSetDLWifiDirectAddr :: "full_host \<Rightarrow> bytes option \<Rightarrow> bytes option \<Rightarrow> full_ledger \<Rightarrow> bool \<times> full_ledger" where
  "LnnSetDLWifiDirectAddr h networkId addr lg =
     (if networkId = None \<or> addr = None then (False, lg)
      else edit_node h networkId CATEGORY_NETWORK_ID False False
        (\<lambda>i. case LnnSetWifiDirectAddr (the addr) i of (st, i) \<Rightarrow> (st = SOFTBUS_OK, i)) lg)"

definition LnnSetDLHeartbeatTimestamp :: "full_host \<Rightarrow> bytes option \<Rightarrow> u64 \<Rightarrow> full_ledger \<Rightarrow> status \<times> full_ledger" where
  "LnnSetDLHeartbeatTimestamp h networkId timestamp =
     edit_node h networkId CATEGORY_NETWORK_ID SOFTBUS_LOCK_ERR SOFTBUS_NOT_FIND (\<lambda>i. (SOFTBUS_OK, i\<lparr>ni_heartbeatTimestamp := timestamp\<rparr>))"

definition LnnSetDLBleDirectTimestamp :: "full_host \<Rightarrow> bytes option \<Rightarrow> u64 \<Rightarrow> full_ledger \<Rightarrow> status \<times> full_ledger" where
  "LnnSetDLBleDirectTimestamp h networkId timestamp =
     edit_node h networkId CATEGORY_NETWORK_ID SOFTBUS_LOCK_ERR SOFTBUS_NOT_FIND
       (\<lambda>i. (SOFTBUS_OK, on_rest (\<lambda>r. r\<lparr>nr_bleDirectTimestamp := timestamp\<rparr>) i))"

text \<open>What \<^verbatim>\<open>LnnSaveRemoteDeviceInfo\<close> returns for the changed node is an argument.\<close>

definition LnnSetDLConnCapability :: "(full_node \<Rightarrow> status) \<Rightarrow> full_host \<Rightarrow> bytes option \<Rightarrow> u32 \<Rightarrow> full_ledger \<Rightarrow> status \<times> full_ledger" where
  "LnnSetDLConnCapability LnnSaveRemoteDeviceInfo h networkId connCapability =
     edit_node h networkId CATEGORY_NETWORK_ID SOFTBUS_LOCK_ERR SOFTBUS_NOT_FIND
       (\<lambda>i. let i = on_rest (\<lambda>r. r\<lparr>nr_netCapacity := connCapability\<rparr>) i
            in (if LnnSaveRemoteDeviceInfo i \<noteq> SOFTBUS_OK then SOFTBUS_ERR else SOFTBUS_OK, i))"

definition LnnSetDLBatteryInfo :: "full_host \<Rightarrow> bytes option \<Rightarrow> (int \<times> bool) option \<Rightarrow> full_ledger \<Rightarrow> status \<times> full_ledger" where
  "LnnSetDLBatteryInfo h networkId info lg =
     (if networkId = None \<or> info = None then (SOFTBUS_INVALID_PARAM, lg)
      else edit_node h networkId CATEGORY_NETWORK_ID SOFTBUS_LOCK_ERR SOFTBUS_NOT_FIND
        (\<lambda>i. (SOFTBUS_OK, on_rest (\<lambda>r. r\<lparr>nr_batteryLevel := fst (the info), nr_isCharging := snd (the info)\<rparr>) i)) lg)"

definition LnnSetDLBssTransInfo :: "full_host \<Rightarrow> bytes option \<Rightarrow> bytes option \<Rightarrow> full_ledger \<Rightarrow> status \<times> full_ledger" where
  "LnnSetDLBssTransInfo h networkId info lg =
     (if networkId = None \<or> info = None then (SOFTBUS_INVALID_PARAM, lg)
      else edit_node h networkId CATEGORY_NETWORK_ID SOFTBUS_LOCK_ERR SOFTBUS_NOT_FIND
        (\<lambda>i. if \<not> memcpy_ok (ho_env h 2) (length (the info)) (length (the info)) then (SOFTBUS_MEM_ERR, i)
             else (SOFTBUS_OK, on_rest (\<lambda>r. r\<lparr>nr_bssTransInfo := the info\<rparr>) i)) lg)"

text \<open>\<^verbatim>\<open>strcpy_s\<close> of a null pointer fails and clears the destination.\<close>

definition LnnSetDLNodeAddr :: "full_host \<Rightarrow> bytes option \<Rightarrow> IdCategory \<Rightarrow> bytes option \<Rightarrow> full_ledger \<Rightarrow> status \<times> full_ledger" where
  "LnnSetDLNodeAddr h key type addr =
     edit_node h key type SOFTBUS_LOCK_ERR SOFTBUS_NOT_FIND
       (\<lambda>i. case (case addr of None \<Rightarrow> (False, []) | Some a \<Rightarrow> str_copy SHORT_ADDRESS_MAX_LEN a) of
          (c, s) \<Rightarrow> (if c then SOFTBUS_OK else SOFTBUS_ERR, on_rest (\<lambda>r. r\<lparr>nr_nodeAddress := s\<rparr>) i))"

definition LnnSetDLProxyPort :: "full_host \<Rightarrow> bytes option \<Rightarrow> IdCategory \<Rightarrow> int \<Rightarrow> full_ledger \<Rightarrow> status \<times> full_ledger" where
  "LnnSetDLProxyPort h key type proxyPort =
     edit_node h key type SOFTBUS_LOCK_ERR SOFTBUS_NOT_FIND (\<lambda>i. (SOFTBUS_OK, i\<lparr>ni_proxyPort := proxyPort\<rparr>))"

definition LnnSetDLSessionPort :: "full_host \<Rightarrow> bytes option \<Rightarrow> IdCategory \<Rightarrow> int \<Rightarrow> full_ledger \<Rightarrow> status \<times> full_ledger" where
  "LnnSetDLSessionPort h key type sessionPort =
     edit_node h key type SOFTBUS_LOCK_ERR SOFTBUS_NOT_FIND (\<lambda>i. (SOFTBUS_OK, i\<lparr>ni_sessionPort := sessionPort\<rparr>))"

definition LnnSetDLAuthPort :: "full_host \<Rightarrow> bytes option \<Rightarrow> IdCategory \<Rightarrow> int \<Rightarrow> full_ledger \<Rightarrow> status \<times> full_ledger" where
  "LnnSetDLAuthPort h key type authPort =
     edit_node h key type SOFTBUS_LOCK_ERR SOFTBUS_NOT_FIND (\<lambda>i. (SOFTBUS_OK, i\<lparr>ni_authPort := authPort\<rparr>))"

definition LnnSetDLP2pIp :: "full_host \<Rightarrow> bytes option \<Rightarrow> IdCategory \<Rightarrow> bytes option \<Rightarrow> full_ledger \<Rightarrow> status \<times> full_ledger" where
  "LnnSetDLP2pIp h key type p2pIp lg =
     (if key = None \<or> p2pIp = None then (SOFTBUS_INVALID_PARAM, lg)
      else edit_node h key type SOFTBUS_LOCK_ERR SOFTBUS_NOT_FIND
        (\<lambda>i. case str_copy IP_LEN (the p2pIp) of
           (c, s) \<Rightarrow> (if c then SOFTBUS_OK else SOFTBUS_MEM_ERR, on_rest (\<lambda>r. r\<lparr>nr_p2pIp := s\<rparr>) i)) lg)"

subsection \<open>Identifiers and times of a node\<close>

definition locked_get :: "full_host \<Rightarrow> full_ledger \<Rightarrow> bytes option \<Rightarrow> IdCategory \<Rightarrow> (full_node \<Rightarrow> got) \<Rightarrow> got" where
  "locked_get h lg key type f =
     (if \<not> lock_ok (ho_env h 0) 0 then Done (SOFTBUS_LOCK_ERR, None)
      else case LnnGetNodeInfoById h 1 lg key type of None \<Rightarrow> Done (SOFTBUS_NOT_FIND, None) | Some i \<Rightarrow> f i)"

definition LnnGetNetworkIdByUuid :: "full_host \<Rightarrow> full_ledger \<Rightarrow> bytes option \<Rightarrow> target \<Rightarrow> got" where
  "LnnGetNetworkIdByUuid h lg uuid t =
     (if \<not> IsValidString uuid ID_MAX_LEN then Done (SOFTBUS_INVALID_PARAM, None)
      else locked_get h lg uuid CATEGORY_UUID
        (\<lambda>i. if tg_null t then Done (SOFTBUS_MEM_ERR, None) else put_string t (ni_networkId i)))"

definition LnnGetNetworkIdByUdid :: "full_host \<Rightarrow> full_ledger \<Rightarrow> bytes option \<Rightarrow> target \<Rightarrow> got" where
  "LnnGetNetworkIdByUdid h lg udid t =
     (if \<not> IsValidString udid ID_MAX_LEN then Done (SOFTBUS_INVALID_PARAM, None)
      else locked_get h lg udid CATEGORY_UDID
        (\<lambda>i. if tg_null t then Done (SOFTBUS_MEM_ERR, None) else put_string t (ni_networkId i)))"

text \<open>The first two write through the pointer for the time without looking at it.\<close>

definition LnnGetDLOnlineTimestamp :: "full_host \<Rightarrow> full_ledger \<Rightarrow> bytes option \<Rightarrow> bool \<Rightarrow> got" where
  "LnnGetDLOnlineTimestamp h lg networkId timestamp_null =
     locked_get h lg networkId CATEGORY_NETWORK_ID
       (\<lambda>i. if timestamp_null then Undef else Done (SOFTBUS_OK, Some (OutInt 8 (uint (ni_onlinetTimestamp i)))))"

definition LnnGetDLHeartbeatTimestamp :: "full_host \<Rightarrow> full_ledger \<Rightarrow> bytes option \<Rightarrow> bool \<Rightarrow> got" where
  "LnnGetDLHeartbeatTimestamp h lg networkId timestamp_null =
     locked_get h lg networkId CATEGORY_NETWORK_ID
       (\<lambda>i. if timestamp_null then Undef else Done (SOFTBUS_OK, Some (OutInt 8 (uint (ni_heartbeatTimestamp i)))))"

definition LnnGetDLBleDirectTimestamp :: "full_host \<Rightarrow> full_ledger \<Rightarrow> bytes option \<Rightarrow> bool \<Rightarrow> got" where
  "LnnGetDLBleDirectTimestamp h lg networkId timestamp_null =
     (if networkId = None \<or> timestamp_null then Done (SOFTBUS_INVALID_PARAM, None)
      else locked_get h lg networkId CATEGORY_NETWORK_ID
        (\<lambda>i. Done (SOFTBUS_OK, Some (OutInt 8 (uint (nr_bleDirectTimestamp (ni_rest i)))))))"

subsection \<open>The node a search leads to\<close>

lemma find_mapped: "find P (map f xs) = map_option f (find (\<lambda>x. P (f x)) xs)"
  by (induction xs) auto

lemma visited_nodes_entries:
  "\<lbrakk>map_ok sc m; LnnMapInitIterator e (Some m) = Some it\<rbrakk> \<Longrightarrow> visited_nodes m it = entries m"
  using iterate_entries [of sc m "Suc (unat (mp_nodeSize m))" e it] by (simp add: visited_nodes_def map_ok_def)

lemma empty_map_get: "LnnMapGet sc (Some LnnMapInit) k = None"
  by (cases k) (simp_all add: LnnMapGet_def map_search_def LnnMapInit_def)

lemma lookup_place:
  assumes ok: "ledger_ok sc lg" "host_ok sc h" and get: "LnnGetNodeInfoById h k lg key type = Some i"
  shows "nodes lg (ni_deviceUdid i) = Some (SIZEOF_NODE_INFO, i)" "place_by_id h k lg key type = Some (InUdidMap (ni_deviceUdid i))"
proof -
  have m: "map_ok sc (lg_udidMap lg)" using ok(1) by (simp add: ledger_ok_def)
  obtain x where x: "key = Some x" using get by (cases key) (simp_all add: LnnGetNodeInfoById_def)
  have "nodes lg (ni_deviceUdid i) = Some (SIZEOF_NODE_INFO, i) \<and> place_by_id h k lg key type = Some (InUdidMap (ni_deviceUdid i))"
  proof (cases "type = CATEGORY_UDID")
    case True
    have e: "lg_macMap lg = LnnMapInit" "lg_ipMap lg = LnnMapInit" using ok(1) by (simp_all add: ledger_ok_def)
    have g: "LnnMapGet (ho_signed_char h) (Some (lg_udidMap lg)) (Some x) = Some i"
      using get True x by (simp add: LnnGetNodeInfoById_def GetNodeInfoFromMap_def e empty_map_get split: option.splits)
    then have "find_node h (Some x) lg = Some i" by (simp add: find_node_def)
    then obtain z where "nodes lg x = Some (z, i)" by (auto simp: find_nodes [OF ok])
    then have "x = ni_deviceUdid i" "nodes lg x = Some (SIZEOF_NODE_INFO, i)" using ok(1) by (auto simp: ledger_ok_def)
    then show ?thesis using g True x by (simp add: place_by_id_def place_in_maps_def)
  next
    case False
    then obtain it where it: "LnnMapInitIterator (ho_env h k) (Some (lg_udidMap lg)) = Some it"
      using get x by (auto simp: LnnGetNodeInfoById_def split: option.splits)
    let ?P = "\<lambda>i. type = CATEGORY_NETWORK_ID \<and> ni_networkId i = x \<or> type = CATEGORY_UUID \<and> ni_uuid i = x"
    have "find ?P (map mn_value (entries (lg_udidMap lg))) = Some i"
      using get x False it by (simp add: LnnGetNodeInfoById_def visited_entries [OF m it])
    then obtain n where n: "find (\<lambda>n. ?P (mn_value n)) (entries (lg_udidMap lg)) = Some n" "mn_value n = i"
      by (auto simp: find_mapped)
    then have "nodes lg (mn_key n) = Some (mn_valueSize n, i)"
      using m by (auto simp: nodes_def view_iff map_ok_def dest!: find_Some_iff [THEN iffD1])
    then have "mn_key n = ni_deviceUdid i" "nodes lg (mn_key n) = Some (SIZEOF_NODE_INFO, i)" using ok(1) by (auto simp: ledger_ok_def)
    then show ?thesis using n x False it by (simp add: place_by_id_def visited_nodes_entries [OF m it])
  qed
  then show "nodes lg (ni_deviceUdid i) = Some (SIZEOF_NODE_INFO, i)" "place_by_id h k lg key type = Some (InUdidMap (ni_deviceUdid i))" by blast+
qed

lemma edit_found:
  assumes "ledger_ok sc lg" "host_ok sc h" "lock_ok (ho_env h 0) 0" "LnnGetNodeInfoById h 1 lg key type = Some i"
  shows "edit_node h key type a b change lg = (fst (change i), write_node_at h (Some (ni_deviceUdid i)) (snd (change i)) lg)"
  using assms(3,4) lookup_place(2) [OF assms(1,2,4)] by (simp add: edit_node_def write_place_def write_node_at_def split: prod.splits)

lemma edit_cases:
  assumes "ledger_ok sc lg" "host_ok sc h"
  obtains "snd (edit_node h key type a b change lg) = lg"
  | i where "nodes lg (ni_deviceUdid i) = Some (SIZEOF_NODE_INFO, i)"
      "snd (edit_node h key type a b change lg) = write_node_at h (Some (ni_deviceUdid i)) (snd (change i)) lg"
proof (cases "lock_ok (ho_env h 0) 0 \<and> LnnGetNodeInfoById h 1 lg key type \<noteq> None")
  case True
  then obtain i where i: "LnnGetNodeInfoById h 1 lg key type = Some i" by auto
  show ?thesis
    using that(2) [OF lookup_place(1) [OF assms i]] edit_found [OF assms _ i, of a b change] True by simp
next
  case False
  then show ?thesis using that(1) by (auto simp: edit_node_def split: option.splits)
qed

text \<open>A search by network identifier after a change in place finds the changed node again.\<close>

lemma find_updated:
  "\<lbrakk>find P xs = Some n; P (f n); \<And>x. x \<in> set xs \<Longrightarrow> g x = g n \<longleftrightarrow> x = n\<rbrakk> \<Longrightarrow> find P (map (\<lambda>x. if g x = g n then f x else x) xs) = Some (f n)"
  by (induction xs) (auto split: if_splits)

lemma lookup_after_write:
  assumes ok: "ledger_ok sc lg" "host_ok sc h" and get: "LnnGetNodeInfoById h k lg (Some x) CATEGORY_NETWORK_ID = Some i"
    and keep: "ni_networkId i' = ni_networkId i"
  shows "LnnGetNodeInfoById h k (write_node_at h (Some (ni_deviceUdid i)) i' lg) (Some x) CATEGORY_NETWORK_ID = Some i'"
proof -
  let ?m = "lg_udidMap lg"
  let ?m' = "LnnMapGet_write (ho_signed_char h) (ni_deviceUdid i) (\<lambda>_. i') ?m"
  have sc: "ho_signed_char h = sc" using ok(2) by (simp add: host_ok_def)
  have m: "map_ok sc ?m" using ok(1) by (simp add: ledger_ok_def)
  then have m': "map_ok sc ?m'" by (simp add: sc write_view)
  obtain it where it: "LnnMapInitIterator (ho_env h k) (Some ?m) = Some it"
    using get by (auto simp: LnnGetNodeInfoById_def split: option.splits)
  then obtain it' where it': "LnnMapInitIterator (ho_env h k) (Some ?m') = Some it'"
    by (auto simp: LnnMapInitIterator_def split: if_splits)
  have "find (\<lambda>i. ni_networkId i = x) (map mn_value (entries ?m)) = Some i"
    using get it by (simp add: LnnGetNodeInfoById_def visited_entries [OF m it])
  then obtain n where n: "find (\<lambda>n. ni_networkId (mn_value n) = x) (entries ?m) = Some n" "mn_value n = i"
    by (auto simp: find_mapped)
  then have e: "n \<in> set (entries ?m)" "ni_networkId i = x" by (auto dest!: find_Some_iff [THEN iffD1])
  then have "nodes lg (mn_key n) = Some (mn_valueSize n, i)" using m n(2) by (auto simp: nodes_def view_iff map_ok_def)
  then have k: "mn_key n = ni_deviceUdid i" using ok(1) by (auto simp: ledger_ok_def)
  have "mn_key y = mn_key n \<longleftrightarrow> y = n" if "y \<in> set (entries ?m)" for y
    using m e(1) that by (auto simp: map_ok_def distinct_map inj_on_def)
  from find_updated [OF n(1), of "\<lambda>n. n\<lparr>mn_value := i'\<rparr>" mn_key, OF _ this]
  have "find (\<lambda>n. ni_networkId (mn_value n) = x) (entries ?m') = Some (n\<lparr>mn_value := i'\<rparr>)"
    using keep e(2) k m by (simp add: sc write_entries)
  then show ?thesis
    using it' by (simp add: LnnGetNodeInfoById_def write_node_at_def visited_entries [OF m' it'] find_mapped)
qed


subsection \<open>What the setters change\<close>

datatype field_op =
    UpdateBleMac "bytes option" "bytes option" u32
  | SetName "bytes option" "bytes option"
  | SetNickName "bytes option" "bytes option"
  | SetP2pInfo "bytes option" "(int \<times> bytes \<times> bytes) option"
  | SetPtk "bytes option" "bytes option"
  | SetWifiDirectAddr "bytes option" "bytes option"
  | SetHeartbeat "bytes option" u64
  | SetBleDirect "bytes option" u64
  | SetConnCapability "full_node \<Rightarrow> status" "bytes option" u32
  | SetBattery "bytes option" "(int \<times> bool) option"
  | SetBssTrans "bytes option" "bytes option"
  | SetNodeAddr "bytes option" IdCategory "bytes option"
  | SetProxyPort "bytes option" IdCategory int
  | SetSessionPort "bytes option" IdCategory int
  | SetAuthPort "bytes option" IdCategory int
  | SetP2pIp "bytes option" IdCategory "bytes option"

fun field_step :: "full_host \<Rightarrow> field_op \<Rightarrow> full_ledger \<Rightarrow> full_ledger" where
  "field_step h (UpdateBleMac n m l) lg = LnnUpdateNodeBleMac h n m l lg"
| "field_step h (SetName u s) lg = snd (LnnSetDLDeviceInfoName h u s lg)"
| "field_step h (SetNickName n s) lg = snd (LnnSetDLDeviceNickName h n s lg)"
| "field_step h (SetP2pInfo n p) lg = snd (LnnSetDLP2pInfo h n p lg)"
| "field_step h (SetPtk n k) lg = snd (LnnSetDlPtk h n k lg)"
| "field_step h (SetWifiDirectAddr n a) lg = snd (LnnSetDLWifiDirectAddr h n a lg)"
| "field_step h (SetHeartbeat n t) lg = snd (LnnSetDLHeartbeatTimestamp h n t lg)"
| "field_step h (SetBleDirect n t) lg = snd (LnnSetDLBleDirectTimestamp h n t lg)"
| "field_step h (SetConnCapability save n c) lg = snd (LnnSetDLConnCapability save h n c lg)"
| "field_step h (SetBattery n b) lg = snd (LnnSetDLBatteryInfo h n b lg)"
| "field_step h (SetBssTrans n b) lg = snd (LnnSetDLBssTransInfo h n b lg)"
| "field_step h (SetNodeAddr x c a) lg = snd (LnnSetDLNodeAddr h x c a lg)"
| "field_step h (SetProxyPort x c p) lg = snd (LnnSetDLProxyPort h x c p lg)"
| "field_step h (SetSessionPort x c p) lg = snd (LnnSetDLSessionPort h x c p lg)"
| "field_step h (SetAuthPort x c p) lg = snd (LnnSetDLAuthPort h x c p lg)"
| "field_step h (SetP2pIp x c a) lg = snd (LnnSetDLP2pIp h x c a lg)"

definition kept :: "full_node \<Rightarrow> full_node \<Rightarrow> bool" where
  "kept i i' \<longleftrightarrow> i'\<lparr>ni_deviceName := ni_deviceName i, ni_authPort := ni_authPort i, ni_proxyPort := ni_proxyPort i, ni_sessionPort := ni_sessionPort i,
     ni_heartbeatTimestamp := ni_heartbeatTimestamp i, ni_rest := ni_rest i\<rparr> = i"

definition one_node_changed :: "bool \<Rightarrow> full_ledger \<Rightarrow> full_ledger \<Rightarrow> bool" where
  "one_node_changed sc lg lg' \<longleftrightarrow> ledger_ok sc lg' \<and> lg'\<lparr>lg_udidMap := lg_udidMap lg\<rparr> = lg \<and>
     (nodes lg' = nodes lg \<or> (\<exists>i i'. nodes lg (ni_deviceUdid i) = Some (SIZEOF_NODE_INFO, i) \<and> kept i i' \<and>
        nodes lg' = (nodes lg)(ni_deviceUdid i \<mapsto> (SIZEOF_NODE_INFO, i'))))"

lemma unchanged: "ledger_ok sc lg \<Longrightarrow> one_node_changed sc lg lg"
  by (simp add: one_node_changed_def)

lemma kept_fields: "kept i i' \<Longrightarrow> ni_deviceUdid i' = ni_deviceUdid i \<and> ni_networkId i' = ni_networkId i"
  by (cases i; cases i') (simp add: kept_def)

lemma edit_changes:
  assumes ok: "ledger_ok sc lg" "host_ok sc h"
    and change: "\<And>i. node_wf i \<Longrightarrow> node_wf (snd (change i)) \<and> kept i (snd (change i))"
  shows "one_node_changed sc lg (snd (edit_node h key type a b change lg))"
proof (rule edit_cases [OF ok, of key type a b change])
  assume "snd (edit_node h key type a b change lg) = lg"
  then show ?thesis using ok(1) by (simp add: unchanged)
next
  fix i assume i: "nodes lg (ni_deviceUdid i) = Some (SIZEOF_NODE_INFO, i)"
    and e: "snd (edit_node h key type a b change lg) = write_node_at h (Some (ni_deviceUdid i)) (snd (change i)) lg"
  have "node_wf i" using i ok(1) by (auto simp: ledger_ok_def)
  note c = change [OF this]
  let ?lg = "write_node_at h (Some (ni_deviceUdid i)) (snd (change i)) lg"
  have sc: "ho_signed_char h = sc" using ok(2) by (simp add: host_ok_def)
  have m: "map_ok sc (lg_udidMap lg)" using ok(1) by (simp add: ledger_ok_def)
  have "nodes ?lg = (nodes lg)(ni_deviceUdid i \<mapsto> (SIZEOF_NODE_INFO, snd (change i)))"
    using i m by (simp add: nodes_def write_node_at_def sc write_view)
  moreover have "ledger_ok sc ?lg"
    using write_node_ok [OF ok i, of "snd (change i)"] kept_fields [of i] c by simp
  moreover have "?lg\<lparr>lg_udidMap := lg_udidMap lg\<rparr> = lg" by (simp add: write_node_at_def)
  ultimately show ?thesis unfolding e one_node_changed_def using i c by blast
qed

lemmas setters = LnnUpdateNodeBleMac_def LnnSetDLDeviceInfoName_def LnnSetDLDeviceNickName_def LnnSetDLP2pInfo_def LnnSetDlPtk_def
  LnnSetDLWifiDirectAddr_def LnnSetDLHeartbeatTimestamp_def LnnSetDLBleDirectTimestamp_def LnnSetDLConnCapability_def LnnSetDLBatteryInfo_def
  LnnSetDLBssTransInfo_def LnnSetDLNodeAddr_def LnnSetDLProxyPort_def LnnSetDLSessionPort_def LnnSetDLAuthPort_def LnnSetDLP2pIp_def

lemmas field_setters = LnnSetDeviceName_def LnnSetP2pRole_def LnnSetP2pMac_def LnnSetP2pGoMac_def LnnSetPtk_def LnnSetWifiDirectAddr_def on_rest_def
  str_copy_def

text \<open>
  C32. Setting a field changes one node. Whatever the arguments and whatever fails, each of the
  setters leaves the ledger well formed and changes at most one node of it, of which the identity, the
  state, the connections and the relations stay as they were.
\<close>

theorem field_writes_one_node:
  assumes "ledger_ok sc lg" "host_ok sc h"
  shows "one_node_changed sc lg (field_step h op lg)"
  by (cases op) (auto simp: setters unchanged [OF assms(1)] field_setters kept_def node_wf_def node_sizes_def Let_def
      intro!: edit_changes [OF assms] split: option.splits)


subsection \<open>Writes within bounds\<close>

lemma string_fits: "tg_cap t = unat (tg_len t) \<Longrightarrow> put_string t s \<noteq> Undef"
  by (auto simp: put_string_def strcpy_s_def str_copy_def unat_eq_0 split: if_splits)

lemma bytes_fit: "\<lbrakk>tg_cap t = unat (tg_len t); securec e\<rbrakk> \<Longrightarrow> put_bytes e t bs \<noteq> Undef"
  by (auto simp: put_bytes_def dest: securec_memcpy_le)

lemma int_fits: "w \<le> tg_cap t \<Longrightarrow> put_int t w v \<noteq> Undef"
  by (simp add: put_int_def)

lemma node_getter_fits:
  "(\<And>i. LnnGetNodeInfoById h 1 lg n CATEGORY_NETWORK_ID = Some i \<Longrightarrow> f i \<noteq> Undef) \<Longrightarrow> RETURN_IF_GET_NODE_VALID h lg n t f \<noteq> Undef"
  by (simp add: RETURN_IF_GET_NODE_VALID_def split: option.splits)

lemmas fits_intros = node_getter_fits string_fits bytes_fit int_fits

lemmas string_getters = DlGetNodeSoftBusVersion_def DlGetDeviceUdid_def DlGetDeviceUuid_def DlGetDeviceType_def DlGetDeviceName_def
  DlGetBtMac_def DlGetWlanIp_def DlGetMasterUdid_def DlGetP2pMac_def DlGetWifiCfg_def DlGetChanList5g_def DlGetP2pGoMac_def DlGetNodeAddr_def
  DlGetDeviceOfflineCode_def DlGetWifiDirectAddr_def DlGetNodeP2pIp_def

lemmas number_getters = DlGetAuthType_def DlGetSessionPort_def DlGetAuthPort_def DlGetProxyPort_def DlGetNetCap_def DlGetFeatureCap_def DlGetNetType_def
  DlGetMasterWeight_def DlGetStaFrequency_def DlGetP2pRole_def DlGetStateVersion_def DlGetNodeDataChangeFlag_def DlGetDeviceTypeId_def DlGetStaticCapLen_def

lemmas byte_getters = DlGetAccountHash_def DlGetRemotePtk_def DlGetStaticCap_def DlGetDeviceIrk_def DlGetDevicePubMac_def DlGetDeviceCipherInfoKey_def
  DlGetDeviceCipherInfoIv_def

lemma string_keys:
  assumes "map_of g_dlKeyTable key = Some get" "key < STRING_KEY_END"
  shows "get \<in> {DlGetNodeSoftBusVersion, DlGetDeviceUdid, DlGetDeviceUuid, DlGetDeviceType, DlGetDeviceName, DlGetBtMac, DlGetWlanIp,
    DlGetMasterUdid, DlGetP2pMac, DlGetWifiCfg, DlGetChanList5g, DlGetP2pGoMac, DlGetNodeAddr, DlGetDeviceOfflineCode, DlGetNodeBleMac,
    DlGetWifiDirectAddr, DlGetNodeP2pIp}"
  using assms by (auto simp: g_dlKeyTable_def split: if_splits)

lemma byte_keys:
  assumes "map_of g_dlKeyTable key = Some get" "\<not> key < BYTE_KEY_BEGIN"
  shows "get \<in> {DlGetAccountHash, DlGetRemotePtk, DlGetStaticCap, DlGetDeviceIrk, DlGetDevicePubMac, DlGetDeviceCipherInfoKey, DlGetDeviceCipherInfoIv}"
  using assms by (auto simp: g_dlKeyTable_def split: if_splits)

lemma number_keys:
  assumes "map_of g_dlKeyTable key = Some get" "\<not> key < NUM_KEY_BEGIN" "key < NUM_KEY_END"
  shows "(key, get) \<in> {(NUM_KEY_META_NODE, DlGetAuthType), (NUM_KEY_DEV_TYPE_ID, DlGetDeviceTypeId)} \<or>
    get \<in> {DlGetSessionPort, DlGetAuthPort, DlGetProxyPort, DlGetNetCap, DlGetFeatureCap, DlGetNetType, DlGetMasterWeight, DlGetStaFrequency,
      DlGetP2pRole, DlGetStateVersion, DlGetNodeDataChangeFlag, DlGetStaticCapLen} \<and> key \<notin> {NUM_KEY_META_NODE, NUM_KEY_DEV_TYPE_ID}"
  using assms by (auto simp: g_dlKeyTable_def split: if_splits)

lemma ble_mac_fits:
  assumes "tg_cap t = unat (tg_len t)"
    "\<And>i. LnnGetNodeInfoById h 1 lg n CATEGORY_NETWORK_ID = Some i \<Longrightarrow> 0 \<in> set (nr_bleMacAddr (ni_rest i))"
  shows "DlGetNodeBleMac h lg n t \<noteq> Undef"
  unfolding DlGetNodeBleMac_def by (rule node_getter_fits) (use string_fits [OF assms(1)] assms(2) in \<open>simp add: c_string_def\<close>)

lemma string_getter_fits:
  assumes "get \<in> {DlGetNodeSoftBusVersion, DlGetDeviceUdid, DlGetDeviceUuid, DlGetDeviceType, DlGetDeviceName, DlGetBtMac, DlGetWlanIp,
    DlGetMasterUdid, DlGetP2pMac, DlGetWifiCfg, DlGetChanList5g, DlGetP2pGoMac, DlGetNodeAddr, DlGetDeviceOfflineCode, DlGetNodeBleMac,
    DlGetWifiDirectAddr, DlGetNodeP2pIp}" "tg_cap t = unat (tg_len t)" "securec (ho_env h 2)"
    "\<And>i. LnnGetNodeInfoById h 1 lg n CATEGORY_NETWORK_ID = Some i \<Longrightarrow> 0 \<in> set (nr_bleMacAddr (ni_rest i))"
  shows "get h lg n t \<noteq> Undef"
  using assms(1) string_fits [OF assms(2)] bytes_fit [OF assms(2,3)] ble_mac_fits [OF assms(2,4)]
  by (elim insertE emptyE) (simp_all add: string_getters node_getter_fits split: option.splits prod.splits)

lemma byte_getter_fits:
  assumes "get \<in> {DlGetAccountHash, DlGetRemotePtk, DlGetStaticCap, DlGetDeviceIrk, DlGetDevicePubMac, DlGetDeviceCipherInfoKey, DlGetDeviceCipherInfoIv}"
    "tg_cap t = unat (tg_len t)" "securec (ho_env h 2)"
  shows "get h lg n t \<noteq> Undef"
  using assms(1) bytes_fit [OF assms(2,3)] by (elim insertE emptyE) (simp_all add: byte_getters node_getter_fits)

lemma checked_number_fits:
  assumes "get \<in> {DlGetSessionPort, DlGetAuthPort, DlGetProxyPort, DlGetNetCap, DlGetFeatureCap, DlGetNetType, DlGetMasterWeight, DlGetStaFrequency,
      DlGetP2pRole, DlGetStateVersion, DlGetNodeDataChangeFlag, DlGetStaticCapLen}" "tg_cap t = unat (tg_len t)"
  shows "get h lg n t \<noteq> Undef"
  using assms by (elim insertE emptyE) (simp_all add: number_getters node_getter_fits int_fits)

lemma unchecked_number_fits:
  assumes "get \<in> {DlGetAuthType, DlGetDeviceTypeId}" "tg_null t = False" "n \<noteq> None"
  shows "get h lg n t = Undef \<longleftrightarrow> tg_cap t < 4 \<and> LnnGetNodeInfoById h 1 lg n CATEGORY_NETWORK_ID \<noteq> None"
  using assms by (elim insertE emptyE) (auto simp: number_getters RETURN_IF_GET_NODE_VALID_def put_int_def split: option.splits)

lemma typed_get_fits:
  assumes "\<And>get. \<lbrakk>map_of g_dlKeyTable key = Some get; in_range key\<rbrakk> \<Longrightarrow> get h lg n \<lparr>tg_null = False, tg_cap = cap, tg_len = len\<rparr> \<noteq> Undef"
  shows "typed_get in_range cap len h lg n key info_null \<noteq> Undef"
  using assms by (simp add: typed_get_def get_by_key_def split: option.splits)

lemma bool_keys:
  assumes "map_of g_dlKeyTable key = Some get" "\<not> key < BOOL_KEY_BEGIN" "key < BOOL_KEY_END"
  shows "get = DlGetNodeTlvNegoFlag"
  using assms by (auto simp: g_dlKeyTable_def split: if_splits)

lemma number_getter_fits:
  assumes "map_of g_dlKeyTable key = Some get" "\<not> (key < NUM_KEY_BEGIN \<or> key \<ge> NUM_KEY_END)" "tg_cap t = unat (tg_len t)" "4 \<le> tg_cap t"
  shows "get h lg n t \<noteq> Undef"
  using number_keys [OF assms(1)] assms(2-) checked_number_fits [OF _ assms(3)]
  by (auto simp: node_getter_fits int_fits DlGetAuthType_def DlGetDeviceTypeId_def)

lemma typed_get_16:
  "typed_get (\<lambda>key. \<not> (key < NUM_KEY_BEGIN \<or> key \<ge> NUM_KEY_END)) 2 2 h lg n key info_null = Undef \<longleftrightarrow>
    key \<in> {NUM_KEY_META_NODE, NUM_KEY_DEV_TYPE_ID} \<and> IsValidString n ID_MAX_LEN \<and> \<not> info_null \<and> lock_ok (ho_env h 0) 0 \<and>
    LnnGetNodeInfoById h 1 lg n CATEGORY_NETWORK_ID \<noteq> None" (is "?l = Undef \<longleftrightarrow> ?r")
proof (cases "key \<in> {NUM_KEY_META_NODE, NUM_KEY_DEV_TYPE_ID}")
  case True
  then obtain get where g: "map_of g_dlKeyTable key = Some get" "get \<in> {DlGetAuthType, DlGetDeviceTypeId}"
    by (auto simp: g_dlKeyTable_def)
  show ?thesis
    using True g(1) unchecked_number_fits [OF g(2), of "\<lparr>tg_null = False, tg_cap = 2, tg_len = 2\<rparr>" n h lg]
    by (cases n) (auto simp: typed_get_def get_by_key_def IsValidString_def)
next
  case False
  have "?l \<noteq> Undef"
  proof (rule typed_get_fits)
    fix get assume "map_of g_dlKeyTable key = Some get" "\<not> (key < NUM_KEY_BEGIN \<or> key \<ge> NUM_KEY_END)"
    then show "get h lg n \<lparr>tg_null = False, tg_cap = 2, tg_len = 2\<rparr> \<noteq> Undef"
      using number_keys [of key get] False by (intro checked_number_fits) auto
  qed
  then show ?thesis using False by simp
qed

text \<open>
  C17. Fields are read within bounds. Whatever the key, the accessors for strings and bytes never write
  past the length they are given, as long as the node's Bluetooth Low Energy address is a string, and the accessors for 32 bit numbers, 64 bit numbers and truth
  values never write past their number. The accessor for 16 bit numbers writes past its number for
  exactly two keys, whose getters do not look at the length, whenever the node is known.
\<close>

theorem remote_info_in_bounds:
  assumes "securec (ho_env h 2)" "\<And>i. LnnGetNodeInfoById h 1 lg n CATEGORY_NETWORK_ID = Some i \<Longrightarrow> 0 \<in> set (nr_bleMacAddr (ni_rest i))"
  shows "LnnGetRemoteStrInfo h lg n key info_null (unat len) len \<noteq> Undef \<and> LnnGetRemoteByteInfo h lg n key info_null (unat len) len \<noteq> Undef \<and>
    LnnGetRemoteNumInfo h lg n key info_null \<noteq> Undef \<and> LnnGetRemoteNumU64Info h lg n key info_null \<noteq> Undef \<and>
    LnnGetRemoteBoolInfo h lg n key info_null \<noteq> Undef \<and>
    (LnnGetRemoteNum16Info h lg n key info_null = Undef \<longleftrightarrow>
      key \<in> {NUM_KEY_META_NODE, NUM_KEY_DEV_TYPE_ID} \<and> IsValidString n ID_MAX_LEN \<and> \<not> info_null \<and> lock_ok (ho_env h 0) 0 \<and>
      LnnGetNodeInfoById h 1 lg n CATEGORY_NETWORK_ID \<noteq> None)"
proof (intro conjI)
  show "LnnGetRemoteStrInfo h lg n key info_null (unat len) len \<noteq> Undef"
    unfolding LnnGetRemoteStrInfo_def by (intro typed_get_fits string_getter_fits) (use assms string_keys in simp_all)
  show "LnnGetRemoteByteInfo h lg n key info_null (unat len) len \<noteq> Undef"
    unfolding LnnGetRemoteByteInfo_def by (intro typed_get_fits byte_getter_fits) (use assms byte_keys in simp_all)
  show "LnnGetRemoteNumInfo h lg n key info_null \<noteq> Undef"
    unfolding LnnGetRemoteNumInfo_def by (intro typed_get_fits number_getter_fits) simp_all
  show "LnnGetRemoteNumU64Info h lg n key info_null \<noteq> Undef"
    unfolding LnnGetRemoteNumU64Info_def by (intro typed_get_fits number_getter_fits) simp_all
  show "LnnGetRemoteBoolInfo h lg n key info_null \<noteq> Undef"
    unfolding LnnGetRemoteBoolInfo_def by (intro typed_get_fits) (auto simp: DlGetNodeTlvNegoFlag_def IsFeatureSupport_bit node_getter_fits int_fits dest!: bool_keys)
  show "LnnGetRemoteNum16Info h lg n key info_null = Undef \<longleftrightarrow>
      key \<in> {NUM_KEY_META_NODE, NUM_KEY_DEV_TYPE_ID} \<and> IsValidString n ID_MAX_LEN \<and> \<not> info_null \<and> lock_ok (ho_env h 0) 0 \<and>
      LnnGetNodeInfoById h 1 lg n CATEGORY_NETWORK_ID \<noteq> None"
    unfolding LnnGetRemoteNum16Info_def by (rule typed_get_16)
qed


subsection \<open>Reading back\<close>

lemma typed_get_found:
  assumes "length n \<noteq> 0" "length n \<le> unat ID_MAX_LEN" "lock_ok (ho_env h 0) 0" "in_range key" "map_of g_dlKeyTable key = Some get"
  shows "typed_get in_range cap len h lg (Some n) key False = get h lg (Some n) \<lparr>tg_null = False, tg_cap = cap, tg_len = len\<rparr>"
  using assms by (simp add: typed_get_def get_by_key_def IsValidString_def)

lemma put_string_fits:
  assumes "length s < cap" "unat len = cap" "cap \<le> 0x7fffffff"
  shows "put_string \<lparr>tg_null = False, tg_cap = cap, tg_len = len\<rparr> s = Done (SOFTBUS_OK, Some (OutString s))"
  using assms by (auto simp: put_string_def strcpy_s_def str_copy_def word_less_nat_alt)

lemma online_rest: "LnnIsNodeOnline (Some (i\<lparr>ni_rest := r\<rparr>)) = LnnIsNodeOnline (Some i)"
  by (simp add: LnnIsNodeOnline_def)

text \<open>
  C16. What is set is read back. On a node that is online, found by its network identifier, each of
  the setters for a field that has a key reports success, and the accessor for that key then returns
  the value that was set: ports, capabilities, the role and the addresses in a peer-to-peer group, the
  short address, the key of the link and the two times.
\<close>

theorem field_round_trip:
  assumes "ledger_ok sc lg" "host_ok sc h" "healthy_host h" "LnnGetNodeInfoById h 1 lg (Some n) CATEGORY_NETWORK_ID = Some i"
    "LnnIsNodeOnline (Some i)" "length n \<noteq> 0" "length n \<le> unat ID_MAX_LEN" "save (on_rest (\<lambda>r. r\<lparr>nr_netCapacity := c\<rparr>) i) = SOFTBUS_OK"
    "length addr < SHORT_ADDRESS_MAX_LEN" "length mac < MAC_LEN" "length go < MAC_LEN" "length ip < IP_LEN" "length ptk = PTK_DEFAULT_LEN"
  shows "(\<exists>lg'. LnnSetDLProxyPort h (Some n) CATEGORY_NETWORK_ID p lg = (SOFTBUS_OK, lg') \<and>
      LnnGetRemoteNumInfo h lg' (Some n) NUM_KEY_PROXY_PORT False = Done (SOFTBUS_OK, Some (OutInt 4 p))) \<and>
    (\<exists>lg'. LnnSetDLSessionPort h (Some n) CATEGORY_NETWORK_ID p lg = (SOFTBUS_OK, lg') \<and>
      LnnGetRemoteNumInfo h lg' (Some n) NUM_KEY_SESSION_PORT False = Done (SOFTBUS_OK, Some (OutInt 4 p))) \<and>
    (\<exists>lg'. LnnSetDLAuthPort h (Some n) CATEGORY_NETWORK_ID p lg = (SOFTBUS_OK, lg') \<and>
      LnnGetRemoteNumInfo h lg' (Some n) NUM_KEY_AUTH_PORT False = Done (SOFTBUS_OK, Some (OutInt 4 p))) \<and>
    (\<exists>lg'. LnnSetDLConnCapability save h (Some n) c lg = (SOFTBUS_OK, lg') \<and>
      LnnGetRemoteNumInfo h lg' (Some n) NUM_KEY_NET_CAP False = Done (SOFTBUS_OK, Some (OutInt 4 (sint c)))) \<and>
    (\<exists>lg'. LnnSetDLNodeAddr h (Some n) CATEGORY_NETWORK_ID (Some addr) lg = (SOFTBUS_OK, lg') \<and>
      LnnGetRemoteStrInfo h lg' (Some n) STRING_KEY_NODE_ADDR False 20 20 = Done (SOFTBUS_OK, Some (OutString addr))) \<and>
    (\<exists>lg'. LnnSetDLP2pInfo h (Some n) (Some (role, mac, go)) lg = (True, lg') \<and>
      LnnGetRemoteNumInfo h lg' (Some n) NUM_KEY_P2P_ROLE False = Done (SOFTBUS_OK, Some (OutInt 4 role)) \<and>
      LnnGetRemoteStrInfo h lg' (Some n) STRING_KEY_P2P_MAC False 18 18 = Done (SOFTBUS_OK, Some (OutString mac)) \<and>
      LnnGetRemoteStrInfo h lg' (Some n) STRING_KEY_P2P_GO_MAC False 18 18 = Done (SOFTBUS_OK, Some (OutString go))) \<and>
    (\<exists>lg'. LnnSetDLWifiDirectAddr h (Some n) (Some mac) lg = (True, lg') \<and>
      LnnGetRemoteStrInfo h lg' (Some n) STRING_KEY_WIFIDIRECT_ADDR False 18 18 = Done (SOFTBUS_OK, Some (OutString mac))) \<and>
    (\<exists>lg'. LnnSetDLP2pIp h (Some n) CATEGORY_NETWORK_ID (Some ip) lg = (SOFTBUS_OK, lg') \<and>
      LnnGetRemoteStrInfo h lg' (Some n) STRING_KEY_P2P_IP False 46 46 = Done (SOFTBUS_OK, Some (OutString ip))) \<and>
    (\<exists>lg'. LnnSetDlPtk h (Some n) (Some ptk) lg = (True, lg') \<and>
      LnnGetRemoteByteInfo h lg' (Some n) BYTE_KEY_REMOTE_PTK False 32 32 = Done (SOFTBUS_OK, Some (OutBytes ptk))) \<and>
    (\<exists>lg'. LnnSetDLHeartbeatTimestamp h (Some n) t lg = (SOFTBUS_OK, lg') \<and>
      LnnGetDLHeartbeatTimestamp h lg' (Some n) False = Done (SOFTBUS_OK, Some (OutInt 8 (uint t)))) \<and>
    (\<exists>lg'. LnnSetDLBleDirectTimestamp h (Some n) t lg = (SOFTBUS_OK, lg') \<and>
      LnnGetDLBleDirectTimestamp h lg' (Some n) False = Done (SOFTBUS_OK, Some (OutInt 8 (uint t))))"
proof -
  have l: "lock_ok (ho_env h 0) 0" and cp: "memcpy_ok (ho_env h 2) 32 32"
    using assms(3) by (simp_all add: healthy_host_def securec_memcpy [OF healthy_securec])
  note e = edit_found [OF assms(1,2) l assms(4)] lookup_after_write [OF assms(1,2,4), unfolded One_nat_def]
  note g = typed_get_found [OF assms(6,7) l] g_dlKeyTable_def RETURN_IF_GET_NODE_VALID_def put_int_def put_string_fits online_rest assms(5) l
  note w = e g field_setters assms(8) [unfolded on_rest_def] assms(9-) cp
  show ?thesis
    apply (intro conjI)
    subgoal by (simp add: w LnnSetDLProxyPort_def LnnGetRemoteNumInfo_def DlGetProxyPort_def)
    subgoal by (simp add: w LnnSetDLSessionPort_def LnnGetRemoteNumInfo_def DlGetSessionPort_def)
    subgoal by (simp add: w LnnSetDLAuthPort_def LnnGetRemoteNumInfo_def DlGetAuthPort_def)
    subgoal by (simp add: w Let_def LnnSetDLConnCapability_def LnnGetRemoteNumInfo_def DlGetNetCap_def)
    subgoal by (simp add: w LnnSetDLNodeAddr_def LnnGetRemoteStrInfo_def DlGetNodeAddr_def)
    subgoal by (simp add: w LnnSetDLP2pInfo_def LnnGetRemoteStrInfo_def LnnGetRemoteNumInfo_def DlGetP2pRole_def DlGetP2pMac_def DlGetP2pGoMac_def)
    subgoal by (simp add: w LnnSetDLWifiDirectAddr_def LnnGetRemoteStrInfo_def DlGetWifiDirectAddr_def)
    subgoal by (simp add: w LnnSetDLP2pIp_def LnnGetRemoteStrInfo_def DlGetNodeP2pIp_def)
    subgoal by (simp add: w LnnSetDlPtk_def LnnGetRemoteByteInfo_def DlGetRemotePtk_def put_bytes_def)
    subgoal by (simp add: w LnnSetDLHeartbeatTimestamp_def LnnGetDLHeartbeatTimestamp_def locked_get_def)
    subgoal by (simp add: w LnnSetDLBleDirectTimestamp_def LnnGetDLBleDirectTimestamp_def locked_get_def)
    done
qed

definition sample_rest :: NodeRest where
  "sample_rest = \<lparr>nr_nickName = [], nr_masterUdid = [], nr_nodeAddress = [], nr_masterWeight = 0, nr_netCapacity = 0, nr_bleMacAddr = replicate 18 0,
     nr_latestTime = 0, nr_bssTransInfo = [], nr_p2pRole = 0, nr_wifiCfg = [], nr_chanList5g = [], nr_staFrequency = 0, nr_p2pMac = [], nr_goMac = [],
     nr_p2pIp = [], nr_wifiDirectAddr = [], nr_dataChangeFlag = 0, nr_isCharging = False, nr_batteryLevel = 0, nr_feature = 0, nr_stateVersion = 0,
     nr_peerIrk = replicate 16 0, nr_publicAddress = replicate 6 0, nr_cipherKey = replicate 32 0, nr_cipherIv = replicate 16 0,
     nr_bleMacRefreshSwitch = 0, nr_staticCapability = replicate 10 0, nr_staticCapLen = 0, nr_remotePtk = replicate 32 0, nr_bleDirectTimestamp = 0\<rparr>"

definition sample_full :: full_node where
  "sample_full = (sample_node_with sample_rest 65 2)\<lparr>ni_status := STATUS_ONLINE, ni_AuthTypeValue := 1\<rparr>"

lemma sample_full_wf: "node_wf sample_full"
  by (simp add: sample_full_def sample_node_with_def node_wf_def node_sizes_def)

lemmas sample_full_ok = sample_with_ok [OF sample_full_wf]

lemma sample_full_found: "LnnGetNodeInfoById sample_host 1 (sample_with sample_full) (Some [65, 50]) CATEGORY_NETWORK_ID = Some sample_full"
proof -
  let ?m = "lg_udidMap (sample_with sample_full)"
  have m: "map_ok True ?m" using sample_full_ok(1) by (simp add: ledger_ok_def)
  obtain it where it: "LnnMapInitIterator (ho_env (sample_host :: full_host) 1) (Some ?m) = Some it"
    using iterator_healthy sample_ok(2) unfolding healthy_host_def by blast
  have "mn_value n = sample_full" if n: "n \<in> set (entries ?m)" for n
    using n m sample_full_ok(2) view_iff [of ?m "mn_key n" "(mn_valueSize n, mn_value n)"] by (auto simp: nodes_def map_ok_def split: if_splits)
  moreover have "length (entries ?m) = 1"
    using map_ok_card [OF m] sample_full_ok(2) by (simp add: nodes_def)
  ultimately have "map mn_value (entries ?m) = [sample_full]" by (cases "entries ?m") auto
  moreover have "ni_networkId sample_full = [65, 50]" by (simp add: sample_full_def sample_node_with_def)
  ultimately show ?thesis using it by (simp add: LnnGetNodeInfoById_def visited_entries [OF m it])
qed

theorem field_round_trip_witness:
  "(\<exists>lg'. LnnSetDLProxyPort sample_host (Some [65, 50]) CATEGORY_NETWORK_ID 7 (sample_with sample_full) = (SOFTBUS_OK, lg') \<and>
      LnnGetRemoteNumInfo sample_host lg' (Some [65, 50]) NUM_KEY_PROXY_PORT False = Done (SOFTBUS_OK, Some (OutInt 4 7))) \<and>
    (\<exists>lg'. LnnSetDLSessionPort sample_host (Some [65, 50]) CATEGORY_NETWORK_ID 7 (sample_with sample_full) = (SOFTBUS_OK, lg') \<and>
      LnnGetRemoteNumInfo sample_host lg' (Some [65, 50]) NUM_KEY_SESSION_PORT False = Done (SOFTBUS_OK, Some (OutInt 4 7))) \<and>
    (\<exists>lg'. LnnSetDLAuthPort sample_host (Some [65, 50]) CATEGORY_NETWORK_ID 7 (sample_with sample_full) = (SOFTBUS_OK, lg') \<and>
      LnnGetRemoteNumInfo sample_host lg' (Some [65, 50]) NUM_KEY_AUTH_PORT False = Done (SOFTBUS_OK, Some (OutInt 4 7))) \<and>
    (\<exists>lg'. LnnSetDLConnCapability (\<lambda>_. SOFTBUS_OK) sample_host (Some [65, 50]) 5 (sample_with sample_full) = (SOFTBUS_OK, lg') \<and>
      LnnGetRemoteNumInfo sample_host lg' (Some [65, 50]) NUM_KEY_NET_CAP False = Done (SOFTBUS_OK, Some (OutInt 4 (sint (5 :: u32))))) \<and>
    (\<exists>lg'. LnnSetDLNodeAddr sample_host (Some [65, 50]) CATEGORY_NETWORK_ID (Some [49]) (sample_with sample_full) = (SOFTBUS_OK, lg') \<and>
      LnnGetRemoteStrInfo sample_host lg' (Some [65, 50]) STRING_KEY_NODE_ADDR False 20 20 = Done (SOFTBUS_OK, Some (OutString [49]))) \<and>
    (\<exists>lg'. LnnSetDLP2pInfo sample_host (Some [65, 50]) (Some (2, [50], [51])) (sample_with sample_full) = (True, lg') \<and>
      LnnGetRemoteNumInfo sample_host lg' (Some [65, 50]) NUM_KEY_P2P_ROLE False = Done (SOFTBUS_OK, Some (OutInt 4 2)) \<and>
      LnnGetRemoteStrInfo sample_host lg' (Some [65, 50]) STRING_KEY_P2P_MAC False 18 18 = Done (SOFTBUS_OK, Some (OutString [50])) \<and>
      LnnGetRemoteStrInfo sample_host lg' (Some [65, 50]) STRING_KEY_P2P_GO_MAC False 18 18 = Done (SOFTBUS_OK, Some (OutString [51]))) \<and>
    (\<exists>lg'. LnnSetDLWifiDirectAddr sample_host (Some [65, 50]) (Some [50]) (sample_with sample_full) = (True, lg') \<and>
      LnnGetRemoteStrInfo sample_host lg' (Some [65, 50]) STRING_KEY_WIFIDIRECT_ADDR False 18 18 = Done (SOFTBUS_OK, Some (OutString [50]))) \<and>
    (\<exists>lg'. LnnSetDLP2pIp sample_host (Some [65, 50]) CATEGORY_NETWORK_ID (Some [52, 46]) (sample_with sample_full) = (SOFTBUS_OK, lg') \<and>
      LnnGetRemoteStrInfo sample_host lg' (Some [65, 50]) STRING_KEY_P2P_IP False 46 46 = Done (SOFTBUS_OK, Some (OutString [52, 46]))) \<and>
    (\<exists>lg'. LnnSetDlPtk sample_host (Some [65, 50]) (Some (replicate 32 9)) (sample_with sample_full) = (True, lg') \<and>
      LnnGetRemoteByteInfo sample_host lg' (Some [65, 50]) BYTE_KEY_REMOTE_PTK False 32 32 = Done (SOFTBUS_OK, Some (OutBytes (replicate 32 9)))) \<and>
    (\<exists>lg'. LnnSetDLHeartbeatTimestamp sample_host (Some [65, 50]) 11 (sample_with sample_full) = (SOFTBUS_OK, lg') \<and>
      LnnGetDLHeartbeatTimestamp sample_host lg' (Some [65, 50]) False = Done (SOFTBUS_OK, Some (OutInt 8 (uint (11 :: u64))))) \<and>
    (\<exists>lg'. LnnSetDLBleDirectTimestamp sample_host (Some [65, 50]) 11 (sample_with sample_full) = (SOFTBUS_OK, lg') \<and>
      LnnGetDLBleDirectTimestamp sample_host lg' (Some [65, 50]) False = Done (SOFTBUS_OK, Some (OutInt 8 (uint (11 :: u64)))))"
  by (rule field_round_trip [OF sample_full_ok(1) sample_ok(1,2) sample_full_found])
    (simp_all add: sample_full_def sample_node_with_def LnnIsNodeOnline_def)


lemma sample_full_mac: "0 \<in> set (nr_bleMacAddr (ni_rest sample_full))"
  by (simp add: sample_full_def sample_node_with_def sample_rest_def)

lemma sample_env: "ho_env sample_host k = ideal_env"
  by (simp add: sample_host_def)

theorem field_writes_one_node_witness:
  "one_node_changed True (sample_with sample_full) (field_step sample_host (SetName (Some [65]) (Some [66, 67])) (sample_with sample_full))"
  by (rule field_writes_one_node [OF sample_full_ok(1) sample_ok(1)])

theorem remote_info_in_bounds_witness:
  "LnnGetRemoteStrInfo sample_host (sample_with sample_full) (Some [65, 50]) NUM_KEY_META_NODE False 4 4 \<noteq> Undef \<and>
    LnnGetRemoteByteInfo sample_host (sample_with sample_full) (Some [65, 50]) NUM_KEY_META_NODE False 4 4 \<noteq> Undef \<and>
    LnnGetRemoteNumInfo sample_host (sample_with sample_full) (Some [65, 50]) NUM_KEY_META_NODE False \<noteq> Undef \<and>
    LnnGetRemoteNumU64Info sample_host (sample_with sample_full) (Some [65, 50]) NUM_KEY_META_NODE False \<noteq> Undef \<and>
    LnnGetRemoteBoolInfo sample_host (sample_with sample_full) (Some [65, 50]) NUM_KEY_META_NODE False \<noteq> Undef \<and>
    LnnGetRemoteNum16Info sample_host (sample_with sample_full) (Some [65, 50]) NUM_KEY_META_NODE False = Undef"
  using remote_info_in_bounds [of sample_host "sample_with sample_full" "Some [65, 50]" NUM_KEY_META_NODE False 4] sample_full_found [unfolded One_nat_def]
  by (simp add: sample_full_mac sample_env healthy_securec IsValidString_def)


text \<open>An address that fills its array has no terminator, and reading it runs past the array.\<close>

lemma ble_mac_unterminated:
  assumes "ledger_ok sc lg" "host_ok sc h" "healthy_host h" "LnnGetNodeInfoById h 1 lg (Some n) CATEGORY_NETWORK_ID = Some i"
    "length n \<noteq> 0" "length n \<le> unat ID_MAX_LEN" "0 \<notin> set mac"
  shows "LnnGetRemoteStrInfo h (LnnUpdateNodeBleMac h (Some n) (Some mac) 18 lg) (Some n) STRING_KEY_BLE_MAC False 18 18 = Undef"
proof -
  have l: "lock_ok (ho_env h 0) 0" and cp: "memcpy_ok (ho_env h 2) 18 18"
    using assms(3) by (simp_all add: healthy_host_def securec_memcpy [OF healthy_securec])
  show ?thesis
    by (simp add: LnnUpdateNodeBleMac_def edit_found [OF assms(1,2) l assms(4)] cp lookup_after_write [OF assms(1,2,4), unfolded One_nat_def] on_rest_def
        LnnGetRemoteStrInfo_def typed_get_found [OF assms(5,6) l] g_dlKeyTable_def RETURN_IF_GET_NODE_VALID_def DlGetNodeBleMac_def c_string_def assms(7))
qed


end
