(* ===== verification/Auth_Session_Key.thy ===== *)
theory Auth_Session_Key
  imports Pkt_Head
begin

text \<open>
  The keys of an authenticated connection, \<^verbatim>\<open>core/authentication/src/auth_session_key.c\<close>, and the
  encryption of its messages down to the calls of the crypto library,
  \<^verbatim>\<open>adapter/common/mbedtls/softbus_adapter_crypto.c\<close>. The library is an argument (\<open>gcm\<close>), and so are the
  random bytes. A buffer of the caller is given by its capacity; a result is the bytes written.
\<close>

abbreviation (input) SOFTBUS_ENCRYPT_ERR :: status where "SOFTBUS_ENCRYPT_ERR \<equiv> - 426442739"
abbreviation (input) SOFTBUS_DECRYPT_ERR :: status where "SOFTBUS_DECRYPT_ERR \<equiv> - 426442738"
abbreviation (input) SESSION_KEY_MAX_NUM :: nat where "SESSION_KEY_MAX_NUM \<equiv> 10"
abbreviation (input) SESSION_KEY_LENGTH :: nat where "SESSION_KEY_LENGTH \<equiv> 32"
abbreviation (input) GCM_IV_LEN :: nat where "GCM_IV_LEN \<equiv> 12"
abbreviation (input) TAG_LEN :: nat where "TAG_LEN \<equiv> 16"
abbreviation (input) OVERHEAD_LEN :: u32 where "OVERHEAD_LEN \<equiv> 28"
abbreviation (input) ENCRYPT_INDEX_LEN :: u32 where "ENCRYPT_INDEX_LEN \<equiv> 4"
abbreviation (input) ENCRYPT_OVER_HEAD_LEN :: u32 where "ENCRYPT_OVER_HEAD_LEN \<equiv> 32"
abbreviation (input) SIZEOF_SESSION_KEY :: nat where "SIZEOF_SESSION_KEY \<equiv> 36"
abbreviation (input) SIZEOF_SESSION_KEY_ITEM :: nat where "SIZEOF_SESSION_KEY_ITEM \<equiv> 64"

subsection \<open>The crypto adapter\<close>

text \<open>
  The calls of the library with the key given by its bytes: whether it accepts the key, encryption to
  a text of the same length and a tag, and decryption, which fails when the tag does not match.
\<close>

record gcm =
  gcm_setkey :: "bytes \<Rightarrow> bool"
  gcm_crypt_and_tag :: "bytes \<Rightarrow> bytes \<Rightarrow> bytes \<Rightarrow> (bytes \<times> bytes) option"
  gcm_auth_decrypt :: "bytes \<Rightarrow> bytes \<Rightarrow> bytes \<Rightarrow> bytes \<Rightarrow> bytes option"

record AesGcmCipherKey =
  ck_keyLen :: u32
  ck_key :: bytes
  ck_iv :: bytes

definition key_bytes :: "AesGcmCipherKey \<Rightarrow> bytes" where
  "key_bytes ck = take (unat (ck_keyLen ck)) (ck_key ck)"

text \<open>The result, positive on success, and the bytes at the start of the output buffer of \<open>cap\<close> bytes.\<close>

definition MbedAesGcmEncrypt :: "gcm \<Rightarrow> env \<Rightarrow> AesGcmCipherKey \<Rightarrow> bytes \<Rightarrow> u32 \<Rightarrow> nat \<Rightarrow> u32 \<Rightarrow> (int \<times> bytes) outcome" where
  "MbedAesGcmEncrypt g e ck plainText plainTextSize cap cipherTextLen =
     (if plainTextSize = 0 \<or> cipherTextLen < plainTextSize + OVERHEAD_LEN then Done (SOFTBUS_INVALID_PARAM, [])
      else if \<not> gcm_setkey g (key_bytes ck) then Done (SOFTBUS_ENCRYPT_ERR, [])
      else if length plainText < unat plainTextSize \<or> cap < GCM_IV_LEN + unat plainTextSize then Undef
      else case gcm_crypt_and_tag g (key_bytes ck) (ck_iv ck) (take (unat plainTextSize) plainText) of
        None \<Rightarrow> Done (SOFTBUS_ENCRYPT_ERR, [])
      | Some (c, tag) \<Rightarrow>
          if \<not> memcpy_ok e (unat cipherTextLen) GCM_IV_LEN then Done (SOFTBUS_ENCRYPT_ERR, [])
          else if \<not> memcpy_ok e (unat (cipherTextLen - 12 - plainTextSize)) TAG_LEN then Done (SOFTBUS_ENCRYPT_ERR, [])
          else if cap < GCM_IV_LEN + unat plainTextSize + TAG_LEN then Undef
          else Done (sint (plainTextSize + OVERHEAD_LEN), ck_iv ck @ c @ tag))"

definition MbedAesGcmDecrypt :: "gcm \<Rightarrow> AesGcmCipherKey \<Rightarrow> bytes \<Rightarrow> u32 \<Rightarrow> nat \<Rightarrow> u32 \<Rightarrow> (int \<times> bytes) outcome" where
  "MbedAesGcmDecrypt g ck cipherText cipherTextSize cap plainLen =
     (if cipherTextSize \<le> OVERHEAD_LEN \<or> plainLen < cipherTextSize - OVERHEAD_LEN then Done (SOFTBUS_INVALID_PARAM, [])
      else if \<not> gcm_setkey g (key_bytes ck) then Done (SOFTBUS_DECRYPT_ERR, [])
      else let actualPlainLen = unat (cipherTextSize - OVERHEAD_LEN) in
        if length cipherText < unat cipherTextSize \<or> cap < actualPlainLen then Undef
        else case gcm_auth_decrypt g (key_bytes ck) (ck_iv ck) (take actualPlainLen (drop GCM_IV_LEN cipherText))
            (take TAG_LEN (drop (actualPlainLen + GCM_IV_LEN) cipherText)) of
          None \<Rightarrow> Done (SOFTBUS_DECRYPT_ERR, [])
        | Some p \<Rightarrow> Done (sint (cipherTextSize - OVERHEAD_LEN), p))"

text \<open>The random bytes are \<open>None\<close> when they could not be made; the first four are replaced by the number as it lies in memory.\<close>

definition SoftBusEncryptDataWithSeq ::
  "bool \<Rightarrow> gcm \<Rightarrow> env \<Rightarrow> bytes option \<Rightarrow> AesGcmCipherKey \<Rightarrow> bytes \<Rightarrow> u32 \<Rightarrow> nat \<Rightarrow> i32 \<Rightarrow> (status \<times> (bytes \<times> u32) option) outcome" where
  "SoftBusEncryptDataWithSeq le g e random ck input inLen cap seqNum =
     (if inLen = 0 then Done (SOFTBUS_INVALID_PARAM, None)
      else case random of
        None \<Rightarrow> Done (SOFTBUS_ENCRYPT_ERR, None)
      | Some iv \<Rightarrow>
          if \<not> memcpy_ok e 4 4 then Done (SOFTBUS_ENCRYPT_ERR, None)
          else let ck = ck\<lparr>ck_iv := mem_put le 4 (unat seqNum) @ drop 4 iv\<rparr> in
            bind_outcome (MbedAesGcmEncrypt g e ck input inLen cap (inLen + OVERHEAD_LEN)) (\<lambda>(result, out).
              if result \<le> 0 then Done (SOFTBUS_ENCRYPT_ERR, None) else Done (SOFTBUS_OK, Some (out, of_int result))))"

definition SoftBusEncryptData ::
  "gcm \<Rightarrow> env \<Rightarrow> bytes option \<Rightarrow> AesGcmCipherKey \<Rightarrow> bytes \<Rightarrow> u32 \<Rightarrow> nat \<Rightarrow> (status \<times> (bytes \<times> u32) option) outcome" where
  "SoftBusEncryptData g e random ck input inLen cap =
     (if inLen = 0 then Done (SOFTBUS_INVALID_PARAM, None)
      else case random of
        None \<Rightarrow> Done (SOFTBUS_ENCRYPT_ERR, None)
      | Some iv \<Rightarrow>
          bind_outcome (MbedAesGcmEncrypt g e (ck\<lparr>ck_iv := iv\<rparr>) input inLen cap (inLen + OVERHEAD_LEN)) (\<lambda>(result, out).
            if result \<le> 0 then Done (SOFTBUS_ENCRYPT_ERR, None) else Done (SOFTBUS_OK, Some (out, of_int result))))"

definition SoftBusDecryptData ::
  "gcm \<Rightarrow> env \<Rightarrow> AesGcmCipherKey \<Rightarrow> bytes \<Rightarrow> u32 \<Rightarrow> nat \<Rightarrow> (status \<times> (bytes \<times> u32) option) outcome" where
  "SoftBusDecryptData g e ck input inLen cap =
     (if unat inLen < GCM_IV_LEN then Done (SOFTBUS_INVALID_PARAM, None)
      else if \<not> memcpy_ok e GCM_IV_LEN GCM_IV_LEN then Done (SOFTBUS_ENCRYPT_ERR, None)
      else if length input < GCM_IV_LEN then Undef
      else let ck = ck\<lparr>ck_iv := take GCM_IV_LEN input\<rparr> in
        bind_outcome (MbedAesGcmDecrypt g ck input inLen cap (inLen - OVERHEAD_LEN)) (\<lambda>(result, out).
          if result \<le> 0 then Done (SOFTBUS_ENCRYPT_ERR, None) else Done (SOFTBUS_OK, Some (out, of_int result))))"

definition SoftBusDecryptDataWithSeq ::
  "gcm \<Rightarrow> env \<Rightarrow> AesGcmCipherKey \<Rightarrow> bytes \<Rightarrow> u32 \<Rightarrow> nat \<Rightarrow> i32 \<Rightarrow> (status \<times> (bytes \<times> u32) option) outcome" where
  "SoftBusDecryptDataWithSeq g e ck input inLen cap seqNum = SoftBusDecryptData g e ck input inLen cap"

subsection \<open>The list of keys\<close>

record SessionKey =
  sk_value :: bytes
  sk_len :: u32

record SessionKeyItem =
  ki_index :: i32
  ki_key :: SessionKey
  ki_lastUseTime :: u64

definition RemoveOldKey :: "SessionKeyItem list \<Rightarrow> SessionKeyItem list" where
  "RemoveOldKey list = (if length list \<le> SESSION_KEY_MAX_NUM then list else tl list)"

definition InitSessionKeyList :: "SessionKeyItem list option \<Rightarrow> SessionKeyItem list option" where
  "InitSessionKeyList list = (case list of None \<Rightarrow> None | Some _ \<Rightarrow> Some [])"

text \<open>The copies made so far are destroyed, with all that was in the destination, when one cannot be made.\<close>

fun dup_loop :: "env \<Rightarrow> nat \<Rightarrow> SessionKeyItem list \<Rightarrow> SessionKeyItem list \<Rightarrow> status \<times> SessionKeyItem list" where
  "dup_loop e k [] dstList = (SOFTBUS_OK, dstList)"
| "dup_loop e k (item # items) dstList =
     (if \<not> SoftBusMalloc e k SIZEOF_SESSION_KEY_ITEM \<or> \<not> memcpy_ok e SIZEOF_SESSION_KEY_ITEM SIZEOF_SESSION_KEY_ITEM then (SOFTBUS_MALLOC_ERR, [])
      else dup_loop e (Suc k) items (dstList @ [item]))"

definition DupSessionKeyList :: "env \<Rightarrow> SessionKeyItem list option \<Rightarrow> SessionKeyItem list option \<Rightarrow> status \<times> SessionKeyItem list option" where
  "DupSessionKeyList e srcList dstList =
     (case (srcList, dstList) of
        (Some s, Some d) \<Rightarrow> map_prod id Some (dup_loop e 0 s d)
      | _ \<Rightarrow> (SOFTBUS_INVALID_PARAM, dstList))"

definition DestroySessionKeyList :: "SessionKeyItem list option \<Rightarrow> SessionKeyItem list option" where
  "DestroySessionKeyList list = map_option (\<lambda>_. []) list"

definition HasSessionKey :: "SessionKeyItem list option \<Rightarrow> bool" where
  "HasSessionKey list = (case list of None \<Rightarrow> False | Some l \<Rightarrow> l \<noteq> [])"

definition AddSessionKey ::
  "env \<Rightarrow> u64 \<Rightarrow> SessionKeyItem list option \<Rightarrow> i32 \<Rightarrow> SessionKey option \<Rightarrow> status \<times> SessionKeyItem list option" where
  "AddSessionKey e now list index key =
     (case (key, list) of
        (Some k, Some l) \<Rightarrow>
          if \<not> SoftBusMalloc e 0 SIZEOF_SESSION_KEY_ITEM then (SOFTBUS_MALLOC_ERR, list)
          else if \<not> memcpy_ok e SIZEOF_SESSION_KEY SIZEOF_SESSION_KEY then (SOFTBUS_MEM_ERR, list)
          else (SOFTBUS_OK, Some (RemoveOldKey (l @ [\<lparr>ki_index = index, ki_key = k, ki_lastUseTime = now\<rparr>])))
      | _ \<Rightarrow> (SOFTBUS_INVALID_PARAM, list))"

text \<open>Reading a key stamps its time of use. The outputs of the caller are there when the call succeeds.\<close>

definition GetLatestSessionKey ::
  "env \<Rightarrow> u64 \<Rightarrow> SessionKeyItem list option \<Rightarrow> bool \<Rightarrow> bool \<Rightarrow> status \<times> (i32 \<times> SessionKey) option \<times> SessionKeyItem list option" where
  "GetLatestSessionKey e now list index_null key_null =
     (case list of
        None \<Rightarrow> (SOFTBUS_INVALID_PARAM, None, list)
      | Some l \<Rightarrow>
          if index_null \<or> key_null then (SOFTBUS_INVALID_PARAM, None, list)
          else if l = [] then (SOFTBUS_ERR, None, list)
          else let item = last l in
            if \<not> memcpy_ok e SIZEOF_SESSION_KEY SIZEOF_SESSION_KEY then (SOFTBUS_MEM_ERR, None, list)
            else (SOFTBUS_OK, Some (ki_index item, ki_key item), Some (butlast l @ [item\<lparr>ki_lastUseTime := now\<rparr>])))"

fun stamp :: "i32 \<Rightarrow> u64 \<Rightarrow> SessionKeyItem list \<Rightarrow> SessionKeyItem list" where
  "stamp index now [] = []"
| "stamp index now (item # items) =
     (if ki_index item \<noteq> index then item # stamp index now items else item\<lparr>ki_lastUseTime := now\<rparr> # items)"

definition GetSessionKeyByIndex ::
  "env \<Rightarrow> u64 \<Rightarrow> SessionKeyItem list option \<Rightarrow> i32 \<Rightarrow> bool \<Rightarrow> status \<times> SessionKey option \<times> SessionKeyItem list option" where
  "GetSessionKeyByIndex e now list index key_null =
     (case list of
        None \<Rightarrow> (SOFTBUS_INVALID_PARAM, None, list)
      | Some l \<Rightarrow>
          if key_null then (SOFTBUS_INVALID_PARAM, None, list)
          else (case find (\<lambda>item. ki_index item = index) l of
              None \<Rightarrow> (SOFTBUS_ERR, None, list)
            | Some item \<Rightarrow>
                if \<not> memcpy_ok e SIZEOF_SESSION_KEY SIZEOF_SESSION_KEY then (SOFTBUS_MEM_ERR, None, list)
                else (SOFTBUS_OK, Some (ki_key item), Some (stamp index now l))))"

fun remove_first :: "i32 \<Rightarrow> SessionKeyItem list \<Rightarrow> SessionKeyItem list" where
  "remove_first index [] = []"
| "remove_first index (item # items) = (if ki_index item = index then items else item # remove_first index items)"

definition RemoveSessionkeyByIndex :: "SessionKeyItem list option \<Rightarrow> i32 \<Rightarrow> SessionKeyItem list option" where
  "RemoveSessionkeyByIndex list index = map_option (remove_first index) list"

subsection \<open>Encryption\<close>

text \<open>
  \<open>outLen\<close> is the number at the pointer, which is read before it is checked; the result is the
  output and the length stored there. The list is the one after the call.
\<close>

definition EncryptData ::
  "bool \<Rightarrow> gcm \<Rightarrow> env \<Rightarrow> u64 \<Rightarrow> bytes option \<Rightarrow> SessionKeyItem list option \<Rightarrow> bytes option \<Rightarrow> u32 \<Rightarrow> nat option \<Rightarrow> u32 option \<Rightarrow>
   (status \<times> (bytes \<times> u32) option \<times> SessionKeyItem list option) outcome" where
  "EncryptData le g e now random list inData inLen outData outLen =
     (case (list, inData, outData) of
        (Some l, Some input, Some cap) \<Rightarrow>
          if inLen = 0 then Done (SOFTBUS_INVALID_PARAM, None, list)
          else (case outLen of
            None \<Rightarrow> Undef
          | Some n \<Rightarrow>
              if n < inLen + ENCRYPT_OVER_HEAD_LEN then Done (SOFTBUS_INVALID_PARAM, None, list)
              else (case GetLatestSessionKey e now list False False of
                (st, got, list) \<Rightarrow>
                  if st \<noteq> SOFTBUS_OK then Done (SOFTBUS_ENCRYPT_ERR, None, list)
                  else let (index, sessionKey) = the got in
                    if cap < 4 then Undef
                    else if \<not> memcpy_ok e SESSION_KEY_LENGTH (unat (sk_len sessionKey)) then Done (SOFTBUS_MEM_ERR, None, list)
                    else let ck = \<lparr>ck_keyLen = sk_len sessionKey, ck_key = take (unat (sk_len sessionKey)) (sk_value sessionKey), ck_iv = replicate 12 0\<rparr> in
                      bind_outcome (SoftBusEncryptDataWithSeq le g e random ck input inLen (cap - 4) index) (\<lambda>(st, out).
                        if st \<noteq> SOFTBUS_OK then Done (SOFTBUS_ENCRYPT_ERR, None, list)
                        else let (bs, m) = the out in
                          Done (SOFTBUS_OK, Some (mem_put le 4 (unat (SoftBusHtoLl le index)) @ bs, m + ENCRYPT_INDEX_LEN), list))))
      | _ \<Rightarrow> Done (SOFTBUS_INVALID_PARAM, None, list))"

definition DecryptData ::
  "bool \<Rightarrow> gcm \<Rightarrow> env \<Rightarrow> u64 \<Rightarrow> SessionKeyItem list option \<Rightarrow> bytes option \<Rightarrow> u32 \<Rightarrow> nat option \<Rightarrow> u32 option \<Rightarrow>
   (status \<times> (bytes \<times> u32) option \<times> SessionKeyItem list option) outcome" where
  "DecryptData le g e now list inData inLen outData outLen =
     (case (list, inData, outData) of
        (Some l, Some input, Some cap) \<Rightarrow>
          if inLen \<le> ENCRYPT_OVER_HEAD_LEN then Done (SOFTBUS_INVALID_PARAM, None, list)
          else (case outLen of
            None \<Rightarrow> Undef
          | Some n \<Rightarrow>
              if n < inLen - ENCRYPT_OVER_HEAD_LEN then Done (SOFTBUS_INVALID_PARAM, None, list)
              else if length input < 4 then Undef
              else let index = SoftBusLtoHl le (of_nat (mem_get le (take 4 input))) in
                (case GetSessionKeyByIndex e now list index False of
                  (st, key, list) \<Rightarrow>
                    if st \<noteq> SOFTBUS_OK then Done (SOFTBUS_DECRYPT_ERR, None, list)
                    else let sessionKey = the key in
                      if \<not> memcpy_ok e SESSION_KEY_LENGTH (unat (sk_len sessionKey)) then Done (SOFTBUS_MEM_ERR, None, list)
                      else let ck = \<lparr>ck_keyLen = sk_len sessionKey, ck_key = take (unat (sk_len sessionKey)) (sk_value sessionKey), ck_iv = replicate 12 0\<rparr> in
                        bind_outcome (SoftBusDecryptDataWithSeq g e ck (drop 4 input) (inLen - ENCRYPT_INDEX_LEN) cap index) (\<lambda>(st, out).
                          if st \<noteq> SOFTBUS_OK then Done (SOFTBUS_DECRYPT_ERR, None, list)
                          else Done (SOFTBUS_OK, out, list))))
      | _ \<Rightarrow> Done (SOFTBUS_INVALID_PARAM, None, list))"

text \<open>The output buffers are allocated here; a caller gets the bytes up to the length stored.\<close>

definition EncryptInner ::
  "bool \<Rightarrow> gcm \<Rightarrow> env \<Rightarrow> u64 \<Rightarrow> bytes option \<Rightarrow> SessionKeyItem list option \<Rightarrow> bytes option \<Rightarrow> u32 \<Rightarrow>
   (status \<times> (bytes \<times> u32) option \<times> SessionKeyItem list option) outcome" where
  "EncryptInner le g e now random list inData inLen =
     (if list = None \<or> inData = None \<or> inLen = 0 then Done (SOFTBUS_INVALID_PARAM, None, list)
      else let encDataLen = inLen + ENCRYPT_OVER_HEAD_LEN in
        if \<not> SoftBusCalloc e 0 (unat encDataLen) then Done (SOFTBUS_MALLOC_ERR, None, list)
        else bind_outcome (EncryptData le g e now random list inData inLen (Some (unat encDataLen)) (Some encDataLen)) (\<lambda>(st, out, list).
          if st \<noteq> SOFTBUS_OK then Done (SOFTBUS_ENCRYPT_ERR, None, list) else Done (SOFTBUS_OK, out, list)))"

definition DecryptInner ::
  "bool \<Rightarrow> gcm \<Rightarrow> env \<Rightarrow> u64 \<Rightarrow> SessionKeyItem list option \<Rightarrow> bytes option \<Rightarrow> u32 \<Rightarrow>
   (status \<times> (bytes \<times> u32) option \<times> SessionKeyItem list option) outcome" where
  "DecryptInner le g e now list inData inLen =
     (if list = None \<or> inData = None \<or> inLen \<le> ENCRYPT_OVER_HEAD_LEN then Done (SOFTBUS_INVALID_PARAM, None, list)
      else let decDataLen = inLen - ENCRYPT_OVER_HEAD_LEN + 1 in
        if \<not> SoftBusCalloc e 0 (unat decDataLen) then Done (SOFTBUS_MALLOC_ERR, None, list)
        else bind_outcome (DecryptData le g e now list inData inLen (Some (unat decDataLen)) (Some decDataLen)) (\<lambda>(st, out, list).
          if st \<noteq> SOFTBUS_OK then Done (SOFTBUS_DECRYPT_ERR, None, list) else Done (SOFTBUS_OK, out, list)))"

subsection \<open>What is relied on\<close>

text \<open>Encryption works with every key that is accepted and decryption undoes it; the tag has its length and the text keeps its own.\<close>

definition gcm_inverts :: "gcm \<Rightarrow> bool" where
  "gcm_inverts g \<longleftrightarrow> (\<forall>k iv p. gcm_setkey g k \<longrightarrow> gcm_crypt_and_tag g k iv p \<noteq> None) \<and>
    (\<forall>k iv p c t. gcm_crypt_and_tag g k iv p = Some (c, t) \<longrightarrow>
     length c = length p \<and> length t = TAG_LEN \<and> gcm_auth_decrypt g k iv c t = Some p)"

text \<open>Decryption accepts only a text with the tag encryption gives it.\<close>

definition gcm_authenticates :: "gcm \<Rightarrow> bool" where
  "gcm_authenticates g \<longleftrightarrow> (\<forall>k iv p c t. gcm_auth_decrypt g k iv c t = Some p \<longrightarrow> length p = length c \<and> gcm_crypt_and_tag g k iv p = Some (c, t))"

definition key_of :: "SessionKey \<Rightarrow> bytes" where
  "key_of sk = take (unat (sk_len sk)) (sk_value sk)"

definition initial_vector :: "bool \<Rightarrow> i32 \<Rightarrow> bytes \<Rightarrow> bytes" where
  "initial_vector le index iv = mem_put le 4 (unat index) @ drop 4 iv"

definition message_of :: "i32 \<Rightarrow> bytes \<Rightarrow> bytes \<Rightarrow> bytes \<Rightarrow> bytes" where
  "message_of index iv c t = bytes_of 4 (unat index) @ iv @ c @ t"

lemma sint_of_small: "unat (w :: u32) < 2 ^ 31 \<Longrightarrow> sint w = int (unat w)"
proof -
  assume "unat w < 2 ^ 31"
  moreover have "n < 2 ^ 31 \<Longrightarrow> sint (of_nat n :: u32) = int n" for n by (simp add: signed_of_nat signed_take_bit_int_eq_self)
  moreover have "(of_nat (unat w) :: u32) = w" by simp
  ultimately show ?thesis by metis
qed

lemma encrypt_data:
  assumes e: "healthy e" and l: "l \<noteq> []" "unat (sk_len (ki_key (last l))) \<le> SESSION_KEY_LENGTH"
    and n: "0 < length p" "length p + 32 \<le> MAX_MALLOC_SIZE" "inLen = of_nat (length p)"
    and g: "gcm_setkey g (key_of (ki_key (last l)))"
      "gcm_crypt_and_tag g (key_of (ki_key (last l))) (initial_vector le (ki_index (last l)) iv) p = Some (c, t)"
  shows "EncryptInner le g e now (Some iv) (Some l) (Some p) inLen =
    Done (SOFTBUS_OK, Some (message_of (ki_index (last l)) (initial_vector le (ki_index (last l)) iv) c t, inLen + 32),
      Some (butlast l @ [(last l)\<lparr>ki_lastUseTime := now\<rparr>]))"
proof -
  have len: "unat inLen = length p" using n by (simp add: unat_of_nat take_bit_nat_eq_self)
  have add: "unat (inLen + d) = length p + unat d" if "unat d \<le> 32" for d
    using len n(2) that by (simp add: unat_word_ariths take_bit_nat_eq_self)
  have pos: "sint (inLen + 28) = int (length p) + 28"
  proof -
    have "unat (inLen + 28) < 2 ^ 31" using add [of 28] n(2) by simp
    then have "sint (inLen + 28) = int (unat (inLen + 28))" by (rule sint_of_small)
    then show ?thesis using add [of 28] by simp
  qed
  have cp: "memcpy_ok e (length p + 28) 12" "memcpy_ok e 16 16" "memcpy_ok e 4 4" "memcpy_ok e 36 36"
    "memcpy_ok e 32 (unat (sk_len (ki_key (last l))))"
    using e l(2) n(2) by (auto intro!: securec_memcpy healthy_securec)
  have al: "SoftBusCalloc e 0 (length p + 32)" using e n by (intro healthy_SoftBusCalloc) simp_all
  have nz: "inLen \<noteq> 0" using n(1) len by auto
  show ?thesis
    using l g nz
    by (simp add: EncryptInner_def EncryptData_def GetLatestSessionKey_def SoftBusEncryptDataWithSeq_def MbedAesGcmEncrypt_def Let_def add al cp pos
        key_bytes_def len initial_vector_def message_of_def host_to_wire_words key_of_def flip: n(3))
qed

lemma decrypt_data:
  assumes e: "healthy e" and l: "find (\<lambda>item. ki_index item = index) l = Some item" "unat (sk_len (ki_key item)) \<le> SESSION_KEY_LENGTH"
    and n: "0 < length c" "length c + 32 \<le> MAX_MALLOC_SIZE" "inLen = of_nat (length c + 32)" "length iv = 12" "length t = 16"
    and g: "gcm_setkey g (key_of (ki_key item))" "gcm_auth_decrypt g (key_of (ki_key item)) iv c t = Some p"
  shows "DecryptInner le g e now (Some l) (Some (message_of index iv c t)) inLen =
    Done (SOFTBUS_OK, Some (p, of_nat (length c)), Some (stamp index now l))"
proof -
  define w :: u32 where "w = of_nat (length c)"
  have i: "inLen = w + 32" using n(3) by (simp add: w_def)
  have w: "unat w = length c" using n(2) by (simp add: w_def unat_of_nat take_bit_nat_eq_self)
  have add: "unat (w + d) = length c + unat d" if "unat d \<le> 32" for d
    using w n(2) that by (simp add: unat_word_ariths take_bit_nat_eq_self)
  have pos: "sint w = int (length c)" "w \<noteq> 0" using sint_of_small [of w] w n(1,2) by auto
  have cp: "memcpy_ok e 12 12" "memcpy_ok e 36 36" "memcpy_ok e 32 (unat (sk_len (ki_key item)))"
    using e l(2) by (auto intro!: securec_memcpy healthy_securec)
  have al: "SoftBusCalloc e 0 (Suc (length c))" using e n by (intro healthy_SoftBusCalloc) simp_all
  have m: "take 4 (message_of index iv c t) = bytes_of 4 (unat index)" "drop 4 (message_of index iv c t) = iv @ c @ t"
    "length (message_of index iv c t) = length c + 32"
    using n(4,5) by (simp_all add: message_of_def)
  have lt: "\<not> w + 32 \<le> 32" "\<not> w + 28 \<le> 28" "\<not> w + 1 < w"
    using add [of 32] add [of 28] add [of 1] w n(1) by (simp_all add: word_le_nat_alt word_less_nat_alt)
  have c28: "unat (28 + w) = length c + 28" "\<not> 28 + w \<le> 28" using add [of 28] lt(2) by (simp_all add: add.commute [of 28 w])
  show ?thesis
    unfolding i using l(1) g n(1)
    by (simp add: DecryptInner_def DecryptData_def GetSessionKeyByIndex_def SoftBusDecryptDataWithSeq_def SoftBusDecryptData_def MbedAesGcmDecrypt_def
        Let_def lt add c28 w al cp m wire_to_host_words key_bytes_def key_of_def n(4,5) pos flip: w_def)
qed

lemma message_parts:
  assumes "32 \<le> length m"
  shows "take 4 m @ take 12 (drop 4 m) @ take (length m - 32) (drop 16 m) @ drop (length m - 16) m = m"
proof -
  have "take (length m - 32) (drop 16 m) @ drop (length m - 16) m = drop 16 m"
    using append_take_drop_id [of "length m - 32" "drop 16 m"] assms by simp
  moreover have "take 12 (drop 4 m) @ drop 16 m = drop 4 m" using append_take_drop_id [of 12 "drop 4 m"] by simp
  ultimately show ?thesis by simp
qed

lemma index_bytes:
  assumes "length bs = 4"
  shows "bytes_of 4 (unat (SoftBusLtoHl le (of_nat (mem_get le bs)))) = bs"
proof -
  have "nat_of bs < 2 ^ 32" using nat_of_less [of bs] assms by simp
  then have "bs = bytes_of 4 (unat (of_nat (nat_of bs) :: u32))" using bytes_of_nat_of [of bs] assms by (simp add: unat_of_nat take_bit_nat_eq_self)
  then show ?thesis using wire_to_host_words(1) [of le "of_nat (nat_of bs)"] by metis
qed

subsection \<open>The keys kept\<close>

lemma remove_old_bound: "length l \<le> SESSION_KEY_MAX_NUM \<Longrightarrow> length (RemoveOldKey (l @ [x])) \<le> SESSION_KEY_MAX_NUM"
  by (simp add: RemoveOldKey_def)

datatype key_op = AddKey i32 SessionKey | UseLatest | UseIndex i32 | RemoveKey i32

fun key_step :: "env \<times> u64 \<Rightarrow> key_op \<Rightarrow> SessionKeyItem list \<Rightarrow> SessionKeyItem list" where
  "key_step (e, now) (AddKey index key) l = the (snd (AddSessionKey e now (Some l) index (Some key)))"
| "key_step (e, now) UseLatest l = the (snd (snd (GetLatestSessionKey e now (Some l) False False)))"
| "key_step (e, now) (UseIndex index) l = the (snd (snd (GetSessionKeyByIndex e now (Some l) index False)))"
| "key_step (e, now) (RemoveKey index) l = the (RemoveSessionkeyByIndex (Some l) index)"

fun key_run :: "((env \<times> u64) \<times> key_op) list \<Rightarrow> SessionKeyItem list \<Rightarrow> SessionKeyItem list" where
  "key_run [] l = l"
| "key_run ((x, op) # ops) l = key_run ops (key_step x op l)"

text \<open>The list without the times: what the keys are.\<close>

definition keys_in :: "SessionKeyItem list \<Rightarrow> (i32 \<times> SessionKey) list" where
  "keys_in l = map (\<lambda>i. (ki_index i, ki_key i)) l"

definition drop_key :: "i32 \<Rightarrow> (i32 \<times> SessionKey) list \<Rightarrow> (i32 \<times> SessionKey) list" where
  "drop_key index ks = takeWhile (\<lambda>k. fst k \<noteq> index) ks @ tl (dropWhile (\<lambda>k. fst k \<noteq> index) ks)"

text \<open>The specification: a queue of at most ten keys.\<close>

fun key_spec :: "(i32 \<times> SessionKey) list \<Rightarrow> key_op \<Rightarrow> (i32 \<times> SessionKey) list" where
  "key_spec ks (AddKey index key) = drop (Suc (length ks) - SESSION_KEY_MAX_NUM) (ks @ [(index, key)])"
| "key_spec ks UseLatest = ks"
| "key_spec ks (UseIndex index) = ks"
| "key_spec ks (RemoveKey index) = drop_key index ks"

lemma keys_stamp: "keys_in (stamp index now l) = keys_in l"
  by (induction l) (simp_all add: keys_in_def)

lemma keys_remove: "keys_in (remove_first index l) = drop_key index (keys_in l)"
  by (induction l) (simp_all add: keys_in_def drop_key_def)

lemma length_drop_key: "length (drop_key index ks) \<le> length ks"
  using arg_cong [OF takeWhile_dropWhile_id [of "\<lambda>k. fst k \<noteq> index" ks], of length] by (simp add: drop_key_def del: takeWhile_dropWhile_id)

lemma drop_tl: "length ks = 10 \<Longrightarrow> drop (Suc (length ks) - 10) (ks @ [x]) = tl (ks @ [x])"
  by (cases ks) simp_all

lemma key_step_spec:
  assumes "healthy e" "length l \<le> SESSION_KEY_MAX_NUM"
  shows "keys_in (key_step (e, now) op l) = key_spec (keys_in l) op \<and> length (key_step (e, now) op l) \<le> SESSION_KEY_MAX_NUM"
proof (cases op)
  case (AddKey index key)
  have a: "SoftBusMalloc e 0 64" "memcpy_ok e 36 36" using assms(1) by (auto simp: SoftBusMalloc_def intro!: securec_memcpy healthy_securec)
  have "keys_in (RemoveOldKey (l @ [x])) = drop (Suc (length (keys_in l)) - 10) (keys_in l @ keys_in [x])" for x
    using assms(2) drop_tl [of "keys_in l"] by (cases "length l = 10") (auto simp: RemoveOldKey_def keys_in_def map_tl)
  then show ?thesis using a remove_old_bound [OF assms(2)] AddKey by (simp add: AddSessionKey_def keys_in_def)
next
  case UseLatest
  have "memcpy_ok e 36 36" using assms(1) by (auto intro!: securec_memcpy healthy_securec)
  then show ?thesis using assms(2) UseLatest
    by (cases l rule: rev_cases) (simp_all add: GetLatestSessionKey_def keys_in_def Let_def)
next
  case (UseIndex index)
  have "length (stamp index now l) = length l" by (metis keys_stamp keys_in_def length_map)
  then show ?thesis using assms(2) UseIndex keys_stamp [of index now l] by (simp add: GetSessionKeyByIndex_def split: option.splits)
next
  case (RemoveKey index)
  have "length (remove_first index l) \<le> length l" using length_drop_key [of index "keys_in l"] by (simp flip: keys_remove) (simp add: keys_in_def)
  then show ?thesis using assms(2) RemoveKey by (simp add: RemoveSessionkeyByIndex_def keys_remove)
qed

lemma key_run_spec:
  "\<lbrakk>list_all (\<lambda>((e, now), op). healthy e) ops; length l \<le> SESSION_KEY_MAX_NUM\<rbrakk> \<Longrightarrow>
    keys_in (key_run ops l) = foldl key_spec (keys_in l) (map snd ops) \<and> length (key_run ops l) \<le> SESSION_KEY_MAX_NUM"
proof (induction ops l rule: key_run.induct)
  case (2 x op ops l)
  obtain e now where x: "x = (e, now)" by (cases x)
  then have "healthy e" using 2(2) by simp
  from key_step_spec [OF this 2(3), of now op] 2 x show ?case by simp
qed simp

subsection \<open>Properties\<close>

text \<open>
  C12. Encrypted messages are read by the peer. Two devices of any byte order hold the key the sender
  uses, which is the newest in its list, under its index; the receiver's first key with that index is
  the same key. Then every message of up to half a gigabyte is encrypted, and what the peer decrypts is
  the message.
\<close>

theorem encrypted_round_trip:
  assumes "healthy e" "healthy e'" "gcm_inverts g" "l \<noteq> []" "gcm_setkey g (key_of (ki_key (last l)))" "unat (sk_len (ki_key (last l))) \<le> SESSION_KEY_LENGTH"
    and "find (\<lambda>item. ki_index item = ki_index (last l)) l' = Some item" "ki_key item = ki_key (last l)"
    and "0 < length p" "length p + 32 \<le> MAX_MALLOC_SIZE" "length iv = GCM_IV_LEN"
  shows "\<exists>m l1 l2. EncryptInner le g e now (Some iv) (Some l) (Some p) (of_nat (length p)) = Done (SOFTBUS_OK, Some (m, of_nat (length m)), l1) \<and>
    length m = length p + 32 \<and>
    DecryptInner le' g e' now' (Some l') (Some m) (of_nat (length m)) = Done (SOFTBUS_OK, Some (p, of_nat (length p)), l2)"
proof -
  let ?i = "ki_index (last l)"
  let ?iv = "initial_vector le ?i iv"
  obtain c t where ct: "gcm_crypt_and_tag g (key_of (ki_key (last l))) ?iv p = Some (c, t)"
    using assms(3,5) unfolding gcm_inverts_def by fastforce
  then have g: "length c = length p" "length t = 16" "gcm_auth_decrypt g (key_of (ki_key item)) ?iv c t = Some p"
    using assms(3,8) unfolding gcm_inverts_def by auto
  have iv: "length ?iv = 12" using assms(11) by (simp add: initial_vector_def)
  have len: "length (message_of ?i ?iv c t) = length p + 32" using g iv by (simp add: message_of_def)
  have "EncryptInner le g e now (Some iv) (Some l) (Some p) (of_nat (length p)) =
      Done (SOFTBUS_OK, Some (message_of ?i ?iv c t, of_nat (length p) + 32), Some (butlast l @ [(last l)\<lparr>ki_lastUseTime := now\<rparr>]))"
    by (rule encrypt_data [OF assms(1,4,6,9,10) refl assms(5) ct])
  moreover have "DecryptInner le' g e' now' (Some l') (Some (message_of ?i ?iv c t)) (of_nat (length p) + 32) =
      Done (SOFTBUS_OK, Some (p, of_nat (length c)), Some (stamp ?i now' l'))"
    by (rule decrypt_data [OF assms(2,7) _ _ _ _ iv g(2) _ g(3)]) (use assms g in simp_all)
  ultimately show ?thesis using len g(1) by simp
qed

text \<open>
  C18. Only messages made with the key are accepted. Whatever bytes arrive and whatever fails, when
  decryption succeeds the message is an index, an initial vector, a text and a tag, where the text and
  the tag are the encryption of the result under the first key the list has for that index.
\<close>

theorem decrypted_is_authentic:
  assumes "gcm_authenticates g" "DecryptInner le g e now list (Some m) inLen = Done (SOFTBUS_OK, Some (p, n), list')" "length m = unat inLen"
  shows "\<exists>l index item iv c t. list = Some l \<and> find (\<lambda>i. ki_index i = index) l = Some item \<and> m = message_of index iv c t \<and>
    gcm_crypt_and_tag g (key_of (ki_key item)) iv p = Some (c, t)"
proof -
  let ?index = "SoftBusLtoHl le (of_nat (mem_get le (take 4 m)))"
  obtain l where l: "list = Some l" using assms(2) by (cases list) (simp_all add: DecryptInner_def)
  obtain item where item: "find (\<lambda>i. ki_index i = ?index) l = Some item"
    and d: "gcm_auth_decrypt g (key_of (ki_key item)) (take 12 (drop 4 m)) (take (unat (inLen - 4 - 28)) (drop 12 (drop 4 m)))
      (take 16 (drop (unat (inLen - 4 - 28) + 12) (drop 4 m))) = Some p"
    and n: "32 < inLen"
    using assms(2) l
    by (auto simp: DecryptInner_def DecryptData_def GetSessionKeyByIndex_def SoftBusDecryptDataWithSeq_def SoftBusDecryptData_def MbedAesGcmDecrypt_def
        Let_def bind_outcome_eq_Done key_bytes_def key_of_def split: if_splits option.splits prod.splits)
  have u: "unat (inLen - 4 - 28) = length m - 32" "32 < length m"
    using n assms(3) by (simp_all add: unat_sub word_less_nat_alt word_le_nat_alt)
  let ?c = "take (length m - 32) (drop 16 m)"
  let ?t = "drop (length m - 16) m"
  have "m = message_of ?index (take 12 (drop 4 m)) ?c ?t"
    using u(2) index_bytes [of "take 4 m" le] message_parts [of m] by (simp add: message_of_def)
  moreover have "gcm_auth_decrypt g (key_of (ki_key item)) (take 12 (drop 4 m)) ?c ?t = Some p" using d u by simp
  then have "gcm_crypt_and_tag g (key_of (ki_key item)) (take 12 (drop 4 m)) p = Some (?c, ?t)"
    using assms(1) by (simp add: gcm_authenticates_def)
  ultimately show ?thesis using l item by blast
qed

text \<open>
  C34. The list of keys is a queue of ten. In every history of adding, using and removing keys the keys
  kept are those of a queue that drops its oldest key when an eleventh comes: using a key does not
  change its place, and removing one removes the oldest with its index.
\<close>

theorem session_keys_queue:
  assumes "list_all (\<lambda>((e, now), op). healthy e) ops"
  shows "keys_in (key_run ops []) = foldl key_spec [] (map snd ops) \<and> length (key_run ops []) \<le> SESSION_KEY_MAX_NUM"
  using key_run_spec [OF assms, of "[]"] by (simp add: keys_in_def)

subsection \<open>Witnesses\<close>

text \<open>A cipher that only shifts the bytes, with a constant tag, for evaluation.\<close>

definition demo_gcm :: gcm where
  "demo_gcm = \<lparr>gcm_setkey = (\<lambda>k. length k \<in> {16, 24, 32}), gcm_crypt_and_tag = (\<lambda>k iv p. Some (map (\<lambda>b. b + hd k) p, replicate 16 7)),
     gcm_auth_decrypt = (\<lambda>k iv c t. if t = replicate 16 7 then Some (map (\<lambda>b. b - hd k) c) else None)\<rparr>"

lemma demo_gcm_ok: "gcm_inverts demo_gcm" "gcm_authenticates demo_gcm"
  by (auto simp: gcm_inverts_def gcm_authenticates_def demo_gcm_def comp_def split: if_splits)

definition demo_key :: "u8 \<Rightarrow> SessionKey" where
  "demo_key b = \<lparr>sk_value = replicate 32 b, sk_len = 32\<rparr>"

definition demo_item :: "i32 \<Rightarrow> u8 \<Rightarrow> SessionKeyItem" where
  "demo_item i b = \<lparr>ki_index = i, ki_key = demo_key b, ki_lastUseTime = 0\<rparr>"

lemmas demo_defs = demo_item_def demo_key_def key_of_def demo_gcm_def

theorem encrypted_round_trip_witness:
  "\<exists>m l1 l2. EncryptInner True demo_gcm ideal_env 5 (Some (replicate 12 0)) (Some [demo_item 1 9, demo_item 2 4]) (Some [65, 66]) (of_nat (length [65, 66 :: u8])) =
      Done (SOFTBUS_OK, Some (m, of_nat (length m)), l1) \<and> length m = length [65, 66 :: u8] + 32 \<and>
    DecryptInner False demo_gcm ideal_env 6 (Some [demo_item 2 4]) (Some m) (of_nat (length m)) =
      Done (SOFTBUS_OK, Some ([65, 66], of_nat (length [65, 66 :: u8])), l2)"
  by (rule encrypted_round_trip [OF healthy_ideal_env healthy_ideal_env demo_gcm_ok(1), where item = "demo_item 2 4"]) (simp_all add: demo_defs)

theorem decrypted_is_authentic_witness:
  "\<exists>l index item iv c t. Some [demo_item 2 4] = Some l \<and> find (\<lambda>i. ki_index i = index) l = Some item \<and>
    message_of 2 (replicate 12 0) [70] (replicate 16 7) = message_of index iv c t \<and>
    gcm_crypt_and_tag demo_gcm (key_of (ki_key item)) iv [66] = Some (c, t)"
proof (rule decrypted_is_authentic [OF demo_gcm_ok(2)])
  show "DecryptInner True demo_gcm ideal_env 6 (Some [demo_item 2 4]) (Some (message_of 2 (replicate 12 0) [70] (replicate 16 7))) (of_nat 33) =
      Done (SOFTBUS_OK, Some ([66], of_nat (length [70 :: u8])), Some (stamp 2 6 [demo_item 2 4]))"
    by (rule decrypt_data [OF healthy_ideal_env, where item = "demo_item 2 4"]) (simp_all add: demo_defs)
qed (simp add: message_of_def)

theorem session_keys_queue_witness:
  "keys_in (key_run [((ideal_env, 1), AddKey 1 (demo_key 1)), ((ideal_env, 2), AddKey 2 (demo_key 2)), ((ideal_env, 3), RemoveKey 1)] []) =
      foldl key_spec [] (map snd [((ideal_env, 1 :: u64), AddKey 1 (demo_key 1)), ((ideal_env, 2), AddKey 2 (demo_key 2)), ((ideal_env, 3), RemoveKey 1)]) \<and>
    length (key_run [((ideal_env, 1), AddKey 1 (demo_key 1)), ((ideal_env, 2), AddKey 2 (demo_key 2)), ((ideal_env, 3), RemoveKey 1)] []) \<le> SESSION_KEY_MAX_NUM"
  by (rule session_keys_queue) simp

subsection \<open>Where the length wraps\<close>

text \<open>The length of the output is a sum in 32 bits: for inputs of nearly four gigabytes it is small, and the output does not fit.\<close>

lemma encrypt_length_wraps:
  assumes "healthy e" "l \<noteq> []" "unat (sk_len (ki_key (last l))) \<le> SESSION_KEY_LENGTH" "gcm_setkey g (key_of (ki_key (last l)))" "2 ^ 32 - 32 < unat inLen"
  shows "EncryptInner le g e now (Some iv) (Some l) (Some p) inLen = Undef"
proof -
  have b: "unat inLen < 2 ^ 32" using unsigned_less [of inLen] by simp
  define q where "q = unat inLen + 32 - 2 ^ 32"
  have q: "0 < q" "q < 32" using assms(5) b by (auto simp: q_def)
  have "(unat inLen + 32) mod 2 ^ 32 = q" using q b assms(5) by (subst mod_if) (simp add: q_def)
  then have u: "unat (inLen + 32) = q" by (simp add: unat_word_ariths take_bit_eq_mod)
  have cp: "memcpy_ok e 4 4" "memcpy_ok e 36 36" "memcpy_ok e 32 (unat (sk_len (ki_key (last l))))"
    using assms(1,3) by (auto intro!: securec_memcpy healthy_securec)
  have al: "SoftBusCalloc e 0 q" using assms(1) q by (intro healthy_SoftBusCalloc) simp_all
  have nz: "inLen \<noteq> 0" "q - 4 < 12 + unat inLen" using assms(5) q by auto
  show ?thesis
    using assms(2,4) nz
    by (simp add: EncryptInner_def EncryptData_def GetLatestSessionKey_def SoftBusEncryptDataWithSeq_def MbedAesGcmEncrypt_def Let_def u al cp
        key_bytes_def key_of_def)
qed

end
