(* ===== verification/Auth_Request.thy ===== *)
theory Auth_Request
  imports Softbus_Utils
begin

text \<open>
  Requests to authenticate a device: the list of \<^verbatim>\<open>core/authentication/src/auth_request.c\<close>, the
  comparison of addresses of \<^verbatim>\<open>auth_common.c\<close>, and from \<^verbatim>\<open>auth_manager.c\<close> the functions that start a
  verification and report its result to all who wait for it. Several requests for one device wait for
  the verification the first of them started. Callbacks and the connection to the device are events;
  they do not change the list. Whether a lock is taken is given for each call by its position.
\<close>

abbreviation (input) SOFTBUS_AUTH_INIT_FAIL :: status where "SOFTBUS_AUTH_INIT_FAIL \<equiv> - 425983998"
abbreviation (input) SOFTBUS_AUTH_CONN_FAIL :: status where "SOFTBUS_AUTH_CONN_FAIL \<equiv> - 425983997"
abbreviation (input) SOFTBUS_AUTH_NOT_FOUND :: status where "SOFTBUS_AUTH_NOT_FOUND \<equiv> - 425983979"
abbreviation (input) SOFTBUS_AUTH_INNER_ERR :: status where "SOFTBUS_AUTH_INNER_ERR \<equiv> - 425983978"
abbreviation (input) AUTH_REQUEST_TIMTOUR :: u64 where "AUTH_REQUEST_TIMTOUR \<equiv> 30000"
abbreviation (input) SHORT_HASH_LEN :: nat where "SHORT_HASH_LEN \<equiv> 8"
abbreviation (input) UDID_HASH_LEN :: nat where "UDID_HASH_LEN \<equiv> 32"
abbreviation (input) SIZEOF_AUTH_REQUEST :: nat where "SIZEOF_AUTH_REQUEST \<equiv> 336"
abbreviation (input) AUTH_INVALID_ID :: i64 where "AUTH_INVALID_ID \<equiv> - 1"
abbreviation (input) AUTH_LINK_TYPE_WIFI :: nat where "AUTH_LINK_TYPE_WIFI \<equiv> 1"
abbreviation (input) AUTH_LINK_TYPE_BR :: nat where "AUTH_LINK_TYPE_BR \<equiv> 2"
abbreviation (input) AUTH_LINK_TYPE_BLE :: nat where "AUTH_LINK_TYPE_BLE \<equiv> 3"
abbreviation (input) AUTH_LINK_TYPE_P2P :: nat where "AUTH_LINK_TYPE_P2P \<equiv> 4"
abbreviation (input) AUTH_LINK_TYPE_ENHANCED_P2P :: nat where "AUTH_LINK_TYPE_ENHANCED_P2P \<equiv> 5"

subsection \<open>Addresses\<close>

text \<open>
  The union is kept as separate fields, of which the type selects the ones that are read. Arrays of
  characters hold the string before its terminator; the hash is an array of 32 bytes.
\<close>

record AuthConnInfo =
  ci_type :: nat
  ci_brMac :: bytes
  ci_protocol :: nat
  ci_bleMac :: bytes
  ci_deviceIdHash :: bytes
  ci_psm :: i32
  ci_ip :: bytes
  ci_port :: i32
  ci_authId :: i64
  ci_moduleId :: nat
  ci_udid :: bytes
  ci_peerUid :: bytes

definition CompareConnInfo :: "AuthConnInfo option \<Rightarrow> AuthConnInfo option \<Rightarrow> bool \<Rightarrow> bool" where
  "CompareConnInfo info1 info2 cmpShortHash =
     (case (info1, info2) of
        (Some a, Some b) \<Rightarrow>
          if ci_type a = AUTH_LINK_TYPE_WIFI then ci_type b = AUTH_LINK_TYPE_WIFI \<and> ci_ip a = ci_ip b
          else if ci_type a = AUTH_LINK_TYPE_BR then ci_type b = AUTH_LINK_TYPE_BR \<and> StrCmpIgnoreCase (Some (ci_brMac a)) (Some (ci_brMac b)) = 0
          else if ci_type a = AUTH_LINK_TYPE_BLE then ci_type b = AUTH_LINK_TYPE_BLE \<and>
            (let n = if cmpShortHash then SHORT_HASH_LEN else UDID_HASH_LEN in take n (ci_deviceIdHash a) = take n (ci_deviceIdHash b) \<or>
             StrCmpIgnoreCase (Some (ci_bleMac a)) (Some (ci_bleMac b)) = 0)
          else if ci_type a = AUTH_LINK_TYPE_P2P then ci_type b = AUTH_LINK_TYPE_P2P \<and> ci_port a = ci_port b \<and> ci_ip a = ci_ip b
          else if ci_type a = AUTH_LINK_TYPE_ENHANCED_P2P then ci_type b = AUTH_LINK_TYPE_ENHANCED_P2P \<and> ci_port a = ci_port b \<and> ci_ip a = ci_ip b
          else False
      | _ \<Rightarrow> False)"

subsection \<open>The list of requests\<close>

datatype RequestType = REQUEST_TYPE_VERIFY | REQUEST_TYPE_RECONNECT | REQUEST_TYPE_CONNECT

text \<open>A pair of callbacks is kept as whether each of them is there.\<close>

record AuthRequest =
  rq_requestId :: u32
  rq_connInfo :: AuthConnInfo
  rq_verifyCb :: "bool \<times> bool"
  rq_authId :: i64
  rq_traceId :: i64
  rq_connCb :: "bool \<times> bool"
  rq_type :: RequestType
  rq_addTime :: u64
  rq_isFastAuth :: bool

datatype auth_event =
    OnConnOpened u32 i64
  | OnConnOpenFailed u32 status
  | OnVerifyPassed u32 i64
  | OnVerifyFailed u32 status
  | DeviceVerifyPassed i64
  | Connecting u32 AuthConnInfo

record auth_state =
  as_list :: "AuthRequest list"
  as_events :: "auth_event list"
  as_regDataChangeListener :: bool

definition tell :: "auth_event list \<Rightarrow> auth_state \<Rightarrow> auth_state" where
  "tell evs st = st\<lparr>as_events := as_events st @ evs\<rparr>"

definition CheckVerifyCallback :: "(bool \<times> bool) option \<Rightarrow> bool" where
  "CheckVerifyCallback cb = (case cb of None \<Rightarrow> False | Some (onVerifyPassed, onVerifyFailed) \<Rightarrow> \<not> (\<not> onVerifyPassed \<or> \<not> onVerifyFailed))"

definition CheckAuthConnCallback :: "(bool \<times> bool) option \<Rightarrow> bool" where
  "CheckAuthConnCallback cb = (case cb of None \<Rightarrow> False | Some (onConnOpened, onConnOpenFailed) \<Rightarrow> \<not> (\<not> onConnOpened \<or> \<not> onConnOpenFailed))"

definition FindAuthRequestByRequestId :: "u32 \<Rightarrow> AuthRequest list \<Rightarrow> AuthRequest option" where
  "FindAuthRequestByRequestId requestId l = find (\<lambda>item. rq_requestId item = requestId) l"

definition failed_notice :: "AuthRequest \<Rightarrow> auth_event list" where
  "failed_notice item =
     (if CheckAuthConnCallback (Some (rq_connCb item)) then [OnConnOpenFailed (rq_requestId item) SOFTBUS_AUTH_CONN_FAIL]
      else if CheckVerifyCallback (Some (rq_verifyCb item)) then [OnVerifyFailed (rq_requestId item) SOFTBUS_AUTH_CONN_FAIL]
      else [])"

text \<open>The number, the requests left in the list and the notices given.\<close>

fun wait_loop :: "AuthRequest \<Rightarrow> AuthRequest list \<Rightarrow> u32 \<times> AuthRequest list \<times> auth_event list" where
  "wait_loop request [] = (0, [], [])"
| "wait_loop request (item # items) =
     (case wait_loop request items of
        (num, l, evs) \<Rightarrow>
          if rq_type item \<noteq> rq_type request \<or> \<not> CompareConnInfo (Some (rq_connInfo request)) (Some (rq_connInfo item)) True
          then (num, item # l, evs)
          else if rq_requestId item = rq_requestId request then (num + 1, item # l, evs)
          else if rq_addTime request - rq_addTime item < AUTH_REQUEST_TIMTOUR then (num + 1, item # l, evs)
          else (num + 1, l, failed_notice item @ evs))"

definition GetAuthRequestWaitNum :: "AuthRequest \<Rightarrow> auth_state \<Rightarrow> u32 \<times> auth_state" where
  "GetAuthRequestWaitNum request st =
     (case wait_loop request (as_list st) of (num, l, evs) \<Rightarrow> (num, tell evs (st\<lparr>as_list := l\<rparr>)))"

definition AddAuthRequest :: "env \<Rightarrow> nat \<Rightarrow> AuthRequest option \<Rightarrow> auth_state \<Rightarrow> u32 \<times> auth_state" where
  "AddAuthRequest e k request st =
     (case request of
        None \<Rightarrow> (0, st)
      | Some r \<Rightarrow>
          if \<not> SoftBusCalloc e k SIZEOF_AUTH_REQUEST then (0, st)
          else if \<not> lock_ok e k then (0, st)
          else GetAuthRequestWaitNum r (st\<lparr>as_list := as_list st @ [r]\<rparr>))"

text \<open>The output of the caller is there when the call succeeds.\<close>

definition GetAuthRequest :: "env \<Rightarrow> nat \<Rightarrow> u32 \<Rightarrow> bool \<Rightarrow> auth_state \<Rightarrow> status \<times> AuthRequest option" where
  "GetAuthRequest e k requestId request_null st =
     (if request_null then (SOFTBUS_INVALID_PARAM, None)
      else if \<not> lock_ok e k then (SOFTBUS_LOCK_ERR, None)
      else case FindAuthRequestByRequestId requestId (as_list st) of
        None \<Rightarrow> (SOFTBUS_NOT_FIND, None)
      | Some item \<Rightarrow> (SOFTBUS_OK, Some item))"

definition GetAuthRequestNoLock :: "u32 \<Rightarrow> bool \<Rightarrow> auth_state \<Rightarrow> status \<times> AuthRequest option" where
  "GetAuthRequestNoLock requestId request_null st =
     (if request_null then (SOFTBUS_INVALID_PARAM, None)
      else case FindAuthRequestByRequestId requestId (as_list st) of
        None \<Rightarrow> (SOFTBUS_NOT_FIND, None)
      | Some item \<Rightarrow> (SOFTBUS_OK, Some item))"

definition FindAuthRequestByConnInfo :: "env \<Rightarrow> nat \<Rightarrow> AuthConnInfo option \<Rightarrow> bool \<Rightarrow> auth_state \<Rightarrow> status \<times> AuthRequest option" where
  "FindAuthRequestByConnInfo e k connInfo request_null st =
     (if connInfo = None \<or> request_null then (SOFTBUS_INVALID_PARAM, None)
      else if \<not> lock_ok e k then (SOFTBUS_LOCK_ERR, None)
      else case find (\<lambda>item. \<not> (rq_type item \<noteq> REQUEST_TYPE_VERIFY \<or> \<not> CompareConnInfo (Some (rq_connInfo item)) connInfo True)) (as_list st) of
        None \<Rightarrow> (SOFTBUS_NOT_FIND, None)
      | Some item \<Rightarrow> (SOFTBUS_OK, Some item))"

fun find_del_loop :: "u32 \<Rightarrow> AuthConnInfo \<Rightarrow> AuthRequest list \<Rightarrow> AuthRequest list \<times> auth_event list" where
  "find_del_loop requestId connInfo [] = ([], [])"
| "find_del_loop requestId connInfo (item # items) =
     (case find_del_loop requestId connInfo items of
        (l, evs) \<Rightarrow>
          if \<not> CompareConnInfo (Some (rq_connInfo item)) (Some connInfo) True then (item # l, evs)
          else if rq_requestId item = requestId then (l, evs)
          else (l, failed_notice item @ evs))"

text \<open>The status is the same whether anything was found.\<close>

definition FindAndDelAuthRequestByConnInfo :: "env \<Rightarrow> nat \<Rightarrow> u32 \<Rightarrow> AuthConnInfo option \<Rightarrow> auth_state \<Rightarrow> status \<times> auth_state" where
  "FindAndDelAuthRequestByConnInfo e k requestId connInfo st =
     (case connInfo of
        None \<Rightarrow> (SOFTBUS_INVALID_PARAM, st)
      | Some c \<Rightarrow>
          if \<not> lock_ok e k then (SOFTBUS_LOCK_ERR, st)
          else (case find_del_loop requestId c (as_list st) of (l, evs) \<Rightarrow> (SOFTBUS_NOT_FIND, tell evs (st\<lparr>as_list := l\<rparr>))))"

fun del_request :: "u32 \<Rightarrow> AuthRequest list \<Rightarrow> AuthRequest list" where
  "del_request requestId [] = []"
| "del_request requestId (item # items) = (if rq_requestId item = requestId then items else item # del_request requestId items)"

definition DelAuthRequest :: "env \<Rightarrow> nat \<Rightarrow> u32 \<Rightarrow> auth_state \<Rightarrow> auth_state" where
  "DelAuthRequest e k requestId st = (if \<not> lock_ok e k then st else st\<lparr>as_list := del_request requestId (as_list st)\<rparr>)"

definition ClearAuthRequest :: "env \<Rightarrow> nat \<Rightarrow> auth_state \<Rightarrow> auth_state" where
  "ClearAuthRequest e k st = (if \<not> lock_ok e k then st else st\<lparr>as_list := []\<rparr>)"

definition PerformVerifyCallback :: "env \<Rightarrow> nat \<Rightarrow> u32 \<Rightarrow> status \<Rightarrow> i64 \<Rightarrow> auth_state \<Rightarrow> auth_state" where
  "PerformVerifyCallback e k requestId result authId st =
     (case GetAuthRequest e k requestId False st of
        (r, request) \<Rightarrow>
          if r \<noteq> SOFTBUS_OK then st
          else if \<not> CheckVerifyCallback (Some (rq_verifyCb (the request))) then st
          else if result = SOFTBUS_OK then tell [OnVerifyPassed (rq_requestId (the request)) authId] st
          else tell [OnVerifyFailed (rq_requestId (the request)) result] st)"

definition PerformAuthConnCallback :: "env \<Rightarrow> nat \<Rightarrow> u32 \<Rightarrow> status \<Rightarrow> i64 \<Rightarrow> auth_state \<Rightarrow> auth_state" where
  "PerformAuthConnCallback e k requestId result authId st =
     (case GetAuthRequest e k requestId False st of
        (r, request) \<Rightarrow>
          if r \<noteq> SOFTBUS_OK then st
          else if \<not> CheckAuthConnCallback (Some (rq_connCb (the request))) then st
          else if result = SOFTBUS_OK then tell [OnConnOpened (rq_requestId (the request)) authId] st
          else tell [OnConnOpenFailed (rq_requestId (the request)) result] st)"

subsection \<open>Verifying a device\<close>

text \<open>
  What \<^verbatim>\<open>ConnectAuthDevice\<close> returns is an argument (\<open>connect\<close>, by the position of the call), and so are
  the result of each attempt to register with the trust service, the clock and the trace number.
  \<^verbatim>\<open>ConnectAuthDevice\<close> only posts the work or hands it to the connection manager: what comes of it is
  reported later.
\<close>

fun retry_loop :: "nat \<Rightarrow> nat \<Rightarrow> (nat \<Rightarrow> status) \<Rightarrow> status" where
  "retry_loop 0 i register = SOFTBUS_ERR"
| "retry_loop (Suc n) i register = (if register i = SOFTBUS_OK then SOFTBUS_OK else retry_loop n (i + 1) register)"

definition RetryRegTrustDataChangeListener :: "(nat \<Rightarrow> status) \<Rightarrow> status" where
  "RetryRegTrustDataChangeListener register = retry_loop 3 1 register"

definition verify_request :: "u64 \<Rightarrow> i64 \<Rightarrow> u32 \<Rightarrow> AuthConnInfo \<Rightarrow> (bool \<times> bool) option \<Rightarrow> (bool \<times> bool) option \<Rightarrow> bool \<Rightarrow> AuthRequest" where
  "verify_request now traceId requestId connInfo verifyCb connCb isFastAuth =
     \<lparr>rq_requestId = requestId, rq_connInfo = connInfo, rq_verifyCb = (case verifyCb of None \<Rightarrow> (False, False) | Some cb \<Rightarrow> cb),
      rq_authId = AUTH_INVALID_ID, rq_traceId = traceId, rq_connCb = (case connCb of None \<Rightarrow> (False, False) | Some cb \<Rightarrow> cb),
      rq_type = (if verifyCb = None \<and> ci_type connInfo = AUTH_LINK_TYPE_BLE then REQUEST_TYPE_CONNECT else REQUEST_TYPE_VERIFY),
      rq_addTime = now, rq_isFastAuth = isFastAuth\<rparr>"

definition StartVerifyDevice ::
  "env \<Rightarrow> (nat \<Rightarrow> status) \<Rightarrow> status \<Rightarrow> u64 \<Rightarrow> i64 \<Rightarrow> u32 \<Rightarrow> AuthConnInfo \<Rightarrow> (bool \<times> bool) option \<Rightarrow> (bool \<times> bool) option \<Rightarrow> bool \<Rightarrow> auth_state \<Rightarrow>
   status \<times> auth_state" where
  "StartVerifyDevice e register connect now traceId requestId connInfo verifyCb connCb isFastAuth st =
     (if \<not> as_regDataChangeListener st \<and> RetryRegTrustDataChangeListener register \<noteq> SOFTBUS_OK then (SOFTBUS_AUTH_INIT_FAIL, st)
      else let st = st\<lparr>as_regDataChangeListener := True\<rparr> in
        case AddAuthRequest e 0 (Some (verify_request now traceId requestId connInfo verifyCb connCb isFastAuth)) st of
          (waitNum, st) \<Rightarrow>
            if waitNum = 0 then (SOFTBUS_AUTH_INNER_ERR, st)
            else if waitNum > 1 then (SOFTBUS_OK, st)
            else let st = tell [Connecting requestId connInfo] st in
              if connect \<noteq> SOFTBUS_OK
              then (SOFTBUS_AUTH_CONN_FAIL, snd (FindAndDelAuthRequestByConnInfo e 1 requestId (Some connInfo) st))
              else (SOFTBUS_OK, st))"

text \<open>Whether the manager of the connection is found is an argument.\<close>

definition StartReconnectDevice ::
  "env \<Rightarrow> nat \<Rightarrow> bool \<Rightarrow> status \<Rightarrow> u64 \<Rightarrow> i64 \<Rightarrow> AuthConnInfo \<Rightarrow> u32 \<Rightarrow> bool \<times> bool \<Rightarrow> auth_state \<Rightarrow> status \<times> auth_state" where
  "StartReconnectDevice e k found connect now authId connInfo requestId connCb st =
     (if \<not> found then (SOFTBUS_AUTH_NOT_FOUND, st)
      else let request = \<lparr>rq_requestId = requestId, rq_connInfo = connInfo, rq_verifyCb = (False, False), rq_authId = authId, rq_traceId = 0,
            rq_connCb = connCb, rq_type = REQUEST_TYPE_RECONNECT, rq_addTime = now, rq_isFastAuth = True\<rparr>
        in case AddAuthRequest e k (Some request) st of
          (waitNum, st) \<Rightarrow>
            if waitNum = 0 then (SOFTBUS_ERR, st)
            else let st = tell [Connecting requestId connInfo] st in
              if connect \<noteq> SOFTBUS_OK then (SOFTBUS_AUTH_CONN_FAIL, DelAuthRequest e (k + 1) requestId st)
              else (SOFTBUS_OK, st))"

text \<open>One round of the loop of \<^verbatim>\<open>ReportAuthRequestPassed\<close>, for the request \<open>r\<close>.\<close>

definition pass_round :: "env \<Rightarrow> nat \<Rightarrow> (nat \<Rightarrow> bool) \<Rightarrow> (nat \<Rightarrow> status) \<Rightarrow> u64 \<Rightarrow> i64 \<Rightarrow> AuthRequest \<Rightarrow> auth_state \<Rightarrow> auth_state" where
  "pass_round e k found connect now authId r st =
     (if CheckAuthConnCallback (Some (rq_connCb r)) then
        let st = tell [DeviceVerifyPassed authId] st in
        if ci_type (rq_connInfo r) = AUTH_LINK_TYPE_WIFI \<or> ci_type (rq_connInfo r) = AUTH_LINK_TYPE_P2P \<or>
          ci_type (rq_connInfo r) = AUTH_LINK_TYPE_ENHANCED_P2P
        then DelAuthRequest e (k + 1) (rq_requestId r) (PerformAuthConnCallback e k (rq_requestId r) SOFTBUS_OK authId st)
        else (case StartReconnectDevice e (k + 1) (found k) (connect k) now authId (rq_connInfo r) (rq_requestId r) (rq_connCb r)
              (DelAuthRequest e k (rq_requestId r) st) of
            (s, st) \<Rightarrow> if s \<noteq> SOFTBUS_OK then tell [OnConnOpenFailed (rq_requestId r) SOFTBUS_AUTH_CONN_FAIL] st else st)
      else DelAuthRequest e (k + 1) (rq_requestId r) (PerformVerifyCallback e k (rq_requestId r) SOFTBUS_OK authId st))"

fun pass_loop ::
  "nat \<Rightarrow> env \<Rightarrow> nat \<Rightarrow> (nat \<Rightarrow> bool) \<Rightarrow> (nat \<Rightarrow> status) \<Rightarrow> u64 \<Rightarrow> i64 \<Rightarrow> AuthRequest \<Rightarrow> auth_state \<Rightarrow> auth_state option" where
  "pass_loop 0 e k found connect now authId r st = None"
| "pass_loop (Suc n) e k found connect now authId r st =
     (let st = pass_round e k found connect now authId r st in
      case FindAuthRequestByConnInfo e (k + 3) (Some (rq_connInfo r)) False st of
        (s, next) \<Rightarrow> if s = SOFTBUS_OK then pass_loop n e (k + 4) found connect now authId (the next) st else Some st)"

definition ReportAuthRequestPassed ::
  "nat \<Rightarrow> env \<Rightarrow> (nat \<Rightarrow> bool) \<Rightarrow> (nat \<Rightarrow> status) \<Rightarrow> u64 \<Rightarrow> u32 \<Rightarrow> i64 \<Rightarrow> auth_state \<Rightarrow> auth_state option" where
  "ReportAuthRequestPassed n e found connect now requestId authId st =
     (case GetAuthRequest e 0 requestId False st of
        (s, r) \<Rightarrow> if s \<noteq> SOFTBUS_OK then Some (tell [DeviceVerifyPassed authId] st)
          else pass_loop n e 1 found connect now authId (the r) st)"

fun ReportAuthRequestFailed :: "nat \<Rightarrow> env \<Rightarrow> nat \<Rightarrow> (nat \<Rightarrow> status) \<Rightarrow> u32 \<Rightarrow> status \<Rightarrow> auth_state \<Rightarrow> auth_state option" where
  "ReportAuthRequestFailed 0 e k connect requestId reason st = None"
| "ReportAuthRequestFailed (Suc n) e k connect requestId reason st =
     (case GetAuthRequest e k requestId False st of
        (s, r) \<Rightarrow>
          if s \<noteq> SOFTBUS_OK then Some st
          else let r = the r;
              st = (if CheckAuthConnCallback (Some (rq_connCb r))
                then PerformAuthConnCallback e (k + 1) (rq_requestId r) reason AUTH_INVALID_ID st
                else PerformVerifyCallback e (k + 1) (rq_requestId r) reason AUTH_INVALID_ID st);
              st = DelAuthRequest e (k + 2) (rq_requestId r) st
            in case FindAuthRequestByConnInfo e (k + 3) (Some (rq_connInfo r)) False st of
              (s, next) \<Rightarrow>
                if s \<noteq> SOFTBUS_OK then Some st
                else let next = the next; st = tell [Connecting (rq_requestId next) (rq_connInfo next)] st in
                  if connect k \<noteq> SOFTBUS_OK then ReportAuthRequestFailed n e (k + 4) connect (rq_requestId next) SOFTBUS_AUTH_CONN_FAIL st
                  else Some st)"

subsection \<open>Laws of the list\<close>

definition waits_with :: "AuthRequest \<Rightarrow> AuthRequest \<Rightarrow> bool" where
  "waits_with r item \<longleftrightarrow> rq_type item = rq_type r \<and> CompareConnInfo (Some (rq_connInfo r)) (Some (rq_connInfo item)) True"

definition expired :: "AuthRequest \<Rightarrow> AuthRequest \<Rightarrow> bool" where
  "expired r item \<longleftrightarrow> waits_with r item \<and> rq_requestId item \<noteq> rq_requestId r \<and> AUTH_REQUEST_TIMTOUR \<le> rq_addTime r - rq_addTime item"

definition same_device :: "AuthConnInfo \<Rightarrow> AuthRequest \<Rightarrow> bool" where
  "same_device c item \<longleftrightarrow> rq_type item = REQUEST_TYPE_VERIFY \<and> CompareConnInfo (Some (rq_connInfo item)) (Some c) True"

definition known_link :: "AuthConnInfo \<Rightarrow> bool" where
  "known_link c \<longleftrightarrow> 1 \<le> ci_type c \<and> ci_type c \<le> 5"

lemma str_cmp_iff: "StrCmpIgnoreCase (Some a) (Some b) = 0 \<longleftrightarrow> map ToUpperCase a = map ToUpperCase b"
  using cmp_loop_iff [of a b] by (simp add: StrCmpIgnoreCase_def)

lemma compare_self: "CompareConnInfo (Some c) (Some c) b \<longleftrightarrow> known_link c"
  by (auto simp: CompareConnInfo_def known_link_def str_cmp_iff)

lemma compare_same_link: "CompareConnInfo (Some c) (Some d) b \<Longrightarrow> ci_type c = ci_type d"
  by (auto simp: CompareConnInfo_def split: if_splits)

text \<open>Except on BLE, where either of two addresses may agree, comparing is an equivalence.\<close>

lemma compare_equivalence:
  assumes "CompareConnInfo (Some c) (Some d) b" "ci_type d \<noteq> AUTH_LINK_TYPE_BLE"
  shows "CompareConnInfo (Some x) (Some c) b \<longleftrightarrow> CompareConnInfo (Some x) (Some d) b"
  using assms by (auto simp: CompareConnInfo_def str_cmp_iff split: if_splits)

lemma same_device_cong:
  assumes "same_device d r" "ci_type d \<noteq> AUTH_LINK_TYPE_BLE"
  shows "same_device (rq_connInfo r) = same_device d"
  using compare_equivalence [of "rq_connInfo r" d True] assms by (auto simp: same_device_def fun_eq_iff)

lemma wait_loop_spec:
  "wait_loop r l = (of_nat (length (filter (waits_with r) l)), filter (\<lambda>x. \<not> expired r x) l, concat (map failed_notice (filter (expired r) l)))"
  by (induction l) (auto simp: waits_with_def expired_def not_less)

lemma add_auth_request:
  assumes "healthy e"
  shows "AddAuthRequest e k (Some r) st =
    (of_nat (length (filter (waits_with r) (as_list st @ [r]))),
     tell (concat (map failed_notice (filter (expired r) (as_list st))))
       (st\<lparr>as_list := filter (\<lambda>x. \<not> expired r x) (as_list st) @ [r]\<rparr>))"
proof -
  have "\<not> expired r r" by (simp add: expired_def)
  moreover have "SoftBusCalloc e k SIZEOF_AUTH_REQUEST" using assms by (simp add: healthy_SoftBusCalloc)
  ultimately show ?thesis using assms by (simp add: AddAuthRequest_def GetAuthRequestWaitNum_def wait_loop_spec)
qed

lemma find_as_filter: "find P l = (case filter P l of [] \<Rightarrow> None | x # _ \<Rightarrow> Some x)"
  by (induction l) auto

lemma del_request_filter:
  "distinct (map rq_requestId l) \<Longrightarrow> del_request i l = filter (\<lambda>x. rq_requestId x \<noteq> i) l"
  by (induction l) (auto simp: filter_id_conv image_iff intro!: filter_True [symmetric])

lemma filter_first_removed:
  assumes "distinct (map rq_requestId l)" "filter P l = x # xs"
  shows "filter (\<lambda>y. P y \<and> rq_requestId y \<noteq> rq_requestId x) l = xs"
proof -
  have "distinct (map rq_requestId (x # xs))" using assms distinct_map_filter [of rq_requestId l P] by simp
  then have "filter (\<lambda>y. rq_requestId y \<noteq> rq_requestId x) (x # xs) = xs" by (auto simp: filter_id_conv image_iff)
  then show ?thesis using assms(2) by (metis (no_types, lifting) filter_cong filter_filter)
qed

lemma find_request_id: "FindAuthRequestByRequestId i l = Some r \<Longrightarrow> rq_requestId r = i"
  by (auto simp: FindAuthRequestByRequestId_def find_Some_iff)

lemma find_request_mem:
  "distinct (map rq_requestId l) \<Longrightarrow> r \<in> set l \<Longrightarrow> FindAuthRequestByRequestId (rq_requestId r) l = Some r"
  by (induction l) (auto simp: FindAuthRequestByRequestId_def image_iff)

lemma find_conn_info:
  assumes "healthy e"
  shows "FindAuthRequestByConnInfo e k (Some c) False st =
    (case filter (same_device c) (as_list st) of [] \<Rightarrow> (SOFTBUS_NOT_FIND, None) | x # _ \<Rightarrow> (SOFTBUS_OK, Some x))"
  using assms by (simp add: FindAuthRequestByConnInfo_def find_as_filter same_device_def [abs_def] split: list.splits)

definition result_notice :: "status \<Rightarrow> i64 \<Rightarrow> AuthRequest \<Rightarrow> auth_event list" where
  "result_notice result authId r =
     (if rq_connCb r = (True, True) then [if result = SOFTBUS_OK then OnConnOpened (rq_requestId r) authId else OnConnOpenFailed (rq_requestId r) result]
      else if rq_verifyCb r = (True, True) then [if result = SOFTBUS_OK then OnVerifyPassed (rq_requestId r) authId else OnVerifyFailed (rq_requestId r) result]
      else [])"

lemma callbacks_usable [simp]:
  "CheckAuthConnCallback (Some p) \<longleftrightarrow> p = (True, True)" "CheckVerifyCallback (Some p) \<longleftrightarrow> p = (True, True)"
  by (cases p; simp add: CheckAuthConnCallback_def CheckVerifyCallback_def)+

lemma perform_callbacks:
  assumes "healthy e" "FindAuthRequestByRequestId i (as_list st) = Some r"
  shows "(if rq_connCb r = (True, True) then PerformAuthConnCallback e k i s a st else PerformVerifyCallback e k i s a st) = tell (result_notice s a r) st"
  using assms find_request_id [OF assms(2)]
  by (simp add: PerformAuthConnCallback_def PerformVerifyCallback_def GetAuthRequest_def result_notice_def tell_def)

lemma tell_simps [simp]:
  "as_list (tell evs st) = as_list st" "as_events (tell evs st) = as_events st @ evs"
  "as_regDataChangeListener (tell evs st) = as_regDataChangeListener st"
  "tell evs' (tell evs st) = tell (evs @ evs') st"
  "(tell evs st)\<lparr>as_list := l\<rparr> = tell evs (st\<lparr>as_list := l\<rparr>)"
  "tell [] st = st"
  by (simp_all add: tell_def)


subsection \<open>Reporting a result\<close>

text \<open>The request reported on, and the ones that wait for it.\<close>

definition told :: "AuthRequest \<Rightarrow> AuthRequest \<Rightarrow> bool" where
  "told r x \<longleftrightarrow> rq_requestId x = rq_requestId r \<or> same_device (rq_connInfo r) x"

definition waiting :: "AuthRequest \<Rightarrow> AuthRequest list \<Rightarrow> AuthRequest list" where
  "waiting r l = filter (\<lambda>x. same_device (rq_connInfo r) x \<and> rq_requestId x \<noteq> rq_requestId r) l"

lemma del_auth_request:
  assumes "healthy e" "distinct (map rq_requestId (as_list st))"
  shows "DelAuthRequest e k i st = st\<lparr>as_list := filter (\<lambda>x. rq_requestId x \<noteq> i) (as_list st)\<rparr>"
  using assms by (simp add: DelAuthRequest_def del_request_filter)

lemma waiting_filter: "filter (same_device (rq_connInfo r)) (filter (\<lambda>x. rq_requestId x \<noteq> rq_requestId r) l) = waiting r l"
  by (simp add: waiting_def conj_commute)

text \<open>The first of those that wait takes the place of the request, and the others wait for it.\<close>

lemma next_in_line:
  assumes "distinct (map rq_requestId l)" "ci_type (rq_connInfo r) \<noteq> AUTH_LINK_TYPE_BLE" "waiting r l = x # xs"
  defines "l' \<equiv> filter (\<lambda>y. rq_requestId y \<noteq> rq_requestId r) l"
  shows "distinct (map rq_requestId l')" "FindAuthRequestByRequestId (rq_requestId x) l' = Some x"
    "ci_type (rq_connInfo x) \<noteq> AUTH_LINK_TYPE_BLE" "waiting x l' = xs"
    "filter (\<lambda>y. \<not> told x y) l' = filter (\<lambda>y. \<not> told r y) l"
proof -
  show d: "distinct (map rq_requestId l')" using assms(1) by (simp add: l'_def distinct_map_filter)
  have f: "filter (same_device (rq_connInfo r)) l' = x # xs" using assms(3) by (simp only: l'_def waiting_filter)
  then have "x \<in> set (filter (same_device (rq_connInfo r)) l')" by simp
  then have x: "x \<in> set l'" "same_device (rq_connInfo r) x" by simp_all
  show "FindAuthRequestByRequestId (rq_requestId x) l' = Some x" by (rule find_request_mem [OF d x(1)])
  have c: "same_device (rq_connInfo x) = same_device (rq_connInfo r)" by (rule same_device_cong [OF x(2) assms(2)])
  show "ci_type (rq_connInfo x) \<noteq> AUTH_LINK_TYPE_BLE" using x(2) assms(2) compare_same_link by (fastforce simp: same_device_def)
  show "waiting x l' = xs" using filter_first_removed [OF d f] by (simp add: waiting_def c)
  show "filter (\<lambda>y. \<not> told x y) l' = filter (\<lambda>y. \<not> told r y) l"
  proof -
    have u: "y = x" if "y \<in> set l" "rq_requestId y = rq_requestId x" for y
      using that x(1) assms(1) by (auto simp: l'_def distinct_map dest: inj_onD)
    have "filter (\<lambda>y. rq_requestId y \<noteq> rq_requestId r \<and> \<not> told x y) l = filter (\<lambda>y. \<not> told r y) l"
      using u x(2) c by (intro filter_cong) (auto simp: told_def)
    then show ?thesis by (simp add: l'_def conj_commute)
  qed
qed


lemma nobody_waits:
  assumes "waiting r l = []"
  shows "filter (\<lambda>x. rq_requestId x \<noteq> rq_requestId r) l = filter (\<lambda>x. \<not> told r x) l"
  using assms by (intro filter_cong) (auto simp: waiting_def told_def filter_empty_conv)

lemma find_waiting:
  assumes "healthy e"
  shows "FindAuthRequestByConnInfo e k (Some (rq_connInfo r)) False
      (tell evs (st\<lparr>as_list := filter (\<lambda>x. rq_requestId x \<noteq> rq_requestId r) (as_list st)\<rparr>)) =
    (case waiting r (as_list st) of [] \<Rightarrow> (SOFTBUS_NOT_FIND, None) | x # _ \<Rightarrow> (SOFTBUS_OK, Some x))"
  using assms by (simp add: find_conn_info waiting_def conj_commute)

lemma failed_round:
  fixes reason :: status
  assumes "healthy e" "distinct (map rq_requestId (as_list st))" "FindAuthRequestByRequestId (rq_requestId r) (as_list st) = Some r"
  defines "st' \<equiv> tell (result_notice reason AUTH_INVALID_ID r) (st\<lparr>as_list := filter (\<lambda>x. rq_requestId x \<noteq> rq_requestId r) (as_list st)\<rparr>)"
  shows "ReportAuthRequestFailed (Suc n) e k connect (rq_requestId r) reason st =
    (case waiting r (as_list st) of
       [] \<Rightarrow> Some st'
     | x # xs \<Rightarrow>
         let st'' = tell [Connecting (rq_requestId x) (rq_connInfo x)] st' in
         if connect k \<noteq> SOFTBUS_OK then ReportAuthRequestFailed n e (k + 4) connect (rq_requestId x) SOFTBUS_AUTH_CONN_FAIL st'' else Some st'')"
proof -
  have g: "GetAuthRequest e k (rq_requestId r) False st = (SOFTBUS_OK, Some r)" using assms(1,3) by (simp add: GetAuthRequest_def)
  note p = perform_callbacks [OF assms(1,3), of "k + 1" reason AUTH_INVALID_ID]
  have d: "DelAuthRequest e (k + 2) (rq_requestId r) (tell (result_notice reason AUTH_INVALID_ID r) st) = st'"
    using assms(1,2) by (simp add: del_auth_request st'_def)
  note f = find_waiting [OF assms(1), of "k + 3" r "result_notice reason AUTH_INVALID_ID r" st, folded st'_def]
  show ?thesis
    by (simp only: ReportAuthRequestFailed.simps(2) g prod.case option.sel Let_def callbacks_usable simp_thms if_False p d f)
      (simp split: list.split)
qed

lemma report_failed:
  assumes "healthy e" "\<And>k. connect k \<noteq> SOFTBUS_OK" "distinct (map rq_requestId (as_list st))"
    "FindAuthRequestByRequestId (rq_requestId r) (as_list st) = Some r"
    "ci_type (rq_connInfo r) \<noteq> AUTH_LINK_TYPE_BLE" "length (waiting r (as_list st)) < n"
  shows "ReportAuthRequestFailed n e k connect (rq_requestId r) reason st =
    Some (tell (result_notice reason AUTH_INVALID_ID r @
        concat (map (\<lambda>x. Connecting (rq_requestId x) (rq_connInfo x) # result_notice SOFTBUS_AUTH_CONN_FAIL AUTH_INVALID_ID x) (waiting r (as_list st))))
      (st\<lparr>as_list := filter (\<lambda>x. \<not> told r x) (as_list st)\<rparr>))"
  using assms(3-)
proof (induction n arbitrary: k r reason st)
  case (Suc n)
  note round = failed_round [OF assms(1) Suc.prems(1,2)]
  show ?case
  proof (cases "waiting r (as_list st)")
    case Nil
    then show ?thesis by (simp only: round nobody_waits list.simps concat.simps append_Nil2)
  next
    case (Cons x xs)
    note nx = next_in_line [OF Suc.prems(1,3) Cons]
    have "length xs < n" using Suc.prems(4) Cons by simp
    then show ?thesis
      using assms(2) nx Cons by (simp only: round list.simps Let_def if_True simp_thms) (subst Suc.IH; simp)
  qed
qed simp

definition ip_link :: "AuthConnInfo \<Rightarrow> bool" where
  "ip_link c \<longleftrightarrow> ci_type c = AUTH_LINK_TYPE_WIFI \<or> ci_type c = AUTH_LINK_TYPE_P2P \<or> ci_type c = AUTH_LINK_TYPE_ENHANCED_P2P"

definition passed_notice :: "i64 \<Rightarrow> AuthRequest \<Rightarrow> auth_event list" where
  "passed_notice authId r = (if rq_connCb r = (True, True) then [DeviceVerifyPassed authId] else []) @ result_notice SOFTBUS_OK authId r"

lemma pass_round_ip:
  assumes "healthy e" "distinct (map rq_requestId (as_list st))" "FindAuthRequestByRequestId (rq_requestId r) (as_list st) = Some r"
    "ip_link (rq_connInfo r)"
  shows "pass_round e k found connect now authId r st =
    tell (passed_notice authId r) (st\<lparr>as_list := filter (\<lambda>x. rq_requestId x \<noteq> rq_requestId r) (as_list st)\<rparr>)"
proof (cases "rq_connCb r = (True, True)")
  case True
  have "FindAuthRequestByRequestId (rq_requestId r) (as_list (tell [DeviceVerifyPassed authId] st)) = Some r" using assms(3) by simp
  from perform_callbacks [OF assms(1) this, of k SOFTBUS_OK authId] show ?thesis
    using True assms by (simp add: pass_round_def ip_link_def Let_def passed_notice_def del_auth_request)
next
  case False
  with perform_callbacks [OF assms(1,3), of k SOFTBUS_OK authId] show ?thesis
    using assms by (simp add: pass_round_def passed_notice_def del_auth_request)
qed

lemma pass_loop_ip:
  assumes "healthy e" "distinct (map rq_requestId (as_list st))" "FindAuthRequestByRequestId (rq_requestId r) (as_list st) = Some r"
    "ip_link (rq_connInfo r)" "length (waiting r (as_list st)) < n"
  shows "pass_loop n e k found connect now authId r st =
    Some (tell (concat (map (passed_notice authId) (r # waiting r (as_list st)))) (st\<lparr>as_list := filter (\<lambda>x. \<not> told r x) (as_list st)\<rparr>))"
  using assms(2-)
proof (induction n arbitrary: k r st)
  case (Suc n)
  note round = pass_loop.simps(2) pass_round_ip [OF assms(1) Suc.prems(1,2,3)] Let_def find_waiting [OF assms(1)]
  show ?case
  proof (cases "waiting r (as_list st)")
    case Nil
    then show ?thesis by (simp only: round list.case prod.case) (simp add: nobody_waits)
  next
    case (Cons x xs)
    have "ci_type (rq_connInfo r) \<noteq> AUTH_LINK_TYPE_BLE" using Suc.prems(3) by (auto simp: ip_link_def)
    note nx = next_in_line [OF Suc.prems(1) this Cons]
    have "x \<in> set (waiting r (as_list st))" using Cons by simp
    then have "ip_link (rq_connInfo x)"
      using Suc.prems(3) compare_same_link by (fastforce simp: waiting_def same_device_def ip_link_def)
    moreover have "length xs < n" using Suc.prems(4) Cons by simp
    ultimately show ?thesis using nx Cons by (simp add: round) (subst Suc.IH; simp)
  qed
qed simp


lemma waiting_shorter:
  assumes "FindAuthRequestByRequestId i l = Some r"
  shows "length (waiting r l) < length l"
proof -
  have "r \<in> set l" using assms by (auto simp: FindAuthRequestByRequestId_def find_Some_iff)
  then show ?thesis unfolding waiting_def by (rule length_filter_less) simp
qed

text \<open>Three requests over WiFi: the first two for one device, the third for another.\<close>

definition sample_addr :: "bytes \<Rightarrow> AuthConnInfo" where
  "sample_addr ip = \<lparr>ci_type = AUTH_LINK_TYPE_WIFI, ci_brMac = [], ci_protocol = 0, ci_bleMac = [], ci_deviceIdHash = [], ci_psm = 0,
     ci_ip = ip, ci_port = 6000, ci_authId = 0, ci_moduleId = 0, ci_udid = [], ci_peerUid = []\<rparr>"

definition sample_requests :: auth_state where
  "sample_requests = \<lparr>as_list = [verify_request 1000 0 1 (sample_addr [49]) None (Some (True, True)) False,
     verify_request 2000 0 2 (sample_addr [49]) (Some (True, True)) None False,
     verify_request 3000 0 3 (sample_addr [50]) (Some (True, True)) None False], as_events = [], as_regDataChangeListener = True\<rparr>"

lemmas sample_request_defs = sample_requests_def sample_addr_def verify_request_def FindAuthRequestByRequestId_def ip_link_def
  waits_with_def expired_def known_link_def CompareConnInfo_def

text \<open>
  C19. A passed verification reaches everyone who waits. On a link with an address and a port (WiFi or
  P2P), when the requests have different numbers, \<^verbatim>\<open>ReportAuthRequestPassed\<close> returns: it tells the
  request it is called for and then, in the order of the list, every verify request for the same
  device, each once by the callback it has, and leaves exactly the other requests in the list.
\<close>

theorem auth_passed_reaches_all:
  assumes "healthy e" "distinct (map rq_requestId (as_list st))" "FindAuthRequestByRequestId requestId (as_list st) = Some r"
    "ip_link (rq_connInfo r)" "length (as_list st) \<le> n"
  shows "ReportAuthRequestPassed n e found connect now requestId authId st =
    Some (tell (concat (map (passed_notice authId) (r # waiting r (as_list st)))) (st\<lparr>as_list := filter (\<lambda>x. \<not> told r x) (as_list st)\<rparr>))"
proof -
  have r: "rq_requestId r = requestId" by (rule find_request_id [OF assms(3)])
  have "GetAuthRequest e 0 requestId False st = (SOFTBUS_OK, Some r)" using assms(1,3) by (simp add: GetAuthRequest_def)
  moreover have "length (waiting r (as_list st)) < n" using waiting_shorter [OF assms(3)] assms(5) by simp
  ultimately show ?thesis using pass_loop_ip [OF assms(1,2) _ assms(4)] assms(3) r by (simp add: ReportAuthRequestPassed_def)
qed

theorem auth_passed_reaches_all_witness:
  "ReportAuthRequestPassed 3 ideal_env (\<lambda>_. True) (\<lambda>_. 0) 4000 1 7 sample_requests =
    Some (sample_requests\<lparr>as_list := [verify_request 3000 0 3 (sample_addr [50]) (Some (True, True)) None False],
      as_events := [DeviceVerifyPassed 7, OnConnOpened 1 7, OnVerifyPassed 2 7]\<rparr>)"
  by (subst auth_passed_reaches_all [where r = "verify_request 1000 0 1 (sample_addr [49]) None (Some (True, True)) False"])
    (simp_all add: sample_request_defs passed_notice_def result_notice_def waiting_def told_def same_device_def tell_def)

text \<open>
  C20. A failed verification reaches everyone who waits. On every link but BLE, when the requests have
  different numbers and no new connection can be started, \<^verbatim>\<open>ReportAuthRequestFailed\<close> returns: it tells
  the request it is called for the reason, and then for every verify request for the same device, in
  the order of the list, tries to connect and tells it of the failure; the other requests are left.
  When the first new connection is started, only the request it is called for is told and removed.
\<close>

theorem auth_failed_reaches_all:
  assumes "healthy e" "distinct (map rq_requestId (as_list st))" "FindAuthRequestByRequestId requestId (as_list st) = Some r"
    "ci_type (rq_connInfo r) \<noteq> AUTH_LINK_TYPE_BLE" "length (as_list st) \<le> n"
  shows "((\<forall>k. connect k \<noteq> SOFTBUS_OK) \<longrightarrow>
      ReportAuthRequestFailed n e k connect requestId reason st =
        Some (tell (result_notice reason AUTH_INVALID_ID r @
            concat (map (\<lambda>x. Connecting (rq_requestId x) (rq_connInfo x) # result_notice SOFTBUS_AUTH_CONN_FAIL AUTH_INVALID_ID x)
              (waiting r (as_list st))))
          (st\<lparr>as_list := filter (\<lambda>x. \<not> told r x) (as_list st)\<rparr>))) \<and>
    (connect k = SOFTBUS_OK \<longrightarrow>
      ReportAuthRequestFailed n e k connect requestId reason st =
        Some (tell (result_notice reason AUTH_INVALID_ID r @
            map (\<lambda>x. Connecting (rq_requestId x) (rq_connInfo x)) (take 1 (waiting r (as_list st))))
          (st\<lparr>as_list := filter (\<lambda>x. rq_requestId x \<noteq> requestId) (as_list st)\<rparr>)))"
proof (intro conjI impI)
  have r: "rq_requestId r = requestId" by (rule find_request_id [OF assms(3)])
  have n: "length (waiting r (as_list st)) < n" using waiting_shorter [OF assms(3)] assms(5) by simp
  note f = assms(3) [folded r]
  show "ReportAuthRequestFailed n e k connect requestId reason st = Some (tell (result_notice reason AUTH_INVALID_ID r @
      concat (map (\<lambda>x. Connecting (rq_requestId x) (rq_connInfo x) # result_notice SOFTBUS_AUTH_CONN_FAIL AUTH_INVALID_ID x)
        (waiting r (as_list st)))) (st\<lparr>as_list := filter (\<lambda>x. \<not> told r x) (as_list st)\<rparr>))" if "\<forall>k. connect k \<noteq> SOFTBUS_OK"
    using report_failed [OF assms(1) _ assms(2) f assms(4) n] that unfolding r by blast
  obtain m where m: "n = Suc m" using n by (cases n) auto
  show "ReportAuthRequestFailed n e k connect requestId reason st = Some (tell (result_notice reason AUTH_INVALID_ID r @
      map (\<lambda>x. Connecting (rq_requestId x) (rq_connInfo x)) (take 1 (waiting r (as_list st))))
      (st\<lparr>as_list := filter (\<lambda>x. rq_requestId x \<noteq> requestId) (as_list st)\<rparr>))" if "connect k = SOFTBUS_OK"
    using failed_round [OF assms(1,2) f, where n = m and k = k and connect = connect and reason = reason] that
    unfolding m r by (simp add: Let_def split: list.split)
qed

theorem auth_failed_reaches_all_witness:
  "ReportAuthRequestFailed 3 ideal_env 0 (\<lambda>_. - 1) 1 (- 5) sample_requests =
    Some (sample_requests\<lparr>as_list := [verify_request 3000 0 3 (sample_addr [50]) (Some (True, True)) None False],
      as_events := [OnConnOpenFailed 1 (- 5), Connecting 2 (sample_addr [49]), OnVerifyFailed 2 SOFTBUS_AUTH_CONN_FAIL]\<rparr>)"
  by (subst auth_failed_reaches_all [where r = "verify_request 1000 0 1 (sample_addr [49]) None (Some (True, True)) False",
      THEN conjunct1, rule_format])
    (simp_all add: sample_request_defs result_notice_def waiting_def told_def same_device_def tell_def)

text \<open>
  C35. A verification that waits for nobody. When every request that waits with a new one is older than
  thirty seconds and there is at least one, \<^verbatim>\<open>StartVerifyDevice\<close> fails and removes all of them, but
  still counts them: it returns success without connecting, and the new request is the only one left
  for its device, so that no result will ever be reported to it.
\<close>

theorem verify_waits_for_nobody:
  assumes "healthy e" "as_regDataChangeListener st" "length (as_list st) < 2 ^ 32 - 1" "known_link c"
    "filter (waits_with (verify_request now tr i c vcb ccb fast)) (as_list st) = olds" "olds \<noteq> []"
    "\<forall>x\<in>set olds. expired (verify_request now tr i c vcb ccb fast) x"
  shows "\<exists>st'. StartVerifyDevice e register connect now tr i c vcb ccb fast st = (SOFTBUS_OK, st') \<and>
    filter (waits_with (verify_request now tr i c vcb ccb fast)) (as_list st') = [verify_request now tr i c vcb ccb fast] \<and>
    as_events st' = as_events st @ concat (map failed_notice olds)"
proof -
  let ?r = "verify_request now tr i c vcb ccb fast"
  have "waits_with ?r ?r" using assms(4) by (simp add: waits_with_def compare_self verify_request_def)
  moreover have e: "filter (expired ?r) (as_list st) = olds"
    using assms(5,7) by (auto simp: expired_def intro!: filter_cong)
  moreover have "filter (waits_with ?r) (filter (\<lambda>x. \<not> expired ?r x) (as_list st)) = []"
    using assms(5,7) by (auto simp: filter_empty_conv)
  moreover have "1 < (of_nat (Suc (length olds)) :: u32)"
  proof -
    have "Suc (length olds) < 2 ^ 32" using assms(3,5) length_filter_le [of "waits_with ?r" "as_list st"] by simp
    then have "unat (of_nat (Suc (length olds)) :: u32) = Suc (length olds)" by (simp only: unat_of_nat) (simp add: take_bit_nat_eq_self)
    moreover have "0 < length olds" using assms(6) by simp
    ultimately show ?thesis by (simp only: word_less_nat_alt) simp
  qed
  ultimately show ?thesis using assms(1,2,5) by (auto simp: StartVerifyDevice_def add_auth_request Let_def)
qed

theorem verify_waits_for_nobody_witness:
  "\<exists>st'. StartVerifyDevice ideal_env (\<lambda>_. 0) 0 60000 0 4 (sample_addr [49]) (Some (True, True)) None False sample_requests = (SOFTBUS_OK, st') \<and>
    filter (waits_with (verify_request 60000 0 4 (sample_addr [49]) (Some (True, True)) None False)) (as_list st') =
      [verify_request 60000 0 4 (sample_addr [49]) (Some (True, True)) None False] \<and>
    as_events st' = as_events sample_requests @ concat (map failed_notice (take 2 (as_list sample_requests)))"
  by (rule verify_waits_for_nobody) (simp_all add: sample_request_defs)


text \<open>A request on an unknown link stays in the list although 0, a failure, is returned.\<close>

lemma unknown_link_added_as_failure:
  assumes "healthy e" "\<not> known_link (rq_connInfo r)"
  shows "fst (AddAuthRequest e k (Some r) st) = 0" "r \<in> set (as_list (snd (AddAuthRequest e k (Some r) st)))"
proof -
  have "\<not> waits_with r x" for x using assms(2) by (auto simp: waits_with_def known_link_def CompareConnInfo_def)
  then show "fst (AddAuthRequest e k (Some r) st) = 0" by (simp add: add_auth_request [OF assms(1)])
qed (simp add: add_auth_request [OF assms(1)])

text \<open>A clock that cannot be read gives 0, and the difference wraps: whoever waits has expired.\<close>

lemma clock_failure_expires:
  assumes "waits_with r x" "rq_requestId x \<noteq> rq_requestId r" "rq_addTime r = 0" "0 < rq_addTime x" "rq_addTime x < 2 ^ 63"
  shows "expired r x"
proof -
  have u: "0 < uint (rq_addTime x)" "uint (rq_addTime x) < 2 ^ 63" using assms(4,5) by (simp_all add: word_less_def)
  then have "uint (- rq_addTime x) = 2 ^ 64 - uint (rq_addTime x)"
    by (simp add: uint_word_ariths zmod_zminus1_eq_if)
  then have "30000 \<le> - rq_addTime x" using u by (simp add: word_le_def)
  then show ?thesis using assms by (simp add: expired_def)
qed


end
