(* ===== verification/Spec2Isabelle.thy ===== *)
theory Spec2Isabelle
  imports Softbus_Prelude Softbus_Bitmap Lnn_Capability Seq_Verify Lock_Free_Queue
    Queue_Threads Conn_Common Send_Queue Pkt_Head Br_Frame
    Br_Pending Br_Connection Looper Lnn_Map Softbus_Utils
    Lnn_Ledger Lnn_Ledger_Laws Lnn_Device_Type Lnn_Ledger_Keys Auth_Session_Key
    Auth_Request
begin

text \<open>
  A verification development for DSoftBus, the soft bus of OpenHarmony: a C service that finds nearby
  devices, connects them over Bluetooth, Wi-Fi and Ethernet, and lets applications send data between
  them. The paths below are paths under \<^verbatim>\<open>src/\<close>.

  \<^bold>\<open>The program and its parts.\<close> The service is layered. \<^emph>\<open>Adapters\<close> wrap the operating system.
  \<^emph>\<open>Common\<close> code (\<^verbatim>\<open>core/common\<close>) has the message loop every module posts its work to, the lock-free
  queue, sequence verification, bitmaps and conversions. \<^emph>\<open>Connections\<close> (\<^verbatim>\<open>core/connection\<close>) carry
  packets: a transport puts outgoing packets into a send queue, a thread takes them out by priority
  and writes them to the link, and a read loop cuts the incoming bytes back into packets. The \<^emph>\<open>bus
  centre\<close> (\<^verbatim>\<open>core/bus_center\<close>) keeps the ledger of known devices in hash maps and reports to
  applications who is online. \<^emph>\<open>Discovery\<close>, \<^emph>\<open>authentication\<close>, \<^emph>\<open>transmission\<close>, the client library and
  the protocol stack nstackx stand on these.

  \<^bold>\<open>Conventions.\<close> Machine integers are words of their width. Behaviour that C leaves undefined is
  \<open>Undef\<close> of the type \<open>outcome\<close>, and absence of undefined behaviour is a theorem wherever it is one. A
  pointer that may be null is an option. What can fail from outside (allocation, locks, the copy
  functions of the bounds checking library) is given by the record \<open>env\<close>, so that every error path is a
  branch; \<open>securec\<close> says that the copy functions accept exactly what fits and \<open>healthy\<close> that nothing
  fails. Devices, clocks, hashes and the JSON library are arguments of the definitions that use them.

  \<^bold>\<open>Theories.\<close>

  \<^item> \<open>Softbus_Prelude\<close>: types, status codes, \<open>outcome\<close>, \<open>env\<close>, and the memory adapter
    \<^verbatim>\<open>adapter/common/kernel/posix/softbus_adapter_mem.c\<close>, with the lemmas the components share.
  \<^item> \<open>Softbus_Bitmap\<close> (\<^verbatim>\<open>core/common/bitmap/softbus_bitmap.c\<close>) and \<open>Lnn_Capability\<close>
    (\<^verbatim>\<open>lnn_net_capability.c\<close>, \<^verbatim>\<open>lnn_feature_capability.c\<close>): flags in words. One locale, \<open>bit_flags\<close>, is
    interpreted on all three. The range operations act on the complement of the range they are given.
  \<^item> \<open>Seq_Verify\<close> (\<^verbatim>\<open>softbus_sequence_verification.c\<close>): the window of received sequence numbers. The case
    analysis on signs is the check of a distance modulo \<open>2\<^sup>3\<^sup>2\<close>; replays are rejected but for the lower
    edge, in-order traffic is accepted for ever, and one reordering can lock a sender out.
  \<^item> \<open>Lock_Free_Queue\<close> (\<^verbatim>\<open>softbus_queue.h\<close>, \<^verbatim>\<open>softbus_queue.c\<close>): the ring queue used by one producer and
    one consumer is a bounded queue (locale \<open>bounded_fifo\<close>), its counters wrapping around.
    \<open>Queue_Threads\<close>: its multi-producer and multi-consumer operations, one shared access per step; under
    every interleaving of any number of threads values leave in the order of the tickets they entered
    with, no slot is read or overwritten wrongly, and some thread can always move.
  \<^item> \<open>Conn_Common\<close> (\<^verbatim>\<open>softbus_conn_common.c\<close>): limited buffers, waiting for room, the choice of the next
    message. \<open>Send_Queue\<close> (\<^verbatim>\<open>softbus_conn_ble_send_queue.c\<close>, \<^verbatim>\<open>softbus_conn_br_send_queue.c\<close>): the two send
    queues through one locale, \<open>message_service\<close>: no message is lost, duplicated or overtaken by one of
    the same process and priority, and no wake-up is missed.
  \<^item> \<open>Pkt_Head\<close> (\<^verbatim>\<open>softbus_adapter_socket.c\<close>, \<^verbatim>\<open>softbus_conn_manager.h\<close>): byte order and the packet head on the
    wire. \<open>Br_Frame\<close> (\<^verbatim>\<open>softbus_conn_br_trans.c\<close>): the read loop and the send loop of a BR connection.
    \<open>Br_Pending\<close> (\<^verbatim>\<open>softbus_conn_br_pending_packet.c\<close>): acknowledgements waited for. \<open>Br_Connection\<close>
    (\<^verbatim>\<open>softbus_conn_br_connection.c\<close>, \<^verbatim>\<open>softbus_conn_br_manager.c\<close>): connection objects, their identifiers,
    the negotiation of references before a connection is closed, flow control and the sending of one
    message, with everything it calls.
  \<^item> \<open>Looper\<close> (\<^verbatim>\<open>core/common/message_handler/message_handler.c\<close>): the message loop, section by section
    between its locks. Messages are handled once, in order of due time and posting, never early; the
    insertion is the stable sort of the library; a started looper is never used after it is freed.
  \<^item> \<open>Lnn_Map\<close> (\<^verbatim>\<open>core/bus_center/utils/src/lnn_map.c\<close>): the hash map refines a finite function (locale
    \<open>keyed_table\<close>) through growing, failures and iteration.
  \<^item> \<open>Softbus_Utils\<close> (\<^verbatim>\<open>softbus_utils.c\<close>) and \<open>Lnn_Device_Type\<close> (\<^verbatim>\<open>lnn_device_info.c\<close>): conversions and their
    round trips.
  \<^item> \<open>Lnn_Ledger\<close> (\<^verbatim>\<open>lnn_distributed_net_ledger.c\<close>, \<^verbatim>\<open>lnn_node_info.c\<close>, \<^verbatim>\<open>lnn_connection_addr_utils.c\<close>): the ledger
    of remote devices over \<open>Lnn_Map\<close>. \<open>Lnn_Ledger_Laws\<close>: every history of operations, whatever fails in
    it, is free of undefined behaviour and keeps the ledger well formed, and the reports to
    applications agree with it. \<open>Lnn_Ledger_Keys\<close>: the fields of a node by key, their bounds and their
    round trip.

  \<^item> \<open>Auth_Session_Key\<close> (\<^verbatim>\<open>core/authentication/src/auth_session_key.c\<close>, \<^verbatim>\<open>softbus_adapter_crypto.c\<close>): the keys
    shared with a device and the messages encrypted with them, over the cipher of the library as a
    parameter: the peer reads what was sent, only messages made with the key are accepted, and the list
    is a queue of ten keys. \<open>Auth_Request\<close> (\<^verbatim>\<open>auth_request.c\<close>, and from \<^verbatim>\<open>auth_manager.c\<close> the start of a
    verification and the report of its result): the requests that wait for one verification; a result
    reaches each of them once, but a request that replaces expired ones is never served.

  This theory joins the sending and the receiving half of a BR link.

  \<^bold>\<open>Bounds and fuel.\<close> Loops that a driver or a peer can keep going take fuel: the read loop, the send
  loop, the search for a free connection identifier, iteration over a map, the report of a result to
  the requests that wait. Their theorems give the
  fuel that suffices, from the length of the stream, of the packet, the number of connections, entries
  or requests, and state that the loop returns. The counters of the lock-free queue are 32 bit words and
  may wrap; the theorems on threads cover rings of up to \<open>2\<^sup>1\<^sup>3\<close> slots, which is more than the code creates, and
  runs that enqueue up to \<open>2\<^sup>3\<^sup>2 - 2\<^sup>1\<^sup>3\<close> values.
  The hash map holds fewer than \<open>2\<^sup>3\<^sup>2 - 1\<close> nodes; the code has no check for more.

  \<^bold>\<open>Not modelled.\<close> Logs, dumps and statistics, which do not affect the state modelled. The wrappers of
  the operating system, of Bluetooth, Wi-Fi and the crypto libraries, whose behaviour is not in the
  sources and which are parameters where the modelled code calls them. BLE and TCP connections,
  Wi-Fi direct, discovery, the state machine of authentication, the net builder, lanes and heartbeat, transmission, the
  client library and the inter-process stubs: state machines that call each other and those wrappers
  at every step, whose models would consist of parameters until the layers below them are modelled;
  the layers below, up to the BR link, the ledger, session keys and requests, are what this development has. The protocol
  stack nstackx with FillP is a program of its own. Of the BR manager the machine that connects
  devices and queues requests is left out, of the ledger the lookups by hash, of the utilities the
  allocation of list heads and the start of the timer, of session keys their timed renewal, and of the
  authentication manager its table of managers and the data it receives.
\<close>

subsection \<open>From sender to receiver\<close>

text \<open>
  One device packs packets and writes them to a link, one after the other until a write fails, as the
  send loop does; another device reads the link.
\<close>

definition packed :: "bool \<Rightarrow> frame \<Rightarrow> bytes" where
  "packed le f = head_bytes le (the (PackConnPktHead le (Some (fst f)))) @ snd f"

fun send_frames :: "bool \<Rightarrow> 's spp_write \<Rightarrow> u32 \<Rightarrow> nat \<Rightarrow> frame list \<Rightarrow> 's \<Rightarrow> (status \<times> 's) outcome option" where
  "send_frames le write mtu n [] s = Some (Done (SOFTBUS_OK, s))"
| "send_frames le write mtu n (f # fs) s =
     (case BrTransSend write mtu n (packed le f) s of
        Some (Done (st, s')) \<Rightarrow> if st = SOFTBUS_OK then send_frames le write mtu n fs s' else Some (Done (st, s'))
      | r \<Rightarrow> r)"

lemma packed_wire: "packed le f = wire f"
  using pack_wire [of le "fst f"] by (auto simp: packed_def wire_def)

lemma empty_partial:
  assumes "24 \<le> unat cap"
  shows "partial_frame cap []"
proof -
  have "frame_ok cap (sample_frame [])" using assms by (simp add: frame_ok_def sample_frame_def)
  then show ?thesis unfolding partial_frame_def by (intro exI [of _ "sample_frame []"]) (simp add: length_wire)
qed

lemma send_frames_out:
  assumes "spp_sink write out" "0 < unat mtu"
  shows "\<lbrakk>list_all (frame_ok cap) fs; 24 \<le> unat cap; unat cap < n\<rbrakk> \<Longrightarrow> \<exists>st s' k part. send_frames le write mtu n fs s = Some (Done (st, s')) \<and>
     out s' = out s @ concat (map wire (take k fs)) @ part \<and> partial_frame cap part \<and>
     (st = SOFTBUS_OK \<and> take k fs = fs \<and> part = [] \<or> st = SOFTBUS_CONN_BR_UNDERLAY_WRITE_FAIL \<and> k < length fs)"
proof (induction fs arbitrary: s)
  case Nil
  then show ?case using empty_partial by auto
next
  case (Cons f fs)
  have f: "frame_ok cap f" "length (wire f) < n" using Cons.prems by (auto simp: frame_ok_def length_wire)
  from send_pieces [OF assms f(2), of s] obtain st s' i where
    s: "BrTransSend write mtu n (wire f) s = Some (Done (st, s'))" "out s' = out s @ take i (wire f)"
    and st: "st = SOFTBUS_OK \<and> length (wire f) \<le> i \<or> st = SOFTBUS_CONN_BR_UNDERLAY_WRITE_FAIL \<and> i < length (wire f)" by blast
  show ?case
  proof (cases "st = SOFTBUS_OK")
    case True
    from Cons.IH [of s'] Cons.prems obtain st2 s2 k part where
      "send_frames le write mtu n fs s' = Some (Done (st2, s2))" "out s2 = out s' @ concat (map wire (take k fs)) @ part"
      "partial_frame cap part"
      "st2 = SOFTBUS_OK \<and> take k fs = fs \<and> part = [] \<or> st2 = SOFTBUS_CONN_BR_UNDERLAY_WRITE_FAIL \<and> k < length fs" by auto
    then show ?thesis using s st True by (intro exI [of _ st2] exI [of _ s2] exI [of _ "Suc k"] exI [of _ part]) (auto simp: packed_wire)
  next
    case False
    then have "i < length (wire f)" "st = SOFTBUS_CONN_BR_UNDERLAY_WRITE_FAIL" using st by auto
    moreover from this f(1) have "partial_frame cap (take i (wire f))" unfolding partial_frame_def by (intro exI [of _ f]) simp
    ultimately show ?thesis
      using s False by (intro exI [of _ st] exI [of _ s'] exI [of _ 0] exI [of _ "take i (wire f)"]) (simp add: packed_wire)
  qed
qed

text \<open>
  C3. What arrives over a BR link is what was sent. A device of any byte order sends packets over a
  link that takes them in pieces of any size and may break at any point; a little endian device reads
  what the link delivers, in pieces of any size. Both return. The receiver is handed a beginning of the
  sequence of packets, each whole and unchanged, and unless reading failed it is handed exactly the
  packets the sender had sent when it stopped: all of them when the sender reports success.
\<close>

theorem br_link_end_to_end:
  assumes "spp_sink write out" "mtu \<noteq> 0" "out s = []" "list_all (frame_ok cap) fs" "24 \<le> unat cap" "unat cap < n" "unat cap \<le> MAX_MALLOC_SIZE"
    and "spp_stream read rem" "healthy e"
  shows "\<exists>st s' k. send_frames le write mtu n fs s = Some (Done (st, s')) \<and> (st = SOFTBUS_OK \<and> take k fs = fs \<or> st = SOFTBUS_CONN_BR_UNDERLAY_WRITE_FAIL \<and> k < length fs) \<and>
     (\<forall>t m j. rem t = out s' \<and> length (rem t) < m \<and> length fs < j \<longrightarrow>
       (\<exists>status i t'. LoopRead True e read cap m j t = Some (status, map wire (take i (take k fs)), t') \<and>
         (status = SOFTBUS_CONN_BR_UNDERLAY_READ_FAIL \<or> status = SOFTBUS_CONN_BR_UNDERLAY_SOCKET_CLOSED \<and> take i (take k fs) = take k fs)))"
proof -
  from send_frames_out [OF assms(1) _ assms(4-6), of mtu le s] assms(2,3) obtain st s' k part where
    s: "send_frames le write mtu n fs s = Some (Done (st, s'))" "out s' = concat (map wire (take k fs)) @ part" "partial_frame cap part"
    and st: "st = SOFTBUS_OK \<and> take k fs = fs \<and> part = [] \<or> st = SOFTBUS_CONN_BR_UNDERLAY_WRITE_FAIL \<and> k < length fs"
    by (auto simp: unat_gt_0)
  have "list_all (frame_ok cap) (take k fs)" using assms(4) by (auto simp: list_all_iff dest: in_set_takeD)
  then have "\<exists>status i t'. LoopRead True e read cap m j t = Some (status, map wire (take i (take k fs)), t') \<and>
      (status = SOFTBUS_CONN_BR_UNDERLAY_READ_FAIL \<or> status = SOFTBUS_CONN_BR_UNDERLAY_SOCKET_CLOSED \<and> take i (take k fs) = take k fs)"
    if t: "rem t = out s'" "length (rem t) < m" "length fs < j" for t m j
    by (rule loop_read_all [OF assms(8,9,7) _ s(3)]) (use t s(2) in simp_all)
  then show ?thesis using s(1) st by blast
qed

theorem br_link_end_to_end_witness:
  "\<exists>st s' k. send_frames False (chunk_write 5) 11 100 [sample_frame [1, 2, 3], sample_frame []] [] = Some (Done (st, s')) \<and>
     (st = SOFTBUS_OK \<and> take k [sample_frame [1, 2, 3], sample_frame []] = [sample_frame [1, 2, 3], sample_frame []] \<or>
      st = SOFTBUS_CONN_BR_UNDERLAY_WRITE_FAIL \<and> k < length [sample_frame [1, 2, 3], sample_frame []]) \<and>
     (\<exists>status i t'. LoopRead True ideal_env (chunk_read 7) 40 (Suc (length s')) 3 s' =
         Some (status, map wire (take i (take k [sample_frame [1, 2, 3], sample_frame []])), t') \<and>
       (status = SOFTBUS_CONN_BR_UNDERLAY_READ_FAIL \<or> status = SOFTBUS_CONN_BR_UNDERLAY_SOCKET_CLOSED \<and>
         take i (take k [sample_frame [1, 2, 3], sample_frame []]) = take k [sample_frame [1, 2, 3], sample_frame []]))"
proof -
  have f: "list_all (frame_ok 40) [sample_frame [1, 2, 3], sample_frame []]" by (simp add: sample_frame_ok)
  obtain st s' k where "send_frames False (chunk_write 5) 11 100 [sample_frame [1, 2, 3], sample_frame []] [] = Some (Done (st, s'))"
    "st = SOFTBUS_OK \<and> take k [sample_frame [1, 2, 3], sample_frame []] = [sample_frame [1, 2, 3], sample_frame []] \<or>
      st = SOFTBUS_CONN_BR_UNDERLAY_WRITE_FAIL \<and> k < length [sample_frame [1, 2, 3], sample_frame []]"
    and r: "\<forall>t m j. t = s' \<and> length t < m \<and> length [sample_frame [1, 2, 3], sample_frame []] < j \<longrightarrow>
      (\<exists>status i t'. LoopRead True ideal_env (chunk_read 7) 40 m j t = Some (status, map wire (take i (take k [sample_frame [1, 2, 3], sample_frame []])), t') \<and>
       (status = SOFTBUS_CONN_BR_UNDERLAY_READ_FAIL \<or> status = SOFTBUS_CONN_BR_UNDERLAY_SOCKET_CLOSED \<and>
         take i (take k [sample_frame [1, 2, 3], sample_frame []]) = take k [sample_frame [1, 2, 3], sample_frame []]))"
    using br_link_end_to_end [OF chunk_write_sink [of 5] _ refl f _ _ _ chunk_read_stream [of 7] healthy_ideal_env, of 11 100 False] by auto
  moreover from r have "\<exists>status i t'. LoopRead True ideal_env (chunk_read 7) 40 (Suc (length s')) 3 s' =
         Some (status, map wire (take i (take k [sample_frame [1, 2, 3], sample_frame []])), t') \<and>
       (status = SOFTBUS_CONN_BR_UNDERLAY_READ_FAIL \<or> status = SOFTBUS_CONN_BR_UNDERLAY_SOCKET_CLOSED \<and>
         take i (take k [sample_frame [1, 2, 3], sample_frame []]) = take k [sample_frame [1, 2, 3], sample_frame []])" by simp
  ultimately show ?thesis by blast
qed

end
